(* ===== verification/Backend_Prelude.thy ===== *)
theory Backend_Prelude
  imports Main "HOL-Library.Word" "HOL-Library.Monad_Syntax"
begin

text \<open>
  Shared vocabulary of the development.

  \<^item> The machine types the C sources use (\<open>u8\<close>, \<open>u32\<close>, \<open>u64\<close>; \<open>size_t\<close> is
    \<open>u64\<close> on the LP64 targets the Makefile builds for), addresses, C strings (the
    characters before the terminating NUL) and byte buffers.
  \<^item> Heaps of structs: a partial function from addresses to records. Reading or writing
    through an address that is not allocated is undefined behaviour in C; here it is
    \<open>None\<close> in the option monad, so a statement that an operation returns \<open>Some\<close> is a
    memory-safety statement as well.
  \<^item> \<open>chain\<close>: the list of addresses a NULL-terminated linked list visits, and what
    unlinking and prepending do to it.
  \<^item> Generic facts on lists keyed by a field (first match, remove the first match).
\<close>

section \<open>Types\<close>

type_synonym u8 = "8 word"
type_synonym u32 = "32 word"
type_synonym u64 = "64 word"
type_synonym addr = nat
type_synonym cstr = string
type_synonym bytes = "u8 list"

named_theorems heap_simps \<open>rewriting of field reads over heap updates\<close>

lemma unat_u64_less: "unat (w :: u64) < 2 ^ 64"
proof -
  have "unat w < 2 ^ LENGTH(64)" by (rule unsigned_less)
  then show ?thesis by simp
qed

lemma unat_u32_less: "unat (w :: u32) < 2 ^ 32"
proof -
  have "unat w < 2 ^ LENGTH(32)" by (rule unsigned_less)
  then show ?thesis by simp
qed

lemma unat_of_nat_u32: "n < 2 ^ 32 \<Longrightarrow> unat (of_nat n :: u32) = n"
  by (simp add: unat_of_nat)

lemma unat_of_nat_u64: "n < 2 ^ 64 \<Longrightarrow> unat (of_nat n :: u64) = n"
  by (simp add: unat_of_nat)

section \<open>Heaps of structs\<close>

type_synonym 'n heap = "addr \<rightharpoonup> 'n"

definition heap_mod :: "addr \<Rightarrow> ('n \<Rightarrow> 'n) \<Rightarrow> 'n heap \<Rightarrow> 'n heap option" where
  "heap_mod a f h = (case h a of None \<Rightarrow> None | Some e \<Rightarrow> Some (h(a \<mapsto> f e)))"

definition fld :: "('n \<Rightarrow> addr option) \<Rightarrow> 'n heap \<Rightarrow> addr \<Rightarrow> addr option" where
  "fld f h a = (case h a of None \<Rightarrow> None | Some e \<Rightarrow> f e)"

lemma heap_mod_Some [simp]: "h a = Some e \<Longrightarrow> heap_mod a f h = Some (h(a \<mapsto> f e))"
  by (simp add: heap_mod_def)

lemma heap_mod_None [simp]: "h a = None \<Longrightarrow> heap_mod a f h = None"
  by (simp add: heap_mod_def)

lemma fld_Some: "h a = Some e \<Longrightarrow> fld f h a = f e"
  by (simp add: fld_def)

lemma fld_upd [heap_simps]: "fld f (h(a \<mapsto> e)) = (fld f h)(a := f e)"
  by (rule ext) (simp add: fld_def)

lemma fld_upd_same:
  assumes "h a = Some e" and "f e' = f e"
  shows "fld f (h(a \<mapsto> e')) = fld f h"
  using assms by (auto simp: fld_def fun_eq_iff)

section \<open>NULL-terminated chains\<close>

primrec chain :: "(addr \<Rightarrow> addr option) \<Rightarrow> addr option \<Rightarrow> addr list \<Rightarrow> bool" where
  "chain n p [] \<longleftrightarrow> p = None"
| "chain n p (a # as) \<longleftrightarrow> p = Some a \<and> chain n (n a) as"

lemma chain_None [simp]: "chain n None as \<longleftrightarrow> as = []"
  by (cases as) auto

lemma chain_head: "chain n p as \<Longrightarrow> p = (case as of [] \<Rightarrow> None | a # _ \<Rightarrow> Some a)"
  by (cases as) auto

lemma chain_cong: "(\<And>a. a \<in> set as \<Longrightarrow> n a = n' a) \<Longrightarrow> chain n p as = chain n' p as"
  by (induction as arbitrary: p) auto

lemma chain_upd [simp]: "a \<notin> set as \<Longrightarrow> chain (n(a := x)) p as = chain n p as"
  by (rule chain_cong) auto

lemma chain_unique: "chain n p as \<Longrightarrow> chain n p bs \<Longrightarrow> as = bs"
proof (induction as arbitrary: p bs)
  case Nil
  then show ?case by (cases bs) auto
next
  case (Cons a as)
  then show ?case by (cases bs) auto
qed

text \<open>The field of a node inside a chain is the node that follows it.\<close>

lemma chain_next_of:
  "chain n p (xs @ a # ys) \<Longrightarrow> n a = (case ys of [] \<Rightarrow> None | b # _ \<Rightarrow> Some b)"
  by (induction xs arbitrary: p) (auto split: list.splits)

text \<open>
  Unlinking \<open>a\<close>: the predecessor (or the head pointer, when \<open>a\<close> is the first node)
  is redirected to the successor of \<open>a\<close>.
\<close>

lemma chain_unlink_first: "chain n p (a # ys) \<Longrightarrow> chain n (n a) ys"
  by simp

lemma chain_unlink_inner:
  "chain n p (xs @ a # ys) \<Longrightarrow> xs \<noteq> [] \<Longrightarrow> distinct (xs @ a # ys) \<Longrightarrow>
     chain (n(last xs := n a)) p (xs @ ys)"
proof (induction xs arbitrary: p)
  case Nil
  then show ?case by simp
next
  case (Cons x xs)
  show ?case
  proof (cases "xs = []")
    case True
    with Cons.prems have "x \<notin> set ys" and "p = Some x" and "chain n (n a) ys" by simp_all
    then have "chain (n(x := n a)) (n a) ys" by simp
    with True \<open>p = Some x\<close> show ?thesis by (simp del: fun_upd_apply add: fun_upd_same)
  next
    case False
    then have "last xs \<in> set xs" by simp
    moreover from Cons.prems have "x \<notin> set xs" by simp
    ultimately have "x \<noteq> last xs" by blast
    with False Cons show ?thesis by simp
  qed
qed

lemma chain_prepend: "chain n p as \<Longrightarrow> a \<notin> set as \<Longrightarrow> chain (n(a := p)) (Some a) (a # as)"
  by simp

text \<open>Linking a node in between two parts of a chain.\<close>

definition list_head :: "addr list \<Rightarrow> addr option" where
  "list_head as = (case as of [] \<Rightarrow> None | a # _ \<Rightarrow> Some a)"

lemma list_head_simps [simp]: "list_head [] = None" "list_head (a # as) = Some a"
  by (simp_all add: list_head_def)

lemma list_head_None [simp]: "list_head as = None \<longleftrightarrow> as = []"
  by (cases as) simp_all

lemma chain_list_head: "chain n p as \<Longrightarrow> p = list_head as"
  by (cases as) auto

lemma chain_insert:
  "chain n p (xs @ ys) \<Longrightarrow> distinct (xs @ ys) \<Longrightarrow> a \<notin> set (xs @ ys) \<Longrightarrow>
     chain (if xs = [] then n(a := list_head ys) else (n(a := list_head ys))(last xs := Some a))
       (if xs = [] then Some a else p) (xs @ a # ys)"
proof (induction xs arbitrary: p)
  case Nil
  then show ?case by (simp add: chain_list_head [symmetric] del: fun_upd_apply add: fun_upd_same)
next
  case (Cons x xs)
  show ?case
  proof (cases "xs = []")
    case True
    with Cons.prems have "p = Some x" "chain n (list_head ys) ys" "x \<notin> set ys" "a \<noteq> x" "a \<notin> set ys"
      using chain_list_head [of n "n x" ys] by auto
    with True show ?thesis by (simp del: fun_upd_apply add: fun_upd_same fun_upd_other)
  next
    case False
    then have "x \<noteq> last xs" using Cons.prems by auto
    with False Cons show ?thesis by simp
  qed
qed

text \<open>Appending a node behind the last one.\<close>

lemma chain_append_node:
  "chain n p xs \<Longrightarrow> xs \<noteq> [] \<Longrightarrow> distinct xs \<Longrightarrow> a \<notin> set xs \<Longrightarrow> n a = None \<Longrightarrow>
     chain (n(last xs := Some a)) p (xs @ [a])"
proof (induction xs arbitrary: p)
  case Nil
  then show ?case by simp
next
  case (Cons x xs)
  show ?case
  proof (cases "xs = []")
    case True
    with Cons.prems show ?thesis by auto
  next
    case False
    then have "last xs \<in> set xs" by simp
    with Cons.prems have "x \<noteq> last xs" by auto
    with False Cons show ?thesis by simp
  qed
qed

lemma chain_subset_cong:
  "set as \<subseteq> A \<Longrightarrow> (\<And>a. a \<in> A \<Longrightarrow> n a = n' a) \<Longrightarrow> chain n p as = chain n' p as"
  by (rule chain_cong) auto

text \<open>
  A loop that frees the nodes of a list, \<open>while (p) { next = p->next; free(p); p = next; }\<close>: on a
  chain of distinct live nodes it frees exactly these, each once.
\<close>

locale list_release =
  fixes next_of :: "'n \<Rightarrow> addr option"
    and free_loop :: "addr option \<Rightarrow> 'n heap \<Rightarrow> 'n heap option"
  assumes free_loop_unfold: "free_loop p h =
    (case p of None \<Rightarrow> Some h
     | Some a \<Rightarrow> (case h a of None \<Rightarrow> None | Some e \<Rightarrow> free_loop (next_of e) (h(a := None))))"
begin

lemma free_loop_chain:
  "chain (fld next_of h) p as \<Longrightarrow> distinct as \<Longrightarrow> set as \<subseteq> dom h \<Longrightarrow>
     free_loop p h = Some (\<lambda>a. if a \<in> set as then None else h a)"
proof (induction as arbitrary: p h)
  case Nil
  then show ?case by (subst free_loop_unfold) simp
next
  case (Cons a as)
  then obtain e where e: "h a = Some e" by auto
  have "chain (fld next_of (h(a := None))) (next_of e) as = chain (fld next_of h) (next_of e) as"
    using Cons.prems(2) by (intro chain_cong) (auto simp: fld_def)
  then have "chain (fld next_of (h(a := None))) (next_of e) as" using Cons.prems e by (simp add: fld_Some)
  moreover have "distinct as" "set as \<subseteq> dom (h(a := None))" using Cons.prems by auto
  ultimately have "free_loop (next_of e) (h(a := None)) = Some (\<lambda>x. if x \<in> set as then None else (h(a := None)) x)"
    by (rule Cons.IH)
  with Cons.prems e show ?case by (subst free_loop_unfold) (auto simp: fun_eq_iff)
qed

end

section \<open>Lists of disjoint lists\<close>

lemma concat_nth_split:
  "i < length cs \<Longrightarrow> concat cs = concat (take i cs) @ cs ! i @ concat (drop (Suc i) cs)"
  by (metis concat.simps(2) concat_append id_take_nth_drop)

lemma concat_update_split:
  "i < length cs \<Longrightarrow> concat (cs[i := x]) = concat (take i cs) @ x @ concat (drop (Suc i) cs)"
  by (simp add: upd_conv_take_nth_drop)

lemma distinct_concat_disjoint:
  assumes "distinct (concat cs)" and "i < length cs" and "j < length cs" and "i \<noteq> j"
  shows "set (cs ! i) \<inter> set (cs ! j) = {}"
  using assms
proof (induction cs arbitrary: i j)
  case Nil
  then show ?case by simp
next
  case (Cons c cs)
  have sub: "x \<in> set (concat cs)" if "k < length cs" "x \<in> set (cs ! k)" for k x
    using that by (metis UN_I nth_mem set_concat)
  have "set c \<inter> set (cs ! k) = {}" if "k < length cs" for k
    using Cons.prems(1) sub [OF that] by (simp del: set_concat) blast
  with Cons show ?case by (cases i; cases j) auto
qed

lemma concat_remove_elem:
  assumes "distinct (concat cs)" and "i < length cs" and "cs ! i = xs @ a # ys"
  shows "distinct (concat (cs[i := xs @ ys]))"
    and "set (concat (cs[i := xs @ ys])) = set (concat cs) - {a}"
  using assms by (auto simp del: concat_append simp: concat_nth_split [of i cs] concat_update_split)

lemma concat_insert_elem:
  assumes "distinct (concat cs)" and "i < length cs" and "a \<notin> set (concat cs)"
  shows "distinct (concat (cs[i := a # cs ! i]))"
    and "set (concat (cs[i := a # cs ! i])) = insert a (set (concat cs))"
  using assms by (auto simp del: concat_append simp: concat_nth_split [of i cs] concat_update_split)

section \<open>Arrays\<close>

text \<open>Array access with the bounds the C array has; out of bounds is undefined behaviour.\<close>

definition arr_get :: "'a list \<Rightarrow> nat \<Rightarrow> 'a option" where
  "arr_get xs i = (if i < length xs then Some (xs ! i) else None)"

definition arr_set :: "'a list \<Rightarrow> nat \<Rightarrow> 'a \<Rightarrow> 'a list option" where
  "arr_set xs i x = (if i < length xs then Some (xs[i := x]) else None)"

lemma arr_get_in [simp]: "i < length xs \<Longrightarrow> arr_get xs i = Some (xs ! i)"
  by (simp add: arr_get_def)

lemma arr_set_in [simp]: "i < length xs \<Longrightarrow> arr_set xs i x = Some (xs[i := x])"
  by (simp add: arr_set_def)

section \<open>First matches in lists\<close>

fun remove_first :: "('a \<Rightarrow> bool) \<Rightarrow> 'a list \<Rightarrow> 'a list" where
  "remove_first P [] = []"
| "remove_first P (x # xs) = (if P x then xs else x # remove_first P xs)"

fun update_first :: "('a \<Rightarrow> bool) \<Rightarrow> ('a \<Rightarrow> 'a) \<Rightarrow> 'a list \<Rightarrow> 'a list" where
  "update_first P f [] = []"
| "update_first P f (x # xs) = (if P x then f x # xs else x # update_first P f xs)"

lemma find_split:
  "find P l = Some x \<Longrightarrow> \<exists>xs ys. l = xs @ x # ys \<and> P x \<and> (\<forall>y \<in> set xs. \<not> P y)"
proof (induction l)
  case Nil
  then show ?case by simp
next
  case (Cons a l)
  show ?case
  proof (cases "P a")
    case True
    with Cons.prems have "a # l = [] @ x # l \<and> P x" by simp
    then show ?thesis by fastforce
  next
    case False
    with Cons obtain xs ys where "l = xs @ x # ys" "P x" "\<forall>y \<in> set xs. \<not> P y" by auto
    with False have "a # l = (a # xs) @ x # ys \<and> P x \<and> (\<forall>y \<in> set (a # xs). \<not> P y)" by simp
    then show ?thesis by blast
  qed
qed

lemma find_first [simp]: "P x \<Longrightarrow> \<forall>y \<in> set xs. \<not> P y \<Longrightarrow> find P (xs @ x # ys) = Some x"
  by (induction xs) auto

lemma find_Some_in: "find P l = Some x \<Longrightarrow> x \<in> set l \<and> P x"
  by (auto dest: find_split)

lemma find_None: "find P l = None \<longleftrightarrow> (\<forall>x \<in> set l. \<not> P x)"
  by (induction l) auto

lemma find_append: "find P (xs @ ys) = (case find P xs of None \<Rightarrow> find P ys | Some x \<Rightarrow> Some x)"
  by (induction xs) auto

lemma find_filter: "find P l = (case filter P l of [] \<Rightarrow> None | x # _ \<Rightarrow> Some x)"
  by (induction l) auto

lemma find_map_prop: "find P (map f l) = map_option f (find (\<lambda>x. P (f x)) l)"
  by (induction l) auto

lemma remove_first_split [simp]:
  "P x \<Longrightarrow> \<forall>y \<in> set xs. \<not> P y \<Longrightarrow> remove_first P (xs @ x # ys) = xs @ ys"
  by (induction xs) auto

lemma remove_first_none [simp]: "\<forall>y \<in> set xs. \<not> P y \<Longrightarrow> remove_first P xs = xs"
  by (induction xs) auto

lemma update_first_split [simp]:
  "P x \<Longrightarrow> \<forall>y \<in> set xs. \<not> P y \<Longrightarrow> update_first P f (xs @ x # ys) = xs @ f x # ys"
  by (induction xs) auto

lemma update_first_none [simp]: "\<forall>y \<in> set xs. \<not> P y \<Longrightarrow> update_first P f xs = xs"
  by (induction xs) auto

lemma length_update_first [simp]: "length (update_first P f xs) = length xs"
  by (induction xs) auto

lemma length_remove_first:
  "length (remove_first P xs) = (if \<exists>x \<in> set xs. P x then length xs - 1 else length xs)"
proof (induction xs)
  case (Cons x xs)
  then show ?case by (cases xs) auto
qed simp

lemma set_remove_first: "set (remove_first P xs) \<subseteq> set xs"
  by (induction xs) auto

lemma set_update_first: "set (update_first P f xs) \<subseteq> set xs \<union> f ` set xs"
  by (induction xs) auto

section \<open>First minimum of a list\<close>

text \<open>The scan \<open>if (x < best) best = x\<close> keeps the first element with the least measure.\<close>

definition scan_min :: "('a \<Rightarrow> 'b::linorder) \<Rightarrow> 'a \<Rightarrow> 'a list \<Rightarrow> 'a" where
  "scan_min m v xs = foldl (\<lambda>v x. if m x < m v then x else v) v xs"

lemma scan_min_simps [simp]:
  "scan_min m v [] = v"
  "scan_min m v (x # xs) = scan_min m (if m x < m v then x else v) xs"
  by (simp_all add: scan_min_def)

lemma scan_min_split:
  "(scan_min m v as = v \<and> (\<forall>y \<in> set as. m v \<le> m y))
   \<or> (\<exists>xs ys. as = xs @ scan_min m v as # ys \<and> m (scan_min m v as) < m v
        \<and> (\<forall>x \<in> set xs. m (scan_min m v as) < m x) \<and> (\<forall>y \<in> set ys. m (scan_min m v as) \<le> m y))"
proof (induction as arbitrary: v)
  case Nil
  then show ?case by simp
next
  case (Cons a as)
  show ?case
  proof (cases "m a < m v")
    case True
    then have r: "scan_min m v (a # as) = scan_min m a as" by simp
    from Cons.IH [of a] show ?thesis
    proof
      assume "scan_min m a as = a \<and> (\<forall>y \<in> set as. m a \<le> m y)"
      then have "a # as = [] @ scan_min m v (a # as) # as \<and> m (scan_min m v (a # as)) < m v
        \<and> (\<forall>y \<in> set as. m (scan_min m v (a # as)) \<le> m y)"
        using True r by simp
      then show ?thesis by (intro disjI2) (rule exI [of _ "[]"], auto)
    next
      assume "\<exists>xs ys. as = xs @ scan_min m a as # ys \<and> m (scan_min m a as) < m a
        \<and> (\<forall>x \<in> set xs. m (scan_min m a as) < m x) \<and> (\<forall>y \<in> set ys. m (scan_min m a as) \<le> m y)"
      then obtain xs ys where "as = xs @ scan_min m a as # ys" "m (scan_min m a as) < m a"
        "\<forall>x \<in> set xs. m (scan_min m a as) < m x" "\<forall>y \<in> set ys. m (scan_min m a as) \<le> m y"
        by blast
      then have "a # as = (a # xs) @ scan_min m v (a # as) # ys \<and> m (scan_min m v (a # as)) < m v
        \<and> (\<forall>x \<in> set (a # xs). m (scan_min m v (a # as)) < m x)
        \<and> (\<forall>y \<in> set ys. m (scan_min m v (a # as)) \<le> m y)"
        using True unfolding r by auto
      then show ?thesis by blast
    qed
  next
    case False
    then have r: "scan_min m v (a # as) = scan_min m v as" by simp
    from Cons.IH [of v] show ?thesis
    proof
      assume "scan_min m v as = v \<and> (\<forall>y \<in> set as. m v \<le> m y)"
      with False r show ?thesis by auto
    next
      assume "\<exists>xs ys. as = xs @ scan_min m v as # ys \<and> m (scan_min m v as) < m v
        \<and> (\<forall>x \<in> set xs. m (scan_min m v as) < m x) \<and> (\<forall>y \<in> set ys. m (scan_min m v as) \<le> m y)"
      then obtain xs ys where "as = xs @ scan_min m v as # ys" "m (scan_min m v as) < m v"
        "\<forall>x \<in> set xs. m (scan_min m v as) < m x" "\<forall>y \<in> set ys. m (scan_min m v as) \<le> m y"
        by blast
      then have "a # as = (a # xs) @ scan_min m v (a # as) # ys \<and> m (scan_min m v (a # as)) < m v
        \<and> (\<forall>x \<in> set (a # xs). m (scan_min m v (a # as)) < m x)
        \<and> (\<forall>y \<in> set ys. m (scan_min m v (a # as)) \<le> m y)"
        using False unfolding r by auto
      then show ?thesis by blast
    qed
  qed
qed

lemma scan_min_first:
  obtains xs ys where "a # as = xs @ scan_min m a as # ys"
    and "\<forall>x \<in> set xs. m (scan_min m a as) < m x" and "\<forall>y \<in> set ys. m (scan_min m a as) \<le> m y"
  using scan_min_split [of m a as]
proof
  assume "scan_min m a as = a \<and> (\<forall>y \<in> set as. m a \<le> m y)"
  then show thesis using that [of "[]" as] by simp
next
  assume "\<exists>xs ys. as = xs @ scan_min m a as # ys \<and> m (scan_min m a as) < m a
        \<and> (\<forall>x \<in> set xs. m (scan_min m a as) < m x) \<and> (\<forall>y \<in> set ys. m (scan_min m a as) \<le> m y)"
  then obtain xs ys where *: "as = xs @ scan_min m a as # ys" "m (scan_min m a as) < m a"
        "\<forall>x \<in> set xs. m (scan_min m a as) < m x" "\<forall>y \<in> set ys. m (scan_min m a as) \<le> m y"
    by blast
  then have "a # as = (a # xs) @ scan_min m a as # ys" by simp
  then show thesis using * by (intro that [of "a # xs" ys]) auto
qed

lemma remove_first_min:
  assumes "\<forall>x \<in> set xs. m v < m x" and "\<forall>y \<in> set ys. m v \<le> m y"
  shows "remove_first (\<lambda>x. m x = Min (m ` set (xs @ v # ys))) (xs @ v # ys) = xs @ ys"
proof -
  have "Min (m ` set (xs @ v # ys)) = m v"
    using assms by (intro Min_eqI) (auto simp: less_imp_le)
  with assms show ?thesis by (intro remove_first_split) (auto dest: less_imp_neq)
qed

section \<open>Counted loops\<close>

text \<open>\<open>for_each body xs s\<close> runs \<open>body\<close> on the elements in turn, stopping at undefined behaviour.\<close>

primrec for_each :: "('x \<Rightarrow> 's \<Rightarrow> 's option) \<Rightarrow> 'x list \<Rightarrow> 's \<Rightarrow> 's option" where
  "for_each body [] s = Some s"
| "for_each body (x # xs) s = (case body x s of None \<Rightarrow> None | Some s' \<Rightarrow> for_each body xs s')"

lemma for_each_append:
  "for_each body (xs @ ys) s = (case for_each body xs s of None \<Rightarrow> None | Some s' \<Rightarrow> for_each body ys s')"
  by (induction xs arbitrary: s) (auto split: option.splits)

lemma for_each_cong:
  "(\<And>x. x \<in> set xs \<Longrightarrow> body x = body' x) \<Longrightarrow> for_each body xs s = for_each body' xs s"
  by (induction xs arbitrary: s) (auto split: option.split)

lemma for_each_fold:
  "(\<And>x s. x \<in> set xs \<Longrightarrow> body x s = Some (f x s)) \<Longrightarrow> for_each body xs s = Some (fold f xs s)"
  by (induction xs arbitrary: s) auto

lemma for_each_nested:
  "for_each (\<lambda>i. for_each body (xss ! i)) [0..<length xss] s = for_each body (concat xss) s"
proof (induction xss rule: rev_induct)
  case Nil
  then show ?case by simp
next
  case (snoc xs xss)
  have "for_each (\<lambda>i. for_each body ((xss @ [xs]) ! i)) [0..<length xss] s =
      for_each (\<lambda>i. for_each body (xss ! i)) [0..<length xss] s"
    by (rule for_each_cong) (simp add: nth_append)
  with snoc show ?case by (simp add: for_each_append split: option.splits)
qed

section \<open>Refinement of operation sequences\<close>

text \<open>
  \<open>run step s ops\<close> performs a sequence of operations on a state, stopping at undefined
  behaviour; \<open>run_ok step pre s ops\<close> says that every operation meets its precondition in the
  state it runs in. The locale is the interface between an implementation and its
  specification: one simulation step is enough for all sequences.
\<close>

fun run :: "('s \<Rightarrow> 'o \<Rightarrow> 's option) \<Rightarrow> 's \<Rightarrow> 'o list \<Rightarrow> 's option" where
  "run step s [] = Some s"
| "run step s (x # xs) = (case step s x of None \<Rightarrow> None | Some s' \<Rightarrow> run step s' xs)"

fun run_ok :: "('s \<Rightarrow> 'o \<Rightarrow> 's option) \<Rightarrow> ('s \<Rightarrow> 'o \<Rightarrow> bool) \<Rightarrow> 's \<Rightarrow> 'o list \<Rightarrow> bool" where
  "run_ok step pre s [] = True"
| "run_ok step pre s (x # xs) =
     (pre s x \<and> (case step s x of None \<Rightarrow> True | Some s' \<Rightarrow> run_ok step pre s' xs))"

lemma run_append: "run step s (xs @ ys) = (case run step s xs of None \<Rightarrow> None | Some s' \<Rightarrow> run step s' ys)"
  by (induction xs arbitrary: s) (auto split: option.splits)

lemma run_ok_True: "run_ok step (\<lambda>_ _. True) s xs"
  by (induction xs arbitrary: s) (simp_all split: option.split)

locale refinement =
  fixes step :: "'s \<Rightarrow> 'o \<Rightarrow> 's option"
    and pre :: "'s \<Rightarrow> 'o \<Rightarrow> bool"
    and astep :: "'a \<Rightarrow> 'o \<Rightarrow> 'a"
    and rel :: "'s \<Rightarrow> 'a \<Rightarrow> bool"
  assumes simulates: "rel s a \<Longrightarrow> pre s x \<Longrightarrow> \<exists>s'. step s x = Some s' \<and> rel s' (astep a x)"
begin

lemma run_refines:
  "rel s a \<Longrightarrow> run_ok step pre s xs \<Longrightarrow> \<exists>s'. run step s xs = Some s' \<and> rel s' (foldl astep a xs)"
proof (induction xs arbitrary: s a)
  case Nil
  then show ?case by simp
next
  case (Cons x xs)
  then obtain s1 where "step s x = Some s1" "rel s1 (astep a x)"
    using simulates [of s a x] by auto
  with Cons show ?case by auto
qed

lemma run_keeps:
  assumes "rel s a" and "run_ok step pre s xs" and "I a"
    and "\<And>a x. I a \<Longrightarrow> I (astep a x)"
  shows "\<exists>s' a'. run step s xs = Some s' \<and> rel s' a' \<and> I a'"
proof -
  have "I (foldl astep a xs)"
    using assms(3,4) by (induction xs arbitrary: a) auto
  with run_refines [OF assms(1,2)] show ?thesis by blast
qed

end

text \<open>
  When what a caller has to respect can be said of the specification alone, a sequence is
  checked against the specification and then runs on the implementation.
\<close>

fun checked :: "('a \<Rightarrow> 'o \<Rightarrow> 'a) \<Rightarrow> ('a \<Rightarrow> 'o \<Rightarrow> bool) \<Rightarrow> 'a \<Rightarrow> 'o list \<Rightarrow> bool" where
  "checked astep apre a [] = True"
| "checked astep apre a (x # xs) = (apre a x \<and> checked astep apre (astep a x) xs)"

lemma checked_append:
  "checked astep apre a (xs @ ys) \<longleftrightarrow> checked astep apre a xs \<and> checked astep apre (foldl astep a xs) ys"
  by (induction xs arbitrary: a) auto

locale checked_refinement =
  fixes step :: "'s \<Rightarrow> 'o \<Rightarrow> 's option"
    and apre :: "'a \<Rightarrow> 'o \<Rightarrow> bool"
    and astep :: "'a \<Rightarrow> 'o \<Rightarrow> 'a"
    and rel :: "'s \<Rightarrow> 'a \<Rightarrow> bool"
  assumes step_refines: "rel s a \<Longrightarrow> apre a x \<Longrightarrow> \<exists>s'. step s x = Some s' \<and> rel s' (astep a x)"
begin

lemma checked_refines:
  "rel s a \<Longrightarrow> checked astep apre a xs \<Longrightarrow> \<exists>s'. run step s xs = Some s' \<and> rel s' (foldl astep a xs)"
proof (induction xs arbitrary: s a)
  case (Cons x xs)
  then obtain s1 where "step s x = Some s1" "rel s1 (astep a x)"
    using step_refines [of s a x] by auto
  with Cons show ?case by auto
qed simp

end

section \<open>Invariants\<close>

text \<open>
  A state machine with a proposed invariant, as a step relation or as a function that performs
  operations: what holds at the start and is kept by every step holds everywhere.
\<close>

locale invariant_system =
  fixes start :: "'s \<Rightarrow> bool"
    and step :: "'s \<Rightarrow> 's \<Rightarrow> bool"
    and invar :: "'s \<Rightarrow> bool"
  assumes invar_start: "start s \<Longrightarrow> invar s"
    and invar_step: "invar s \<Longrightarrow> step s s' \<Longrightarrow> invar s'"
begin

lemma invar_reachable: "start s \<Longrightarrow> step\<^sup>*\<^sup>* s s' \<Longrightarrow> invar s'"
proof -
  assume "start s" and "step\<^sup>*\<^sup>* s s'"
  from this(2) show "invar s'"
    by (induction rule: rtranclp_induct) (use \<open>start s\<close> invar_start invar_step in blast)+
qed

end

locale operation_system =
  fixes start :: "'s \<Rightarrow> bool"
    and exec :: "'s \<Rightarrow> 'o \<Rightarrow> 's option"
    and invar :: "'s \<Rightarrow> bool"
  assumes invar_create: "start s \<Longrightarrow> invar s"
    and invar_exec: "invar s \<Longrightarrow> exec s x = Some s' \<Longrightarrow> invar s'"
begin

lemma run_reachable: "run exec s xs = Some s' \<Longrightarrow> (\<lambda>s s'. \<exists>x. exec s x = Some s')\<^sup>*\<^sup>* s s'"
proof (induction xs arbitrary: s)
  case (Cons x xs)
  then obtain s1 where "exec s x = Some s1" "run exec s1 xs = Some s'" by (auto split: option.splits)
  then show ?case by (intro converse_rtranclp_into_rtranclp [OF _ Cons.IH]) auto
qed simp

end

sublocale operation_system \<subseteq> machine: invariant_system start "\<lambda>s s'. \<exists>x. exec s x = Some s'" invar
  by unfold_locales (auto intro: invar_create invar_exec)

context operation_system
begin

lemma invar_run: "start s \<Longrightarrow> run exec s xs = Some s' \<Longrightarrow> invar s'"
  by (rule machine.invar_reachable [OF _ run_reachable])

end

end
