(* ===== verification/Common.thy ===== *)
theory Common
  imports Backend_Prelude
begin

text \<open>
  \<^verbatim>\<open>src/common/common.c\<close> and \<^verbatim>\<open>include/common.h\<close>: the error codes every module returns,
  the allocation wrappers, the NULL-tolerant string helpers and the millisecond clock; and
  the parts of the C library that several modules use (characters as bytes, \<open>strcmp\<close>,
  \<open>memcpy\<close> out of a caller's buffer, the string hash of the two hash tables).
\<close>

section \<open>Error codes\<close>

datatype error_code_t =
    SUCCESS | ERROR_MEMORY | ERROR_INVALID_PARAM | ERROR_NOT_FOUND | ERROR_ALREADY_EXISTS
  | ERROR_IO | ERROR_FULL | ERROR_EMPTY | ERROR_TIMEOUT

primrec error_code_val :: "error_code_t \<Rightarrow> int" where
  "error_code_val SUCCESS = 0"
| "error_code_val ERROR_MEMORY = -1"
| "error_code_val ERROR_INVALID_PARAM = -2"
| "error_code_val ERROR_NOT_FOUND = -3"
| "error_code_val ERROR_ALREADY_EXISTS = -4"
| "error_code_val ERROR_IO = -5"
| "error_code_val ERROR_FULL = -6"
| "error_code_val ERROR_EMPTY = -7"
| "error_code_val ERROR_TIMEOUT = -8"

lemma error_code_val_inj [simp]: "error_code_val a = error_code_val b \<longleftrightarrow> a = b"
  by (cases a; cases b) simp_all

lemma error_code_val_SUCCESS [simp]: "error_code_val a = 0 \<longleftrightarrow> a = SUCCESS"
  by (cases a) simp_all

text \<open>The codes are ordered by their integer values, as the C enumeration constants are.\<close>

instantiation error_code_t :: linorder
begin

definition less_eq_error_code_t :: "error_code_t \<Rightarrow> error_code_t \<Rightarrow> bool" where
  "less_eq_error_code_t a b \<longleftrightarrow> error_code_val a \<le> error_code_val b"

definition less_error_code_t :: "error_code_t \<Rightarrow> error_code_t \<Rightarrow> bool" where
  "less_error_code_t a b \<longleftrightarrow> error_code_val a < error_code_val b"

instance
proof
  fix a b :: error_code_t
  assume "a \<le> b" and "b \<le> a"
  then have "error_code_val a = error_code_val b"
    by (simp add: less_eq_error_code_t_def)
  then show "a = b" by simp
qed (auto simp: less_eq_error_code_t_def less_error_code_t_def)

end

lemma error_code_le_SUCCESS: "(a :: error_code_t) \<le> SUCCESS"
  by (cases a) (simp_all add: less_eq_error_code_t_def)

text \<open>The largest \<open>int\<close>; the overflow of a signed addition is undefined.\<close>

definition INT_MAX :: int where
  "INT_MAX = 2147483647"

section \<open>Allocation wrappers\<close>

text \<open>
  \<open>malloc\<close>, \<open>calloc\<close> and \<open>realloc\<close> either return a pointer or NULL; the wrappers end
  the process when a non-empty request returns NULL. The pointer the allocator returned is
  an argument (\<open>p\<close>).
\<close>

datatype 'a outcome = Returns 'a | Exits

definition safe_malloc :: "addr option \<Rightarrow> u64 \<Rightarrow> addr option outcome" where
  "safe_malloc p sz = (if p = None \<and> sz > 0 then Exits else Returns p)"

definition safe_calloc :: "addr option \<Rightarrow> u64 \<Rightarrow> u64 \<Rightarrow> addr option outcome" where
  "safe_calloc p nmemb sz = (if p = None \<and> nmemb > 0 \<and> sz > 0 then Exits else Returns p)"

definition safe_realloc :: "addr option \<Rightarrow> u64 \<Rightarrow> addr option outcome" where
  "safe_realloc new_ptr sz = (if new_ptr = None \<and> sz > 0 then Exits else Returns new_ptr)"

text \<open>
  \<open>safe_free(&cell)\<close> on the set of live allocations: \<open>ptr\<close> is the address of the cell
  (\<open>None\<close> for NULL) with the cell's content. Freeing an address that is not live is
  undefined behaviour (\<open>None\<close>).
\<close>

definition safe_free :: "addr option option \<Rightarrow> addr set \<Rightarrow> (addr option option \<times> addr set) option"
where
  "safe_free ptr live =
     (case ptr of
        None \<Rightarrow> Some (ptr, live)
      | Some None \<Rightarrow> Some (ptr, live)
      | Some (Some a) \<Rightarrow> if a \<in> live then Some (Some None, live - {a}) else None)"

section \<open>Characters, strings and buffers\<close>

definition byte_of_char :: "char \<Rightarrow> u8" where
  "byte_of_char c = word_of_nat (of_char c)"

definition char_of_byte :: "u8 \<Rightarrow> char" where
  "char_of_byte b = char_of (unat b)"

lemma char_of_byte_of_char [simp]: "char_of_byte (byte_of_char c) = c"
  by (simp add: char_of_byte_def byte_of_char_def unat_of_nat)

lemma byte_of_char_of_byte [simp]: "byte_of_char (char_of_byte b) = b"
proof -
  have "unat b < 256" using unsigned_less [of b] by simp
  then show ?thesis by (simp add: char_of_byte_def byte_of_char_def)
qed

lemma byte_of_char_inj [simp]: "byte_of_char c = byte_of_char d \<longleftrightarrow> c = d"
  by (metis char_of_byte_of_char)

text \<open>\<open>char\<close> is signed on the x86-64 targets: \<open>int c = *p\<close> sign-extends.\<close>

definition char_to_int :: "char \<Rightarrow> int" where
  "char_to_int c = (let n = of_char c in if n < 128 then n else n - 256)"

definition c_string :: "cstr \<Rightarrow> bool" where
  "c_string s \<longleftrightarrow> CHR 0x00 \<notin> set s"

fun c_strcmp :: "cstr \<Rightarrow> cstr \<Rightarrow> int" where
  "c_strcmp [] [] = 0"
| "c_strcmp [] (b # bs) = -1"
| "c_strcmp (a # as) [] = 1"
| "c_strcmp (a # as) (b # bs) =
     (if a = b then c_strcmp as bs
      else if byte_of_char a < byte_of_char b then -1 else 1)"

definition safe_strdup :: "cstr option \<Rightarrow> cstr option" where
  "safe_strdup str = (case str of None \<Rightarrow> None | Some s \<Rightarrow> Some s)"

definition safe_strcmp :: "cstr option \<Rightarrow> cstr option \<Rightarrow> int" where
  "safe_strcmp s1 s2 =
     (case (s1, s2) of
        (None, None) \<Rightarrow> 0
      | (None, Some _) \<Rightarrow> -1
      | (Some _, None) \<Rightarrow> 1
      | (Some a, Some b) \<Rightarrow> c_strcmp a b)"

lemma c_strcmp_eq_0 [simp]: "c_strcmp a b = 0 \<longleftrightarrow> a = b"
  by (induction a b rule: c_strcmp.induct) auto

lemma c_strcmp_antisym: "c_strcmp b a = - c_strcmp a b"
  by (induction a b rule: c_strcmp.induct) (auto simp: not_less order_antisym_conv)

text \<open>\<open>memcpy\<close> of \<open>n\<close> bytes out of a caller's buffer; reading past its end is undefined.\<close>

definition memcpy_from :: "bytes \<Rightarrow> u64 \<Rightarrow> bytes option" where
  "memcpy_from buf n = (if unat n \<le> length buf then Some (take (unat n) buf) else None)"

lemma memcpy_from_Some [simp]: "unat n \<le> length buf \<Longrightarrow> memcpy_from buf n = Some (take (unat n) buf)"
  by (simp add: memcpy_from_def)

section \<open>Descriptors\<close>

text \<open>\<open>close\<close> on the set of open descriptors; closing one that is not open is an error of the program.\<close>

definition close_fd :: "int \<Rightarrow> int set \<Rightarrow> int set option" where
  "close_fd fd fds = (if fd \<in> fds then Some (fds - {fd}) else None)"

section \<open>Clock\<close>

text \<open>\<open>clock_gettime\<close> supplies the two fields of the \<open>timespec\<close>; the sum is taken in 64 bits.\<close>

definition get_timestamp_ms :: "u64 \<Rightarrow> u64 \<Rightarrow> u64" where
  "get_timestamp_ms tv_sec tv_nsec = tv_sec * 1000 + tv_nsec div 1000000"

end
