(* ===== verification/Cache.thy ===== *)
theory Cache
  imports Common
begin

text \<open>
  \<^verbatim>\<open>src/cache/cache.c\<close>, \<^verbatim>\<open>include/cache.h\<close>: the LRU/LFU cache with TTLs, at the level of the
  pointers the code manipulates. Every entry is on two intrusive structures at once, the
  doubly linked recency list (\<open>prev\<close>, \<open>next\<close>, \<open>head\<close>, \<open>tail\<close>) and one hash chain
  (\<open>hash_next\<close>, \<open>hash_table\<close>), so the entries live in a heap indexed by addresses.

  Conventions. \<open>None\<close> as the result of an operation is undefined behaviour (a read or
  write through a dangling pointer, a read past a buffer, a division by zero) or a loop
  that does not end. A NULL argument is \<open>None\<close>. The readings of the clock and the address
  \<open>calloc\<close> returns for a new entry are arguments. Each operation runs between
  \<open>pthread_rwlock_wrlock\<close> (or \<open>rdlock\<close>) and \<open>pthread_rwlock_unlock\<close>, so it is one step.
\<close>

section \<open>Data\<close>

datatype eviction_policy_t = EVICTION_LRU | EVICTION_LFU

record cache_entry_t =
  ce_key :: cstr
  ce_value :: bytes
  ce_value_size :: u64
  ce_timestamp :: u64
  ce_ttl_ms :: u64
  ce_access_count :: u64
  ce_prev :: "addr option"
  ce_next :: "addr option"
  ce_hash_next :: "addr option"

record cache_t =
  ch_heap :: "cache_entry_t heap"
  hash_table :: "addr option list"
  hash_size :: u64
  ch_head :: "addr option"
  ch_tail :: "addr option"
  ch_size :: u64
  ch_max_size :: u64
  ch_policy :: eviction_policy_t
  ch_hits :: u64
  ch_misses :: u64
  ch_evictions :: u64

record cache_stats_t =
  cs_size :: u64
  cs_max_size :: u64
  cs_hits :: u64
  cs_misses :: u64
  cs_evictions :: u64

section \<open>Helpers\<close>

fun hash_key_loop :: "u32 \<Rightarrow> cstr \<Rightarrow> u32" where
  "hash_key_loop hash [] = hash"
| "hash_key_loop hash (c # key) =
     hash_key_loop ((push_bit 5 hash + hash) + word_of_int (char_to_int c)) key"

definition hash_key :: "cstr \<Rightarrow> u32" where
  "hash_key key = hash_key_loop 5381 key"

definition cache_bucket :: "cache_t \<Rightarrow> cstr \<Rightarrow> nat option" where
  "cache_bucket c key =
     (if hash_size c = 0 then None else Some (unat (ucast (hash_key key) mod hash_size c)))"

definition remove_from_list :: "cache_t \<Rightarrow> addr \<Rightarrow> cache_t option" where
  "remove_from_list c entry = do {
     e \<leftarrow> ch_heap c entry;
     c \<leftarrow> (case ce_prev e of
             Some p \<Rightarrow> do {
               h \<leftarrow> heap_mod p (\<lambda>pe. pe\<lparr>ce_next := ce_next e\<rparr>) (ch_heap c);
               Some (c\<lparr>ch_heap := h\<rparr>) }
           | None \<Rightarrow> Some (c\<lparr>ch_head := ce_next e\<rparr>));
     e \<leftarrow> ch_heap c entry;
     (case ce_next e of
        Some n \<Rightarrow> do {
          h \<leftarrow> heap_mod n (\<lambda>ne. ne\<lparr>ce_prev := ce_prev e\<rparr>) (ch_heap c);
          Some (c\<lparr>ch_heap := h\<rparr>) }
      | None \<Rightarrow> Some (c\<lparr>ch_tail := ce_prev e\<rparr>))
   }"

definition add_to_head :: "cache_t \<Rightarrow> addr \<Rightarrow> cache_t option" where
  "add_to_head c entry = do {
     h \<leftarrow> heap_mod entry (\<lambda>e. e\<lparr>ce_prev := None, ce_next := ch_head c\<rparr>) (ch_heap c);
     h \<leftarrow> (case ch_head c of
             Some p \<Rightarrow> heap_mod p (\<lambda>e. e\<lparr>ce_prev := Some entry\<rparr>) h
           | None \<Rightarrow> Some h);
     c \<leftarrow> Some (c\<lparr>ch_heap := h, ch_head := Some entry\<rparr>);
     Some (if ch_tail c = None then c\<lparr>ch_tail := Some entry\<rparr> else c)
   }"

definition move_to_head :: "cache_t \<Rightarrow> addr \<Rightarrow> cache_t option" where
  "move_to_head c entry =
     (if ch_head c = Some entry then Some c
      else do { c \<leftarrow> remove_from_list c entry; add_to_head c entry })"

definition entry_expired :: "u64 \<Rightarrow> cache_entry_t \<Rightarrow> bool" where
  "entry_expired now e \<longleftrightarrow> ce_ttl_ms e > 0 \<and> now - ce_timestamp e > ce_ttl_ms e"

partial_function (option) find_entry_loop ::
  "addr option \<Rightarrow> cache_entry_t heap \<Rightarrow> cstr \<Rightarrow> u64 \<Rightarrow> addr option option" where
  "find_entry_loop entry h key now =
     (case entry of
        None \<Rightarrow> Some None
      | Some a \<Rightarrow> do {
          e \<leftarrow> h a;
          if c_strcmp (ce_key e) key = 0
          then Some (if entry_expired now e then None else Some a)
          else find_entry_loop (ce_hash_next e) h key now })"

definition find_entry :: "cache_t \<Rightarrow> cstr \<Rightarrow> u64 \<Rightarrow> addr option option" where
  "find_entry c key now = do {
     bucket \<leftarrow> cache_bucket c key;
     first \<leftarrow> arr_get (hash_table c) bucket;
     find_entry_loop first (ch_heap c) key now
   }"

partial_function (option) hash_unlink_loop ::
  "addr option \<Rightarrow> addr option \<Rightarrow> addr \<Rightarrow> nat \<Rightarrow> cache_entry_t heap \<Rightarrow> addr option list \<Rightarrow>
     (cache_entry_t heap \<times> addr option list) option" where
  "hash_unlink_loop current prev entry bucket h tab =
     (case current of
        None \<Rightarrow> Some (h, tab)
      | Some a \<Rightarrow> do {
          e \<leftarrow> h a;
          if a = entry
          then (case prev of
                  Some p \<Rightarrow> do {
                    h \<leftarrow> heap_mod p (\<lambda>pe. pe\<lparr>ce_hash_next := ce_hash_next e\<rparr>) h;
                    Some (h, tab) }
                | None \<Rightarrow> do {
                    tab \<leftarrow> arr_set tab bucket (ce_hash_next e);
                    Some (h, tab) })
          else hash_unlink_loop (ce_hash_next e) (Some a) entry bucket h tab })"

definition remove_entry :: "cache_t \<Rightarrow> addr \<Rightarrow> cache_t option" where
  "remove_entry c entry = do {
     e \<leftarrow> ch_heap c entry;
     bucket \<leftarrow> cache_bucket c (ce_key e);
     first \<leftarrow> arr_get (hash_table c) bucket;
     (h, tab) \<leftarrow> hash_unlink_loop first None entry bucket (ch_heap c) (hash_table c);
     c \<leftarrow> remove_from_list (c\<lparr>ch_heap := h, hash_table := tab\<rparr>) entry;
     Some (c\<lparr>ch_heap := (ch_heap c)(entry := None), ch_size := ch_size c - 1\<rparr>)
   }"

partial_function (option) find_victim_loop ::
  "addr option \<Rightarrow> addr option \<Rightarrow> cache_entry_t heap \<Rightarrow> addr option option" where
  "find_victim_loop current victim h =
     (case current of
        None \<Rightarrow> Some victim
      | Some a \<Rightarrow> do {
          e \<leftarrow> h a;
          v \<leftarrow> victim;
          ve \<leftarrow> h v;
          find_victim_loop (ce_next e)
            (if ce_access_count e < ce_access_count ve then Some a else Some v) h })"

definition find_victim :: "cache_t \<Rightarrow> addr option option" where
  "find_victim c =
     (case ch_policy c of
        EVICTION_LRU \<Rightarrow> Some (ch_tail c)
      | EVICTION_LFU \<Rightarrow> find_victim_loop (ch_head c) (ch_head c) (ch_heap c))"

partial_function (option) evict_if_needed :: "cache_t \<Rightarrow> cache_t option" where
  "evict_if_needed c =
     (if ch_size c \<ge> ch_max_size c
      then do {
        victim \<leftarrow> find_victim c;
        (case victim of
           Some a \<Rightarrow> do {
             c \<leftarrow> remove_entry c a;
             evict_if_needed (c\<lparr>ch_evictions := ch_evictions c + 1\<rparr>) }
         | None \<Rightarrow> Some c) }
      else Some c)"

section \<open>Interface\<close>

definition cache_create :: "u64 \<Rightarrow> eviction_policy_t \<Rightarrow> cache_t" where
  "cache_create max_size policy =
     \<lparr>ch_heap = Map.empty, hash_table = replicate (unat (max_size * 2)) None,
      hash_size = max_size * 2, ch_head = None, ch_tail = None, ch_size = 0,
      ch_max_size = max_size, ch_policy = policy, ch_hits = 0, ch_misses = 0,
      ch_evictions = 0\<rparr>"

definition cache_put_with_ttl ::
  "cache_t option \<Rightarrow> cstr option \<Rightarrow> bytes option \<Rightarrow> u64 \<Rightarrow> u64 \<Rightarrow> u64 \<Rightarrow> addr \<Rightarrow> u64 \<Rightarrow>
     (error_code_t \<times> cache_t option) option" where
  "cache_put_with_ttl cache key value value_size ttl_ms now_find new_entry now =
     (case (cache, key, value) of
        (Some c, Some k, Some buf) \<Rightarrow>
          if value_size = 0 then Some (ERROR_INVALID_PARAM, cache)
          else do {
            existing \<leftarrow> find_entry c k now_find;
            (case existing of
               Some a \<Rightarrow> do {
                 v \<leftarrow> memcpy_from buf value_size;
                 h \<leftarrow> heap_mod a (\<lambda>e. e\<lparr>ce_value := v, ce_value_size := value_size,
                        ce_timestamp := now, ce_ttl_ms := ttl_ms\<rparr>) (ch_heap c);
                 c \<leftarrow> Some (c\<lparr>ch_heap := h\<rparr>);
                 c \<leftarrow> (if ch_policy c = EVICTION_LRU then move_to_head c a else Some c);
                 Some (SUCCESS, Some c) }
             | None \<Rightarrow> do {
                 c \<leftarrow> evict_if_needed c;
                 v \<leftarrow> memcpy_from buf value_size;
                 bucket \<leftarrow> cache_bucket c k;
                 first \<leftarrow> arr_get (hash_table c) bucket;
                 e \<leftarrow> Some \<lparr>ce_key = k, ce_value = v, ce_value_size = value_size,
                        ce_timestamp = now, ce_ttl_ms = ttl_ms, ce_access_count = 0,
                        ce_prev = None, ce_next = None, ce_hash_next = first\<rparr>;
                 tab \<leftarrow> arr_set (hash_table c) bucket (Some new_entry);
                 c \<leftarrow> add_to_head
                        (c\<lparr>ch_heap := (ch_heap c)(new_entry \<mapsto> e), hash_table := tab\<rparr>) new_entry;
                 Some (SUCCESS, Some (c\<lparr>ch_size := ch_size c + 1\<rparr>)) }) }
      | _ \<Rightarrow> Some (ERROR_INVALID_PARAM, cache))"

definition cache_put ::
  "cache_t option \<Rightarrow> cstr option \<Rightarrow> bytes option \<Rightarrow> u64 \<Rightarrow> u64 \<Rightarrow> addr \<Rightarrow> u64 \<Rightarrow>
     (error_code_t \<times> cache_t option) option" where
  "cache_put cache key value value_size now_find new_entry now =
     cache_put_with_ttl cache key value value_size 0 now_find new_entry now"

text \<open>
  \<open>want_value\<close> and \<open>want_size\<close> say whether the out-parameters are non-NULL; the second and
  third components are what is stored through them.
\<close>

definition cache_get ::
  "cache_t option \<Rightarrow> cstr option \<Rightarrow> bool \<Rightarrow> bool \<Rightarrow> u64 \<Rightarrow>
     (error_code_t \<times> bytes option \<times> u64 option \<times> cache_t option) option" where
  "cache_get cache key want_value want_size now =
     (case (cache, key) of
        (Some c, Some k) \<Rightarrow> do {
          entry \<leftarrow> find_entry c k now;
          (case entry of
             None \<Rightarrow>
               Some (ERROR_NOT_FOUND, None, None, Some (c\<lparr>ch_misses := ch_misses c + 1\<rparr>))
           | Some a \<Rightarrow> do {
               h \<leftarrow> heap_mod a (\<lambda>e. e\<lparr>ce_access_count := ce_access_count e + 1\<rparr>) (ch_heap c);
               c \<leftarrow> Some (c\<lparr>ch_heap := h, ch_hits := ch_hits c + 1\<rparr>);
               c \<leftarrow> (if ch_policy c = EVICTION_LRU then move_to_head c a else Some c);
               e \<leftarrow> ch_heap c a;
               value \<leftarrow> (if want_value
                         then do { v \<leftarrow> memcpy_from (ce_value e) (ce_value_size e); Some (Some v) }
                         else Some None);
               Some (SUCCESS, value, if want_size then Some (ce_value_size e) else None, Some c) }) }
      | _ \<Rightarrow> Some (ERROR_INVALID_PARAM, None, None, cache))"

definition cache_delete ::
  "cache_t option \<Rightarrow> cstr option \<Rightarrow> u64 \<Rightarrow> (error_code_t \<times> cache_t option) option" where
  "cache_delete cache key now =
     (case (cache, key) of
        (Some c, Some k) \<Rightarrow> do {
          entry \<leftarrow> find_entry c k now;
          (case entry of
             None \<Rightarrow> Some (ERROR_NOT_FOUND, Some c)
           | Some a \<Rightarrow> do { c \<leftarrow> remove_entry c a; Some (SUCCESS, Some c) }) }
      | _ \<Rightarrow> Some (ERROR_INVALID_PARAM, cache))"

definition cache_exists :: "cache_t option \<Rightarrow> cstr option \<Rightarrow> u64 \<Rightarrow> bool option" where
  "cache_exists cache key now =
     (case (cache, key) of
        (Some c, Some k) \<Rightarrow> do { entry \<leftarrow> find_entry c k now; Some (entry \<noteq> None) }
      | _ \<Rightarrow> Some False)"

partial_function (option) cache_clear_loop ::
  "addr option \<Rightarrow> cache_entry_t heap \<Rightarrow> cache_entry_t heap option" where
  "cache_clear_loop current h =
     (case current of
        None \<Rightarrow> Some h
      | Some a \<Rightarrow> do { e \<leftarrow> h a; cache_clear_loop (ce_next e) (h(a := None)) })"

definition cache_clear :: "cache_t option \<Rightarrow> cache_t option option" where
  "cache_clear cache =
     (case cache of
        None \<Rightarrow> Some None
      | Some c \<Rightarrow> do {
          h \<leftarrow> cache_clear_loop (ch_head c) (ch_heap c);
          Some (Some (c\<lparr>ch_heap := h, hash_table := replicate (unat (hash_size c)) None,
                       ch_head := None, ch_tail := None, ch_size := 0\<rparr>)) })"

text \<open>\<open>cache_destroy\<close> returns the entries still allocated after the cache itself is freed.\<close>

definition cache_destroy :: "cache_t option \<Rightarrow> cache_entry_t heap option" where
  "cache_destroy cache = do {
     c \<leftarrow> cache_clear cache;
     Some (case c of None \<Rightarrow> Map.empty | Some c \<Rightarrow> ch_heap c)
   }"

definition cache_get_stats ::
  "cache_t option \<Rightarrow> cache_stats_t option \<Rightarrow> error_code_t \<times> cache_stats_t option" where
  "cache_get_stats cache stats =
     (case (cache, stats) of
        (Some c, Some _) \<Rightarrow>
          (SUCCESS, Some \<lparr>cs_size = ch_size c, cs_max_size = ch_max_size c, cs_hits = ch_hits c,
             cs_misses = ch_misses c, cs_evictions = ch_evictions c\<rparr>)
      | _ \<Rightarrow> (ERROR_INVALID_PARAM, stats))"

text \<open>The loops are executable through their unfolding equations.\<close>

declare find_entry_loop.simps [code] hash_unlink_loop.simps [code] find_victim_loop.simps [code]
  evict_if_needed.simps [code] cache_clear_loop.simps [code]

end
