(* ===== verification/Cache_Heap.thy ===== *)
theory Cache_Heap
  imports Cache
begin

text \<open>
  The two intrusive structures of the cache as pointer structures: \<open>dll\<close> relates the
  \<open>prev\<close>/\<open>next\<close> fields, \<open>head\<close> and \<open>tail\<close> to the list of addresses they link, \<open>buckets\<close>
  relates \<open>hash_table\<close> and \<open>hash_next\<close> to one list of addresses per bucket. A heap is seen
  through four views (the three pointer fields and the data); each pointer operation of
  \<^verbatim>\<open>src/cache/cache.c\<close> is shown to change one view as the list operation it stands for and
  to leave the others alone.
\<close>

section \<open>Views of the heap\<close>

record centry =
  en_key :: cstr
  en_value :: bytes
  en_size :: u64
  en_timestamp :: u64
  en_ttl :: u64
  en_count :: u64

definition abs_entry :: "cache_entry_t \<Rightarrow> centry" where
  "abs_entry e = \<lparr>en_key = ce_key e, en_value = ce_value e, en_size = ce_value_size e,
     en_timestamp = ce_timestamp e, en_ttl = ce_ttl_ms e, en_count = ce_access_count e\<rparr>"

lemma abs_entry_sel [simp]:
  "en_key (abs_entry e) = ce_key e" "en_value (abs_entry e) = ce_value e"
  "en_size (abs_entry e) = ce_value_size e" "en_timestamp (abs_entry e) = ce_timestamp e"
  "en_ttl (abs_entry e) = ce_ttl_ms e" "en_count (abs_entry e) = ce_access_count e"
  by (simp_all add: abs_entry_def)

definition data_of :: "cache_entry_t heap \<Rightarrow> addr \<rightharpoonup> centry" where
  "data_of h a = map_option abs_entry (h a)"

lemma data_of_Some: "h a = Some e \<Longrightarrow> data_of h a = Some (abs_entry e)"
  by (simp add: data_of_def)

lemma dom_data_of [simp]: "dom (data_of h) = dom h"
  by (auto simp: data_of_def)

lemma data_of_upd [heap_simps]: "data_of (h(a \<mapsto> e)) = (data_of h)(a \<mapsto> abs_entry e)"
  by (rule ext) (simp add: data_of_def)

text \<open>A write to one pointer field changes one of the four views of the heap and no other.\<close>

lemma upd_next_views:
  assumes "h a = Some e"
  shows "fld ce_next (h(a \<mapsto> e\<lparr>ce_next := x\<rparr>)) = (fld ce_next h)(a := x)"
    and "fld ce_prev (h(a \<mapsto> e\<lparr>ce_next := x\<rparr>)) = fld ce_prev h"
    and "fld ce_hash_next (h(a \<mapsto> e\<lparr>ce_next := x\<rparr>)) = fld ce_hash_next h"
    and "data_of (h(a \<mapsto> e\<lparr>ce_next := x\<rparr>)) = data_of h"
  using assms by (auto simp: fld_def data_of_def abs_entry_def fun_eq_iff)

lemma upd_prev_views:
  assumes "h a = Some e"
  shows "fld ce_next (h(a \<mapsto> e\<lparr>ce_prev := x\<rparr>)) = fld ce_next h"
    and "fld ce_prev (h(a \<mapsto> e\<lparr>ce_prev := x\<rparr>)) = (fld ce_prev h)(a := x)"
    and "fld ce_hash_next (h(a \<mapsto> e\<lparr>ce_prev := x\<rparr>)) = fld ce_hash_next h"
    and "data_of (h(a \<mapsto> e\<lparr>ce_prev := x\<rparr>)) = data_of h"
  using assms by (auto simp: fld_def data_of_def abs_entry_def fun_eq_iff)

lemma upd_hash_views:
  assumes "h a = Some e"
  shows "fld ce_next (h(a \<mapsto> e\<lparr>ce_hash_next := x\<rparr>)) = fld ce_next h"
    and "fld ce_prev (h(a \<mapsto> e\<lparr>ce_hash_next := x\<rparr>)) = fld ce_prev h"
    and "fld ce_hash_next (h(a \<mapsto> e\<lparr>ce_hash_next := x\<rparr>)) = (fld ce_hash_next h)(a := x)"
    and "data_of (h(a \<mapsto> e\<lparr>ce_hash_next := x\<rparr>)) = data_of h"
  using assms by (auto simp: fld_def data_of_def abs_entry_def fun_eq_iff)

lemmas upd_views = upd_next_views upd_prev_views upd_hash_views

lemma data_of_eq_dom: "data_of h' = data_of h \<Longrightarrow> dom h' = dom h"
  by (metis dom_data_of)

section \<open>The recency list\<close>

definition dll :: "cache_entry_t heap \<Rightarrow> addr option \<Rightarrow> addr option \<Rightarrow> addr list \<Rightarrow> bool" where
  "dll h hp tp as \<longleftrightarrow> chain (fld ce_next h) hp as \<and> chain (fld ce_prev h) tp (rev as)
     \<and> distinct as \<and> set as \<subseteq> dom h"

lemma dll_empty [simp]: "dll h hp tp [] \<longleftrightarrow> hp = None \<and> tp = None"
  by (auto simp: dll_def)

lemma dll_views:
  "fld ce_next h' = fld ce_next h \<Longrightarrow> fld ce_prev h' = fld ce_prev h \<Longrightarrow> dom h' = dom h \<Longrightarrow>
     dll h' hp tp as = dll h hp tp as"
  by (simp add: dll_def)

lemma dll_tail: "dll h hp tp as \<Longrightarrow> tp = (if as = [] then None else Some (last as))"
  by (auto simp: dll_def dest!: chain_head split: list.splits)

lemma dll_head: "dll h hp tp as \<Longrightarrow> hp = (case as of [] \<Rightarrow> None | a # _ \<Rightarrow> Some a)"
  by (auto simp: dll_def dest: chain_head)

text \<open>Redirecting the predecessor of \<open>a\<close> in a chain, for any of the pointer fields.\<close>

lemma chain_redirect:
  assumes "chain n p (xs @ a # ys)" and "distinct (xs @ a # ys)"
  shows "chain (if xs = [] then n else n(last xs := n a)) (if xs = [] then n a else p) (xs @ ys)"
  using assms chain_unlink_inner [of n p xs a ys] by (cases "xs = []") auto

lemma remove_from_list_dll:
  assumes dll: "dll (ch_heap c) (ch_head c) (ch_tail c) (xs @ a # ys)"
  shows "\<exists>h hp tp. remove_from_list c a = Some (c\<lparr>ch_heap := h, ch_head := hp, ch_tail := tp\<rparr>)
     \<and> dll h hp tp (xs @ ys) \<and> fld ce_hash_next h = fld ce_hash_next (ch_heap c)
     \<and> data_of h = data_of (ch_heap c)"
proof -
  let ?h = "ch_heap c"
  from dll have F: "chain (fld ce_next ?h) (ch_head c) (xs @ a # ys)"
    and B: "chain (fld ce_prev ?h) (ch_tail c) (rev ys @ a # rev xs)"
    and D: "distinct (xs @ a # ys)" and S: "set (xs @ a # ys) \<subseteq> dom ?h"
    by (simp_all add: dll_def)
  from S obtain e where e: "?h a = Some e" by auto
  have ne: "ce_next e = (case ys of [] \<Rightarrow> None | b # _ \<Rightarrow> Some b)"
    using chain_next_of [OF F] e by (simp add: fld_def)
  have pe: "ce_prev e = (case rev xs of [] \<Rightarrow> None | b # _ \<Rightarrow> Some b)"
    using chain_next_of [OF B] e by (simp add: fld_def)
  define h1 where "h1 = (if xs = [] then ?h
     else ?h(last xs \<mapsto> (the (?h (last xs)))\<lparr>ce_next := ce_next e\<rparr>))"
  define h2 where "h2 = (if ys = [] then h1
     else h1(hd ys \<mapsto> (the (h1 (hd ys)))\<lparr>ce_prev := ce_prev e\<rparr>))"
  define hd' where "hd' = (if xs = [] then ce_next e else ch_head c)"
  define tl' where "tl' = (if ys = [] then ce_prev e else ch_tail c)"
  have l: "xs \<noteq> [] \<Longrightarrow> \<exists>le. ?h (last xs) = Some le" using S last_in_set by fastforce
  have v1: "fld ce_prev h1 = fld ce_prev ?h" "fld ce_hash_next h1 = fld ce_hash_next ?h"
      "data_of h1 = data_of ?h"
      "fld ce_next h1 = (if xs = [] then fld ce_next ?h else (fld ce_next ?h)(last xs := ce_next e))"
    using l by (auto simp: h1_def upd_next_views)
  have al: "xs \<noteq> [] \<Longrightarrow> a \<noteq> last xs" using D last_in_set [of xs] by auto
  then have h1a: "h1 a = Some e" using e by (simp add: h1_def)
  have y: "ys \<noteq> [] \<Longrightarrow> \<exists>ye. h1 (hd ys) = Some ye"
    using S data_of_eq_dom [OF v1(3)] by (cases ys) auto
  have v2: "fld ce_next h2 = fld ce_next h1" "fld ce_hash_next h2 = fld ce_hash_next h1"
      "data_of h2 = data_of h1"
      "fld ce_prev h2 = (if ys = [] then fld ce_prev h1 else (fld ce_prev h1)(hd ys := ce_prev e))"
    using y by (auto simp: h2_def upd_prev_views)
  have ce: "fld ce_next ?h a = ce_next e" "fld ce_prev ?h a = ce_prev e" using e by (simp_all add: fld_def)
  have F': "chain (fld ce_next h2) hd' (xs @ ys)"
    using chain_redirect [OF F D] ce by (simp add: v1 v2 hd'_def split: if_splits)
  have D': "distinct (rev ys @ a # rev xs)" using D by auto
  have B': "chain (fld ce_prev h2) tl' (rev ys @ rev xs)"
    using chain_redirect [OF B D'] ce by (simp add: v1 v2 tl'_def last_rev split: if_splits)
  have "remove_from_list c a = Some (c\<lparr>ch_heap := h2, ch_head := hd', ch_tail := tl'\<rparr>)"
  proof (cases xs rule: rev_cases)
    case Nil
    then show ?thesis using e ne pe y h1a
      by (cases ys) (auto simp: remove_from_list_def h2_def h1_def hd'_def tl'_def)
  next
    case (snoc zs p)
    with l obtain pe' where "?h p = Some pe'" by auto
    with snoc show ?thesis using e ne pe y h1a al
      by (cases ys) (auto simp: remove_from_list_def h2_def h1_def hd'_def tl'_def)
  qed
  moreover have "dll h2 hd' tl' (xs @ ys)"
    using F' B' D S data_of_eq_dom [OF v1(3)] data_of_eq_dom [OF v2(3)]
    by (auto simp: dll_def)
  ultimately show ?thesis using v1 v2 by auto
qed

lemma add_to_head_dll:
  assumes dll: "dll (ch_heap c) (ch_head c) (ch_tail c) as" and e: "ch_heap c a = Some e"
    and a: "a \<notin> set as"
  shows "\<exists>h tp. add_to_head c a = Some (c\<lparr>ch_heap := h, ch_head := Some a, ch_tail := tp\<rparr>)
     \<and> dll h (Some a) tp (a # as) \<and> fld ce_hash_next h = fld ce_hash_next (ch_heap c)
     \<and> data_of h = data_of (ch_heap c)"
proof -
  let ?h = "ch_heap c"
  from dll have F: "chain (fld ce_next ?h) (ch_head c) as"
    and B: "chain (fld ce_prev ?h) (ch_tail c) (rev as)" and D: "distinct as"
    and S: "set as \<subseteq> dom ?h"
    by (simp_all add: dll_def)
  define h1 where "h1 = ?h(a \<mapsto> e\<lparr>ce_prev := None, ce_next := ch_head c\<rparr>)"
  have v1: "fld ce_next h1 = (fld ce_next ?h)(a := ch_head c)"
      "fld ce_prev h1 = (fld ce_prev ?h)(a := None)"
      "fld ce_hash_next h1 = fld ce_hash_next ?h" "data_of h1 = data_of ?h"
    using e by (auto simp: h1_def fld_def data_of_def abs_entry_def fun_eq_iff)
  have F1: "chain (fld ce_next h1) (Some a) (a # as)"
    unfolding v1(1) using F a by (rule chain_prepend)
  have B1: "chain (fld ce_prev h1) (ch_tail c) (rev as)"
    using B a by (simp add: v1)
  show ?thesis
  proof (cases as)
    case Nil
    with dll have "ch_head c = None" "ch_tail c = None" by simp_all
    with e have "add_to_head c a = Some (c\<lparr>ch_heap := h1, ch_head := Some a, ch_tail := Some a\<rparr>)"
      by (simp add: add_to_head_def h1_def)
    moreover have "dll h1 (Some a) (Some a) (a # as)"
      using Nil F1 e by (auto simp: dll_def h1_def fld_def)
    ultimately show ?thesis using v1 by blast
  next
    case (Cons p ps)
    with dll have hp: "ch_head c = Some p" and tp: "ch_tail c \<noteq> None"
      by (auto dest: dll_head dll_tail)
    from Cons S a obtain pe where pe: "h1 p = Some pe" by (auto simp: h1_def)
    define h2 where "h2 = h1(p \<mapsto> pe\<lparr>ce_prev := Some a\<rparr>)"
    have v2: "fld ce_next h2 = fld ce_next h1" "fld ce_prev h2 = (fld ce_prev h1)(p := Some a)"
        "fld ce_hash_next h2 = fld ce_hash_next h1" "data_of h2 = data_of h1"
      using upd_prev_views [of h1 p, OF pe] by (simp_all add: h2_def)
    have "last (rev as) = p" using Cons by simp
    moreover have "fld ce_prev h1 a = None" by (simp add: v1)
    ultimately have "chain ((fld ce_prev h1)(p := Some a)) (ch_tail c) (rev as @ [a])"
      using chain_append_node [OF B1, of a] D a Cons by simp
    then have "dll h2 (Some a) (ch_tail c) (a # as)"
      using F1 D a S e data_of_eq_dom [OF v1(4)] data_of_eq_dom [OF v2(4)]
      by (auto simp: dll_def v2)
    moreover have "add_to_head c a = Some (c\<lparr>ch_heap := h2, ch_head := Some a, ch_tail := ch_tail c\<rparr>)"
      using e hp tp pe by (auto simp: add_to_head_def h2_def h1_def)
    ultimately show ?thesis using v1(3,4) v2(3,4) by metis
  qed
qed

lemma move_to_head_dll:
  assumes dll: "dll (ch_heap c) (ch_head c) (ch_tail c) (xs @ a # ys)"
  shows "\<exists>h hp tp. move_to_head c a = Some (c\<lparr>ch_heap := h, ch_head := hp, ch_tail := tp\<rparr>)
     \<and> dll h hp tp (a # xs @ ys) \<and> fld ce_hash_next h = fld ce_hash_next (ch_heap c)
     \<and> data_of h = data_of (ch_heap c)"
proof (cases xs)
  case Nil
  with dll have "ch_head c = Some a" by (auto dest: dll_head)
  then have "move_to_head c a = Some (c\<lparr>ch_heap := ch_heap c, ch_head := ch_head c, ch_tail := ch_tail c\<rparr>)"
    by (simp add: move_to_head_def)
  with dll Nil show ?thesis by (metis append_Nil)
next
  case (Cons x zs)
  from dll have D: "distinct (xs @ a # ys)" and S: "a \<in> dom (ch_heap c)" by (auto simp: dll_def)
  with Cons dll have "ch_head c \<noteq> Some a" by (auto dest!: dll_head)
  then have m: "move_to_head c a = do { c \<leftarrow> remove_from_list c a; add_to_head c a }"
    by (simp add: move_to_head_def)
  from remove_from_list_dll [OF dll] obtain h hp tp
    where r: "remove_from_list c a = Some (c\<lparr>ch_heap := h, ch_head := hp, ch_tail := tp\<rparr>)"
      and d: "dll h hp tp (xs @ ys)" and v: "fld ce_hash_next h = fld ce_hash_next (ch_heap c)"
        "data_of h = data_of (ch_heap c)"
    by blast
  let ?c = "c\<lparr>ch_heap := h, ch_head := hp, ch_tail := tp\<rparr>"
  from S data_of_eq_dom [OF v(2)] obtain e where "ch_heap ?c a = Some e" by auto
  moreover from D have "a \<notin> set (xs @ ys)" by simp
  ultimately obtain h' tp' where
    "add_to_head ?c a = Some (?c\<lparr>ch_heap := h', ch_head := Some a, ch_tail := tp'\<rparr>)"
    "dll h' (Some a) tp' (a # xs @ ys)" "fld ce_hash_next h' = fld ce_hash_next h" "data_of h' = data_of h"
    using add_to_head_dll [of ?c "xs @ ys" a e] d by auto
  with m r v show ?thesis by auto
qed

section \<open>The hash chains\<close>

definition buckets :: "cache_entry_t heap \<Rightarrow> addr option list \<Rightarrow> addr list list \<Rightarrow> bool" where
  "buckets h tab cs \<longleftrightarrow> length cs = length tab
     \<and> (\<forall>i < length tab. chain (fld ce_hash_next h) (tab ! i) (cs ! i))
     \<and> distinct (concat cs) \<and> set (concat cs) \<subseteq> dom h"

lemma buckets_nth_dom: "buckets h tab cs \<Longrightarrow> i < length tab \<Longrightarrow> set (cs ! i) \<subseteq> dom h"
  unfolding buckets_def by (metis UN_upper nth_mem order_trans set_concat)

lemma buckets_views:
  "fld ce_hash_next h' = fld ce_hash_next h \<Longrightarrow> dom h' = dom h \<Longrightarrow>
     buckets h' tab cs = buckets h tab cs"
  by (simp add: buckets_def)

lemma buckets_distinct_nth: "buckets h tab cs \<Longrightarrow> i < length tab \<Longrightarrow> distinct (cs ! i)"
  by (metis buckets_def concat_nth_split distinct_append)

lemma find_entry_loop_chain:
  "chain (fld ce_hash_next h) p as \<Longrightarrow> set as \<subseteq> dom h \<Longrightarrow>
     find_entry_loop p h key now =
       Some (case find (\<lambda>a. ce_key (the (h a)) = key) as of
               None \<Rightarrow> None
             | Some a \<Rightarrow> if entry_expired now (the (h a)) then None else Some a)"
proof (induction as arbitrary: p)
  case Nil
  then show ?case by (simp add: find_entry_loop.simps)
next
  case (Cons a as)
  then obtain e where "h a = Some e" by auto
  with Cons show ?case by (subst find_entry_loop.simps) (auto simp: fld_def)
qed

lemma hash_unlink_loop_chain:
  assumes "chain (fld ce_hash_next h) cur (xs @ a # ys)" and "set (xs @ a # ys) \<subseteq> dom h"
    and "a \<notin> set xs" and "b < length tab" and "\<And>p. prev = Some p \<Longrightarrow> p \<in> dom h"
  shows "hash_unlink_loop cur prev a b h tab =
     (case (if xs = [] then prev else Some (last xs)) of
        None \<Rightarrow> Some (h, tab[b := fld ce_hash_next h a])
      | Some p \<Rightarrow> Some (h(p \<mapsto> (the (h p))\<lparr>ce_hash_next := fld ce_hash_next h a\<rparr>), tab))"
  using assms
proof (induction xs arbitrary: cur prev)
  case Nil
  then obtain e where "h a = Some e" by auto
  with Nil show ?case
    by (subst hash_unlink_loop.simps) (auto simp: fld_def split: option.splits)
next
  case (Cons x xs)
  from Cons.prems obtain e where e: "h x = Some e" and cur: "cur = Some x" and "x \<noteq> a" by auto
  then have "hash_unlink_loop cur prev a b h tab =
      hash_unlink_loop (ce_hash_next e) (Some x) a b h tab"
    by (subst hash_unlink_loop.simps) simp
  also have "\<dots> = (case (if xs = [] then Some x else Some (last xs)) of
        None \<Rightarrow> Some (h, tab[b := fld ce_hash_next h a])
      | Some p \<Rightarrow> Some (h(p \<mapsto> (the (h p))\<lparr>ce_hash_next := fld ce_hash_next h a\<rparr>), tab))"
    using Cons.prems e by (intro Cons.IH) (auto simp: fld_def)
  finally show ?case by simp
qed

lemma hash_unlink_buckets:
  assumes b: "buckets h tab cs" and i: "i < length tab" and c: "cs ! i = xs @ a # ys"
  shows "\<exists>h' tab'. hash_unlink_loop (tab ! i) None a i h tab = Some (h', tab')
     \<and> buckets h' tab' (cs[i := xs @ ys]) \<and> length tab' = length tab
     \<and> fld ce_next h' = fld ce_next h \<and> fld ce_prev h' = fld ce_prev h \<and> data_of h' = data_of h"
proof -
  from b i c have C: "chain (fld ce_hash_next h) (tab ! i) (xs @ a # ys)"
    and D: "distinct (xs @ a # ys)" and S: "set (xs @ a # ys) \<subseteq> dom h" and l: "length cs = length tab"
    and dc: "distinct (concat cs)" and sc: "set (concat cs) \<subseteq> dom h"
    using buckets_distinct_nth [OF b i] buckets_nth_dom [OF b i] by (auto simp: buckets_def)
  let ?n = "fld ce_hash_next h"
  have other: "chain (?n(p := x)) (tab ! j) (cs ! j)" if "j < length tab" "j \<noteq> i" "p \<in> set xs" for j p x
  proof -
    have "set (cs ! j) \<inter> set (cs ! i) = {}" using distinct_concat_disjoint [OF dc] that i l by auto
    with that c have "p \<notin> set (cs ! j)" by auto
    with that b show ?thesis by (simp add: buckets_def)
  qed
  have new: "distinct (concat (cs[i := xs @ ys]))" "set (concat (cs[i := xs @ ys])) \<subseteq> dom h"
    using concat_remove_elem [OF dc, of i xs a ys] i l c sc by auto
  show ?thesis
  proof (cases "xs = []")
    case True
    have "hash_unlink_loop (tab ! i) None a i h tab = Some (h, tab[i := ?n a])"
      using hash_unlink_loop_chain [OF C S _ i, of None] D True by simp
    moreover have "chain ?n (?n a) ys" using C True by simp
    then have "buckets h (tab[i := ?n a]) (cs[i := xs @ ys])"
      using b i l new True by (auto simp: buckets_def nth_list_update)
    ultimately show ?thesis by fastforce
  next
    case False
    then have p: "last xs \<in> set xs" by simp
    with S obtain pe where pe: "h (last xs) = Some pe" by fastforce
    let ?h = "h(last xs \<mapsto> pe\<lparr>ce_hash_next := ?n a\<rparr>)"
    have "hash_unlink_loop (tab ! i) None a i h tab = Some (?h, tab)"
      using hash_unlink_loop_chain [OF C S _ i, of None] D False pe by simp
    moreover have "chain (?n(last xs := ?n a)) (tab ! i) (xs @ ys)"
      using chain_unlink_inner [OF C False D] .
    then have "buckets ?h tab (cs[i := xs @ ys])"
      using i l new other p S by (auto simp: buckets_def upd_hash_views [of h "last xs", OF pe] nth_list_update)
    ultimately show ?thesis using upd_hash_views [of h "last xs", OF pe] by blast
  qed
qed

section \<open>Freeing and allocating an entry\<close>

lemma chain_fld_free [simp]: "a \<notin> set as \<Longrightarrow> chain (fld f (h(a := None))) p as = chain (fld f h) p as"
  by (rule chain_cong) (auto simp: fld_def)

lemma chain_fld_alloc [simp]: "a \<notin> set as \<Longrightarrow> chain (fld f (h(a \<mapsto> e))) p as = chain (fld f h) p as"
  by (rule chain_cong) (auto simp: fld_def)

lemma dll_free: "dll h hp tp as \<Longrightarrow> a \<notin> set as \<Longrightarrow> dll (h(a := None)) hp tp as"
  by (auto simp: dll_def)

lemma dll_alloc: "dll h hp tp as \<Longrightarrow> a \<notin> set as \<Longrightarrow> dll (h(a \<mapsto> e)) hp tp as"
  by (auto simp: dll_def)

lemma nth_in_concat: "i < length cs \<Longrightarrow> x \<in> set (cs ! i) \<Longrightarrow> x \<in> set (concat cs)"
  by (metis UN_I nth_mem set_concat)

lemma buckets_free:
  assumes "buckets h tab cs" and "a \<notin> set (concat cs)"
  shows "buckets (h(a := None)) tab cs"
proof -
  have "a \<notin> set (cs ! i)" if "i < length cs" for i
    using that assms(2) nth_in_concat by fastforce
  with assms show ?thesis by (auto simp: buckets_def simp del: set_concat)
qed

text \<open>Linking a fresh entry in front of its bucket.\<close>

lemma buckets_insert:
  assumes b: "buckets h tab cs" and i: "i < length tab" and a: "a \<notin> set (concat cs)"
    and e: "ce_hash_next e = tab ! i"
  shows "buckets (h(a \<mapsto> e)) (tab[i := Some a]) (cs[i := a # cs ! i])"
proof -
  have l: "length cs = length tab" and dc: "distinct (concat cs)" and sc: "set (concat cs) \<subseteq> dom h"
    using b by (auto simp: buckets_def)
  have na: "a \<notin> set (cs ! j)" if "j < length tab" for j
    using that a l nth_in_concat [of j cs a] by auto
  have "chain (fld ce_hash_next (h(a \<mapsto> e))) (tab[i := Some a] ! j) (cs[i := a # cs ! i] ! j)"
    if j: "j < length tab" for j
  proof (cases "j = i")
    case True
    have "fld ce_hash_next (h(a \<mapsto> e)) a = tab ! i" using e by (simp add: fld_def)
    with True i l b na [OF i] show ?thesis by (simp add: buckets_def)
  next
    case False
    with j l b na [OF j] show ?thesis by (simp add: buckets_def)
  qed
  moreover have "distinct (concat (cs[i := a # cs ! i]))"
    "set (concat (cs[i := a # cs ! i])) = insert a (set (concat cs))"
    using concat_insert_elem [OF dc, of i a] i l a by auto
  ultimately show ?thesis using l sc by (auto simp: buckets_def simp del: set_concat)
qed

end
