(* ===== verification/Cache_Refine.thy ===== *)
theory Cache_Refine
  imports Cache_Heap
begin

text \<open>
  Correctness of the cache. The specification (\<open>acache\<close>) is a plain list of entries in
  recency order with the policy and the counters; \<open>cache_rel c ac\<close> says that the pointer
  structure \<open>c\<close> represents it: the doubly linked list and the hash chains are well formed,
  hold the same entries, and agree on the order of entries with equal keys (an expired
  entry stays in place when its key is put again, so a key may occur more than once). Every
  operation of \<^verbatim>\<open>src/cache/cache.c\<close> is shown to run without undefined behaviour on a
  represented state, to terminate, to keep the representation and to act on the list as the
  specification says.
\<close>

section \<open>Specification\<close>

record acache =
  ac_entries :: "centry list"
  ac_max :: u64
  ac_policy :: eviction_policy_t
  ac_hits :: u64
  ac_misses :: u64
  ac_evictions :: u64

abbreviation has_key :: "cstr \<Rightarrow> centry \<Rightarrow> bool" where
  "has_key k e \<equiv> en_key e = k"

definition a_expired :: "u64 \<Rightarrow> centry \<Rightarrow> bool" where
  "a_expired now e \<longleftrightarrow> en_ttl e > 0 \<and> now - en_timestamp e > en_ttl e"

definition a_find :: "centry list \<Rightarrow> cstr \<Rightarrow> u64 \<Rightarrow> centry option" where
  "a_find l k now =
     (case find (has_key k) l of
        None \<Rightarrow> None
      | Some e \<Rightarrow> if a_expired now e then None else Some e)"

definition a_touch :: "eviction_policy_t \<Rightarrow> cstr \<Rightarrow> (centry \<Rightarrow> centry) \<Rightarrow> centry list \<Rightarrow> centry list" where
  "a_touch policy k f l =
     (case policy of
        EVICTION_LFU \<Rightarrow> update_first (has_key k) f l
      | EVICTION_LRU \<Rightarrow>
          (case find (has_key k) l of
             None \<Rightarrow> l
           | Some e \<Rightarrow> f e # remove_first (has_key k) l))"

definition a_evict :: "eviction_policy_t \<Rightarrow> centry list \<Rightarrow> centry list" where
  "a_evict policy l =
     (case policy of
        EVICTION_LRU \<Rightarrow> butlast l
      | EVICTION_LFU \<Rightarrow> remove_first (\<lambda>e. en_count e = Min (en_count ` set l)) l)"

definition a_make_room :: "acache \<Rightarrow> acache" where
  "a_make_room ac =
     (if length (ac_entries ac) < unat (ac_max ac) then ac
      else ac\<lparr>ac_entries := a_evict (ac_policy ac) (ac_entries ac),
              ac_evictions := ac_evictions ac + 1\<rparr>)"

definition a_put :: "acache \<Rightarrow> cstr \<Rightarrow> bytes \<Rightarrow> u64 \<Rightarrow> u64 \<Rightarrow> u64 \<Rightarrow> u64 \<Rightarrow> acache" where
  "a_put ac k v sz ttl now_find now =
     (if a_find (ac_entries ac) k now_find \<noteq> None
      then ac\<lparr>ac_entries := a_touch (ac_policy ac) k
             (\<lambda>e. e\<lparr>en_value := v, en_size := sz, en_timestamp := now, en_ttl := ttl\<rparr>)
             (ac_entries ac)\<rparr>
      else (let ac = a_make_room ac in
            ac\<lparr>ac_entries := \<lparr>en_key = k, en_value = v, en_size = sz, en_timestamp = now,
                  en_ttl = ttl, en_count = 0\<rparr> # ac_entries ac\<rparr>))"

definition a_get :: "acache \<Rightarrow> cstr \<Rightarrow> u64 \<Rightarrow> centry option \<times> acache" where
  "a_get ac k now =
     (case a_find (ac_entries ac) k now of
        None \<Rightarrow> (None, ac\<lparr>ac_misses := ac_misses ac + 1\<rparr>)
      | Some e \<Rightarrow> (Some e, ac\<lparr>ac_hits := ac_hits ac + 1,
            ac_entries := a_touch (ac_policy ac) k (\<lambda>e. e\<lparr>en_count := en_count e + 1\<rparr>)
              (ac_entries ac)\<rparr>))"

definition a_delete :: "acache \<Rightarrow> cstr \<Rightarrow> u64 \<Rightarrow> bool \<times> acache" where
  "a_delete ac k now =
     (case a_find (ac_entries ac) k now of
        None \<Rightarrow> (False, ac)
      | Some e \<Rightarrow> (True, ac\<lparr>ac_entries := remove_first (has_key k) (ac_entries ac)\<rparr>))"

section \<open>Representation\<close>

definition data_at :: "cache_entry_t heap \<Rightarrow> addr \<Rightarrow> centry" where
  "data_at h a = the (data_of h a)"

definition bucket_ix :: "cache_t \<Rightarrow> cstr \<Rightarrow> nat" where
  "bucket_ix c k = unat ((ucast (hash_key k) :: u64) mod hash_size c)"

abbreviation key_here :: "cache_entry_t heap \<Rightarrow> cstr \<Rightarrow> addr \<Rightarrow> bool" where
  "key_here h k a \<equiv> has_key k (data_at h a)"

definition entry_ok :: "centry \<Rightarrow> bool" where
  "entry_ok e \<longleftrightarrow> unat (en_size e) = length (en_value e)"

definition cache_shape :: "cache_t \<Rightarrow> addr list \<Rightarrow> addr list list \<Rightarrow> bool" where
  "cache_shape c as cs \<longleftrightarrow>
     dll (ch_heap c) (ch_head c) (ch_tail c) as
   \<and> buckets (ch_heap c) (hash_table c) cs
   \<and> dom (ch_heap c) = set as \<and> set (concat cs) = set as
   \<and> 0 < hash_size c \<and> length (hash_table c) = unat (hash_size c)
   \<and> (\<forall>k. filter (key_here (ch_heap c) k) as = filter (key_here (ch_heap c) k) (cs ! bucket_ix c k))
   \<and> (\<forall>a \<in> set as. entry_ok (data_at (ch_heap c) a))
   \<and> ch_size c = of_nat (length as)"

definition abs_cache :: "cache_t \<Rightarrow> addr list \<Rightarrow> acache" where
  "abs_cache c as =
     \<lparr>ac_entries = map (data_at (ch_heap c)) as, ac_max = ch_max_size c, ac_policy = ch_policy c,
      ac_hits = ch_hits c, ac_misses = ch_misses c, ac_evictions = ch_evictions c\<rparr>"

definition cache_rel :: "cache_t \<Rightarrow> acache \<Rightarrow> bool" where
  "cache_rel c ac \<longleftrightarrow> (\<exists>as cs. cache_shape c as cs \<and> ac = abs_cache c as)
     \<and> 0 < ac_max ac \<and> length (ac_entries ac) \<le> unat (ac_max ac)"

lemma data_at_Some: "h a = Some e \<Longrightarrow> data_at h a = abs_entry e"
  by (simp add: data_at_def data_of_def)

lemma data_at_views: "data_of h' = data_of h \<Longrightarrow> data_at h' = data_at h"
  by (simp add: data_at_def fun_eq_iff)

lemma bucket_ix_less: "0 < hash_size c \<Longrightarrow> bucket_ix c k < unat (hash_size c)"
  unfolding bucket_ix_def by (simp add: unat_mono word_mod_less_divisor)

lemma cache_bucket_ix: "0 < hash_size c \<Longrightarrow> cache_bucket c k = Some (bucket_ix c k)"
  by (auto simp: cache_bucket_def bucket_ix_def)

lemma expired_data: "h a = Some e \<Longrightarrow> entry_expired now e = a_expired now (data_at h a)"
  by (simp add: entry_expired_def a_expired_def data_at_Some)

lemma shape_bucket: "cache_shape c as cs \<Longrightarrow> bucket_ix c k < length (hash_table c)"
  by (simp add: cache_shape_def bucket_ix_less)

lemma shape_dom: "cache_shape c as cs \<Longrightarrow> a \<in> set as \<Longrightarrow> \<exists>e. ch_heap c a = Some e"
  by (metis cache_shape_def domD)

text \<open>Pointer operations that change neither data nor hash chains only change the list.\<close>

lemma shape_relist:
  assumes shape: "cache_shape c as cs" and dll: "dll h hp tp as'"
    and v: "fld ce_hash_next h = fld ce_hash_next (ch_heap c)" "data_of h = data_of (ch_heap c)"
    and "set as' = set as" and "length as' = length as"
    and "\<And>k. filter (key_here (ch_heap c) k) as' = filter (key_here (ch_heap c) k) as"
  shows "cache_shape (c\<lparr>ch_heap := h, ch_head := hp, ch_tail := tp\<rparr>) as' cs"
  using assms data_of_eq_dom [OF v(2)]
  by (simp add: cache_shape_def bucket_ix_def data_at_views [OF v(2)] buckets_views [OF v(1)])

lemma find_entry_shape:
  assumes shape: "cache_shape c as cs"
  shows "(find_entry c k now = Some None \<and> a_find (map (data_at (ch_heap c)) as) k now = None)
    \<or> (\<exists>a xs ys. find_entry c k now = Some (Some a) \<and> as = xs @ a # ys
         \<and> key_here (ch_heap c) k a \<and> (\<forall>x \<in> set xs. \<not> key_here (ch_heap c) k x)
         \<and> a_find (map (data_at (ch_heap c)) as) k now = Some (data_at (ch_heap c) a))"
proof -
  let ?h = "ch_heap c" and ?b = "bucket_ix c k"
  have b: "?b < length (hash_table c)" using shape by (rule shape_bucket)
  have bs: "buckets ?h (hash_table c) cs" and hs: "0 < hash_size c"
    and agree: "filter (key_here ?h k) as = filter (key_here ?h k) (cs ! ?b)"
    using shape by (auto simp: cache_shape_def)
  have C: "chain (fld ce_hash_next ?h) (hash_table c ! ?b) (cs ! ?b)" and S: "set (cs ! ?b) \<subseteq> dom ?h"
    using bs b buckets_nth_dom [OF bs b] by (auto simp: buckets_def)
  have key: "find (\<lambda>a. ce_key (the (?h a)) = k) (cs ! ?b) = find (key_here ?h k) as"
  proof -
    have "find (\<lambda>a. ce_key (the (?h a)) = k) (cs ! ?b) = find (key_here ?h k) (cs ! ?b)"
      using S by (intro find_cong) (auto simp: data_at_Some)
    then show ?thesis by (simp add: find_filter agree)
  qed
  have ex: "entry_expired now (the (?h a)) = a_expired now (data_at ?h a)" if "a \<in> set as" for a
  proof -
    from shape_dom [OF shape that] obtain e where "?h a = Some e" ..
    then show ?thesis using expired_data [of ?h a e now] by simp
  qed
  have "find_entry c k now = Some (case find (key_here ?h k) as of None \<Rightarrow> None
      | Some a \<Rightarrow> if entry_expired now (the (?h a)) then None else Some a)"
    using b hs find_entry_loop_chain [OF C S, of k now]
    by (simp add: find_entry_def cache_bucket_ix key)
  moreover have "a_find (map (data_at ?h) as) k now = (case find (key_here ?h k) as of None \<Rightarrow> None
      | Some a \<Rightarrow> if a_expired now (data_at ?h a) then None else Some (data_at ?h a))"
    by (auto simp: a_find_def find_map_prop split: option.splits)
  ultimately show ?thesis
  proof (cases "find (key_here ?h k) as")
    case (Some a)
    then obtain xs ys where "as = xs @ a # ys" "key_here ?h k a" "\<forall>x \<in> set xs. \<not> key_here ?h k x"
      using find_split [OF Some] by blast
    moreover from this have "entry_expired now (the (?h a)) = a_expired now (data_at ?h a)"
      by (intro ex) simp
    ultimately show ?thesis
      using Some \<open>find_entry c k now = _\<close> \<open>a_find _ k now = _\<close>
      by (cases "a_expired now (data_at ?h a)") auto
  qed simp
qed

lemma move_shape:
  assumes shape: "cache_shape c (xs @ a # ys) cs"
    and first: "\<forall>x \<in> set xs. \<not> key_here (ch_heap c) (en_key (data_at (ch_heap c) a)) x"
  shows "\<exists>h hp tp. move_to_head c a = Some (c\<lparr>ch_heap := h, ch_head := hp, ch_tail := tp\<rparr>)
     \<and> cache_shape (c\<lparr>ch_heap := h, ch_head := hp, ch_tail := tp\<rparr>) (a # xs @ ys) cs
     \<and> data_of h = data_of (ch_heap c)"
proof -
  have "dll (ch_heap c) (ch_head c) (ch_tail c) (xs @ a # ys)"
    using shape by (simp add: cache_shape_def)
  from move_to_head_dll [OF this] obtain h hp tp where
    m: "move_to_head c a = Some (c\<lparr>ch_heap := h, ch_head := hp, ch_tail := tp\<rparr>)"
    and d: "dll h hp tp (a # xs @ ys)" and v: "fld ce_hash_next h = fld ce_hash_next (ch_heap c)"
      "data_of h = data_of (ch_heap c)"
    by blast
  have "filter (key_here (ch_heap c) k) (a # xs @ ys) = filter (key_here (ch_heap c) k) (xs @ a # ys)" for k
    using first by (auto simp: filter_empty_conv)
  then have "cache_shape (c\<lparr>ch_heap := h, ch_head := hp, ch_tail := tp\<rparr>) (a # xs @ ys) cs"
    by (intro shape_relist [OF shape d v]) auto
  with m v show ?thesis by blast
qed

definition same_links :: "cache_entry_t \<Rightarrow> cache_entry_t \<Rightarrow> bool" where
  "same_links e e' \<longleftrightarrow> ce_prev e' = ce_prev e \<and> ce_next e' = ce_next e
     \<and> ce_hash_next e' = ce_hash_next e \<and> ce_key e' = ce_key e"

lemma data_upd_shape:
  assumes shape: "cache_shape c as cs" and e: "ch_heap c a = Some e" and l: "same_links e e'"
    and ok: "entry_ok (abs_entry e')"
  shows "cache_shape (c\<lparr>ch_heap := (ch_heap c)(a \<mapsto> e')\<rparr>) as cs"
    and "data_at ((ch_heap c)(a \<mapsto> e')) = (data_at (ch_heap c))(a := abs_entry e')"
proof -
  let ?h = "ch_heap c"
  have v: "fld ce_next (?h(a \<mapsto> e')) = fld ce_next ?h" "fld ce_prev (?h(a \<mapsto> e')) = fld ce_prev ?h"
      "fld ce_hash_next (?h(a \<mapsto> e')) = fld ce_hash_next ?h" "dom (?h(a \<mapsto> e')) = dom ?h"
    using e l by (auto simp: same_links_def intro!: fld_upd_same)
  show d: "data_at (?h(a \<mapsto> e')) = (data_at ?h)(a := abs_entry e')"
    by (rule ext) (simp add: data_at_def data_of_def)
  have k: "en_key (data_at (?h(a \<mapsto> e')) x) = en_key (data_at ?h x)" for x
    using e l by (simp add: d same_links_def data_at_Some)
  have "\<forall>x \<in> set as. entry_ok (data_at (?h(a \<mapsto> e')) x)"
    using shape ok by (simp add: d cache_shape_def)
  then
  show "cache_shape (c\<lparr>ch_heap := ?h(a \<mapsto> e')\<rparr>) as cs"
    using shape v
    by (simp add: cache_shape_def bucket_ix_def k dll_views [OF v(1,2,4)] buckets_views [OF v(3,4)]
        del: dom_fun_upd)
qed

lemma abs_cache_update_entry:
  assumes "distinct (xs @ a # ys)" and "d = (data_at h)(a := x)"
  shows "map d (xs @ a # ys) = map (data_at h) xs @ x # map (data_at h) ys"
  using assms by auto

text \<open>Rewriting an entry found for a key, then moving it to the front under LRU.\<close>

lemma touch_shape:
  assumes shape: "cache_shape c (xs @ a # ys) cs" and e: "ch_heap c a = Some e"
    and key: "key_here (ch_heap c) k a" and first: "\<forall>x \<in> set xs. \<not> key_here (ch_heap c) k x"
    and l: "same_links e e'" and ok: "entry_ok (abs_entry e')"
    and f: "abs_entry e' = f (abs_entry e)" and c1: "c1 = c\<lparr>ch_heap := (ch_heap c)(a \<mapsto> e')\<rparr>"
  shows "\<exists>c' as' ep. (if ch_policy c1 = EVICTION_LRU then move_to_head c1 a else Some c1) = Some c'
     \<and> cache_shape c' as' cs \<and> ch_heap c' a = Some ep \<and> abs_entry ep = f (abs_entry e)
     \<and> abs_cache c' as' = (abs_cache c (xs @ a # ys))\<lparr>ac_entries :=
          a_touch (ch_policy c) k f (map (data_at (ch_heap c)) (xs @ a # ys))\<rparr>"
proof -
  let ?h = "ch_heap c"
  have shape1: "cache_shape c1 (xs @ a # ys) cs" and d1: "data_at (ch_heap c1) = (data_at ?h)(a := abs_entry e')"
    using data_upd_shape [OF shape e l ok] by (auto simp: c1)
  have dist: "distinct (xs @ a # ys)" using shape by (simp add: cache_shape_def dll_def)
  then have axs: "a \<notin> set xs" "a \<notin> set ys" by auto
  have de: "data_at ?h a = abs_entry e" using e by (rule data_at_Some)
  let ?l = "map (data_at ?h) (xs @ a # ys)"
  have f1: "\<forall>y \<in> set (map (data_at ?h) xs). \<not> has_key k y" using first by auto
  have k1: "has_key k (abs_entry e)" using key de by simp
  show ?thesis
  proof (cases "ch_policy c")
    case EVICTION_LRU
    have "\<forall>x \<in> set xs. \<not> key_here (ch_heap c1) (en_key (data_at (ch_heap c1) a)) x"
      using first axs l key de by (auto simp: d1 same_links_def)
    from move_shape [OF shape1 this] obtain h hp tp where
      m: "move_to_head c1 a = Some (c1\<lparr>ch_heap := h, ch_head := hp, ch_tail := tp\<rparr>)"
      and s2: "cache_shape (c1\<lparr>ch_heap := h, ch_head := hp, ch_tail := tp\<rparr>) (a # xs @ ys) cs"
      and v: "data_of h = data_of (ch_heap c1)"
      by blast
    have dh: "data_at h = (data_at ?h)(a := abs_entry e')" using data_at_views [OF v] d1 by simp
    have "a_touch (ch_policy c) k f ?l = map (data_at h) (a # xs @ ys)"
      using f1 k1 axs by (simp add: EVICTION_LRU a_touch_def de dh f)
    moreover obtain ep where "h a = Some ep"
      using shape_dom [OF s2, of a] by auto
    moreover from this have "abs_entry ep = f (abs_entry e)"
      using dh f by (metis data_at_Some fun_upd_same)
    ultimately show ?thesis
      using m s2 EVICTION_LRU by (auto simp: c1 abs_cache_def)
  next
    case EVICTION_LFU
    have "a_touch (ch_policy c) k f ?l = map (data_at (ch_heap c1)) (xs @ a # ys)"
      using f1 k1 axs by (simp add: EVICTION_LFU a_touch_def de d1 f)
    then show ?thesis
      using shape1 EVICTION_LFU f by (auto simp: c1 abs_cache_def)
  qed
qed

lemma filter_drop_elem:
  "distinct (xs @ a # ys) \<Longrightarrow> filter P (xs @ ys) = filter (\<lambda>x. x \<noteq> a) (filter P (xs @ a # ys))"
  by (simp, intro arg_cong2 [where f = "(@)"] filter_cong) auto

lemma filter_data_cong:
  "(\<And>x. x \<in> set l \<Longrightarrow> data_at h' x = data_at h x) \<Longrightarrow> filter (key_here h' k) l = filter (key_here h k) l"
  by (rule filter_cong) auto

lemma remove_entry_shape:
  assumes shape: "cache_shape c (xs @ a # ys) cs"
  shows "\<exists>h tab hp tp cs'.
       remove_entry c a = Some (c\<lparr>ch_heap := h, hash_table := tab, ch_head := hp, ch_tail := tp,
         ch_size := ch_size c - 1\<rparr>)
     \<and> cache_shape (c\<lparr>ch_heap := h, hash_table := tab, ch_head := hp, ch_tail := tp,
         ch_size := ch_size c - 1\<rparr>) (xs @ ys) cs'
     \<and> map (data_at h) (xs @ ys) = map (data_at (ch_heap c)) (xs @ ys)"
proof -
  let ?h = "ch_heap c"
  obtain e where e: "?h a = Some e" using shape_dom [OF shape, of a] by auto
  define b where "b = bucket_ix c (ce_key e)"
  have bs: "buckets ?h (hash_table c) cs" and d: "dll ?h (ch_head c) (ch_tail c) (xs @ a # ys)"
    and hs: "0 < hash_size c" and bl: "b < length (hash_table c)"
    and agree: "\<And>k. filter (key_here ?h k) (xs @ a # ys) = filter (key_here ?h k) (cs ! bucket_ix c k)"
    and ok: "\<forall>x \<in> set (xs @ a # ys). entry_ok (data_at ?h x)"
    and dm: "dom ?h = set (xs @ a # ys)" and sc: "set (concat cs) = set (xs @ a # ys)"
    and len: "length (hash_table c) = unat (hash_size c)" and sz: "ch_size c = of_nat (length (xs @ a # ys))"
    using shape shape_bucket [OF shape] by (simp_all add: cache_shape_def b_def)
  have dist: "distinct (xs @ a # ys)" using d by (simp add: dll_def)
  have da: "data_at ?h a = abs_entry e" using e by (rule data_at_Some)
  have "a \<in> set (filter (key_here ?h (ce_key e)) (xs @ a # ys))" using da by simp
  then have "a \<in> set (cs ! b)" unfolding agree b_def by simp
  then obtain us vs where cb: "cs ! b = us @ a # vs" by (meson split_list)
  from hash_unlink_buckets [OF bs bl cb] obtain h1 tab1 where
    u: "hash_unlink_loop (hash_table c ! b) None a b ?h (hash_table c) = Some (h1, tab1)"
    and b1: "buckets h1 tab1 (cs[b := us @ vs])" and l1: "length tab1 = length (hash_table c)"
    and v1: "fld ce_next h1 = fld ce_next ?h" "fld ce_prev h1 = fld ce_prev ?h" "data_of h1 = data_of ?h"
    by blast
  let ?c1 = "c\<lparr>ch_heap := h1, hash_table := tab1\<rparr>"
  have "dll (ch_heap ?c1) (ch_head ?c1) (ch_tail ?c1) (xs @ a # ys)"
    using d dll_views [OF v1(1,2) data_of_eq_dom [OF v1(3)]] by simp
  from remove_from_list_dll [OF this] obtain h2 hp tp where
    r: "remove_from_list ?c1 a = Some (?c1\<lparr>ch_heap := h2, ch_head := hp, ch_tail := tp\<rparr>)"
    and d2: "dll h2 hp tp (xs @ ys)" and v2: "fld ce_hash_next h2 = fld ce_hash_next h1"
      "data_of h2 = data_of h1"
    by auto
  let ?h3 = "h2(a := None)" and ?cs = "cs[b := us @ vs]"
  have lcs: "length cs = length (hash_table c)" and dc: "distinct (concat cs)"
    using bs by (auto simp: buckets_def)
  have sc': "set (concat ?cs) = set (xs @ ys)"
    using concat_remove_elem(2) [OF dc, of b us a vs] bl lcs cb sc dist by auto
  have b2: "buckets h2 tab1 ?cs" using b1 buckets_views [OF v2(1) data_of_eq_dom [OF v2(2)]] by simp
  have b3: "buckets ?h3 tab1 ?cs" using buckets_free [OF b2, of a] sc' dist by (simp del: set_concat)
  have d3: "dll ?h3 hp tp (xs @ ys)" using dll_free [OF d2] dist by simp
  have d23: "data_of h2 = data_of ?h" using v1 v2 by simp
  have data: "data_at ?h3 x = data_at ?h x" if "x \<noteq> a" for x
  proof -
    have "data_at ?h3 x = data_at h2 x" using that by (simp add: data_at_def data_of_def)
    then show ?thesis using data_at_views [OF d23] by simp
  qed
  have na: "a \<notin> set (xs @ ys)" using dist by simp
  have filt: "filter (key_here ?h3 k) (xs @ ys) = filter (key_here ?h3 k) (?cs ! bucket_ix c k)" for k
  proof -
    have nac: "a \<notin> set (?cs ! bucket_ix c k)"
      using nth_in_concat [of "bucket_ix c k" ?cs a] sc' na shape_bucket [OF shape, of k] lcs by auto
    have "filter (key_here ?h k) (xs @ ys) = filter (key_here ?h k) (?cs ! bucket_ix c k)"
    proof (cases "bucket_ix c k = b")
      case True
      have "distinct (us @ a # vs)" using buckets_distinct_nth [OF bs bl] cb by simp
      with True show ?thesis using agree [of k] cb bl lcs
        by (simp add: filter_drop_elem [OF dist] filter_drop_elem [of us a vs] del: filter_append)
    next
      case False
      then have "\<not> key_here ?h k a" using da by (auto simp: b_def)
      with False show ?thesis using agree [of k] by simp
    qed
    moreover have "filter (key_here ?h3 k) (xs @ ys) = filter (key_here ?h k) (xs @ ys)"
      using na by (intro filter_data_cong data) auto
    moreover have "filter (key_here ?h3 k) (?cs ! bucket_ix c k) = filter (key_here ?h k) (?cs ! bucket_ix c k)"
      using nac by (intro filter_data_cong data) auto
    ultimately show ?thesis by simp
  qed
  let ?c3 = "c\<lparr>ch_heap := ?h3, hash_table := tab1, ch_head := hp, ch_tail := tp, ch_size := ch_size c - 1\<rparr>"
  have dom3: "dom ?h3 = set (xs @ ys)" using data_of_eq_dom [OF d23] dm na by auto
  have ok3: "\<forall>x \<in> set (xs @ ys). entry_ok (data_at ?h3 x)"
  proof
    fix x assume x: "x \<in> set (xs @ ys)"
    with na have "x \<noteq> a" by auto
    then show "entry_ok (data_at ?h3 x)" using x ok by (simp add: data [OF \<open>x \<noteq> a\<close>])
  qed
  have "cache_shape ?c3 (xs @ ys) ?cs"
    using d3 b3 dom3 sc' hs len l1 filt ok3 sz
    by (simp add: cache_shape_def bucket_ix_def del: set_concat)
  moreover have "remove_entry c a = Some ?c3"
    using e hs bl u r by (simp add: remove_entry_def cache_bucket_ix b_def [symmetric])
  moreover have "map (data_at ?h3) (xs @ ys) = map (data_at ?h) (xs @ ys)"
    by (intro map_cong refl data) (use na in auto)
  ultimately show ?thesis by blast
qed

section \<open>Eviction\<close>

lemma find_victim_loop_chain:
  "chain (fld ce_next h) p as \<Longrightarrow> set as \<subseteq> dom h \<Longrightarrow> v \<in> dom h \<Longrightarrow>
     find_victim_loop p (Some v) h = Some (Some (scan_min (\<lambda>a. en_count (data_at h a)) v as))"
proof (induction as arbitrary: p v)
  case Nil
  then show ?case by (simp add: find_victim_loop.simps)
next
  case (Cons a as)
  from Cons.prems obtain e ve where "h a = Some e" "h v = Some ve" by auto
  with Cons show ?case
    by (subst find_victim_loop.simps) (auto simp: fld_def data_at_Some)
qed

lemma find_victim_shape:
  assumes shape: "cache_shape c as cs" and ne: "as \<noteq> []"
  shows "\<exists>a xs ys. find_victim c = Some (Some a) \<and> as = xs @ a # ys
     \<and> map (data_at (ch_heap c)) (xs @ ys) = a_evict (ch_policy c) (map (data_at (ch_heap c)) as)"
proof (cases "ch_policy c")
  case EVICTION_LRU
  from ne have "as = butlast as @ last as # []" by simp
  moreover have "ch_tail c = Some (last as)"
    using shape ne by (auto simp: cache_shape_def dest: dll_tail)
  ultimately show ?thesis
    using EVICTION_LRU by (metis a_evict_def append_Nil2 eviction_policy_t.simps(3) find_victim_def map_butlast)
next
  case EVICTION_LFU
  let ?m = "\<lambda>a. en_count (data_at (ch_heap c) a)"
  obtain a bs where as: "as = a # bs" using ne by (cases as) auto
  have C: "chain (fld ce_next (ch_heap c)) (Some a) as" "set as \<subseteq> dom (ch_heap c)" "ch_head c = Some a"
    using shape as by (auto simp: cache_shape_def dll_def)
  have "find_victim c = Some (Some (scan_min ?m a bs))"
    using EVICTION_LFU C as find_victim_loop_chain [OF C(1,2), of a] by (simp add: find_victim_def)
  moreover obtain xs ys where "a # bs = xs @ scan_min ?m a bs # ys"
    and "\<forall>x \<in> set xs. ?m (scan_min ?m a bs) < ?m x" "\<forall>y \<in> set ys. ?m (scan_min ?m a bs) \<le> ?m y"
    by (rule scan_min_first)
  moreover from this have "a_evict (ch_policy c) (map (data_at (ch_heap c)) as) =
      map (data_at (ch_heap c)) (xs @ ys)"
    using remove_first_min [of "map (data_at (ch_heap c)) xs" en_count
        "data_at (ch_heap c) (scan_min ?m a bs)" "map (data_at (ch_heap c)) ys"] as
    by (simp add: a_evict_def EVICTION_LFU del: set_append)
  ultimately show ?thesis using as by metis
qed

text \<open>
  The loop of \<open>evict_if_needed\<close> ends: it does nothing when there is room and removes exactly
  one entry when the cache is full, after which there is room.
\<close>

lemma evict_room: "ch_size c < ch_max_size c \<Longrightarrow> evict_if_needed c = Some c"
  by (subst evict_if_needed.simps) (simp add: not_le [symmetric])

lemma shape_size:
  assumes "cache_shape c as cs" and "length as \<le> unat (ch_max_size c)"
  shows "unat (ch_size c) = length as"
proof -
  have "length as < 2 ^ 64" using assms(2) unat_u64_less [of "ch_max_size c"] by simp
  then show ?thesis using assms(1) by (simp add: cache_shape_def unat_of_nat)
qed

lemma abs_cache_frame:
  "abs_cache (c\<lparr>ch_heap := h, hash_table := tab, ch_head := hp, ch_tail := tp, ch_size := n\<rparr>) as
     = (abs_cache c as')\<lparr>ac_entries := map (data_at h) as\<rparr>"
  by (simp add: abs_cache_def)

lemma evict_shape:
  assumes shape: "cache_shape c as cs" and max: "0 < ch_max_size c" "length as \<le> unat (ch_max_size c)"
  shows "\<exists>c' as' cs'. evict_if_needed c = Some c' \<and> cache_shape c' as' cs'
     \<and> abs_cache c' as' = a_make_room (abs_cache c as) \<and> set as' \<subseteq> set as
     \<and> length as' < unat (ch_max_size c') \<and> hash_size c' = hash_size c"
proof (cases "length as < unat (ch_max_size c)")
  case True
  then have "ch_size c < ch_max_size c"
    using shape_size [OF shape max(2)] by (simp add: word_less_nat_alt)
  then have "evict_if_needed c = Some c" by (rule evict_room)
  moreover have "a_make_room (abs_cache c as) = abs_cache c as"
    using True by (simp add: a_make_room_def abs_cache_def)
  ultimately show ?thesis using shape True by auto
next
  case False
  with max have full: "length as = unat (ch_max_size c)" by simp
  have ge: "ch_max_size c \<le> ch_size c"
    using shape_size [OF shape max(2)] full by (simp add: word_le_nat_alt)
  have "0 < unat (ch_max_size c)" using max(1) by (simp add: word_less_nat_alt)
  with full have "as \<noteq> []" by auto
  from find_victim_shape [OF shape this] obtain a xs ys where
    v: "find_victim c = Some (Some a)" and as: "as = xs @ a # ys"
    and ev: "map (data_at (ch_heap c)) (xs @ ys) = a_evict (ch_policy c) (map (data_at (ch_heap c)) as)"
    by blast
  from remove_entry_shape [OF shape [unfolded as]] obtain h tab hp tp cs' c1 where
    c1: "c1 = c\<lparr>ch_heap := h, hash_table := tab, ch_head := hp, ch_tail := tp, ch_size := ch_size c - 1\<rparr>"
    and r: "remove_entry c a = Some c1" and s1: "cache_shape c1 (xs @ ys) cs'"
    and d1: "map (data_at h) (xs @ ys) = map (data_at (ch_heap c)) (xs @ ys)"
    by blast
  let ?c2 = "c1\<lparr>ch_evictions := ch_evictions c1 + 1\<rparr>"
  have s2: "cache_shape ?c2 (xs @ ys) cs'" using s1 by (simp add: cache_shape_def bucket_ix_def)
  have lt: "length (xs @ ys) < unat (ch_max_size c)" using full as by simp
  then have "ch_size ?c2 < ch_max_size ?c2"
    using shape_size [OF s2] by (simp add: word_less_nat_alt c1)
  then have "evict_if_needed ?c2 = Some ?c2" by (rule evict_room)
  then have "evict_if_needed c = Some ?c2"
    using ge v r by (subst evict_if_needed.simps) simp
  moreover have "abs_cache ?c2 (xs @ ys) = a_make_room (abs_cache c as)"
    using False ev d1 by (simp add: abs_cache_def a_make_room_def c1)
  ultimately show ?thesis using s2 lt as by (auto simp: c1)
qed

section \<open>Insertion\<close>

lemma insert_shape:
  assumes shape: "cache_shape c as cs" and fresh: "ch_heap c a = None"
    and e: "ce_key e = k" "ce_hash_next e = hash_table c ! bucket_ix c k" "entry_ok (abs_entry e)"
    and c1: "c1 = c\<lparr>ch_heap := (ch_heap c)(a \<mapsto> e),
               hash_table := (hash_table c)[bucket_ix c k := Some a]\<rparr>"
  shows "\<exists>c' cs'. add_to_head c1 a = Some c'
     \<and> cache_shape (c'\<lparr>ch_size := ch_size c' + 1\<rparr>) (a # as) cs'
     \<and> abs_cache (c'\<lparr>ch_size := ch_size c' + 1\<rparr>) (a # as) =
         (abs_cache c as)\<lparr>ac_entries := abs_entry e # map (data_at (ch_heap c)) as\<rparr>"
proof -
  let ?h = "ch_heap c" and ?b = "bucket_ix c k" and ?h1 = "(ch_heap c)(a \<mapsto> e)"
  have b: "?b < length (hash_table c)" using shape by (rule shape_bucket)
  have parts: "dll ?h (ch_head c) (ch_tail c) as" "buckets ?h (hash_table c) cs" "dom ?h = set as"
    "set (concat cs) = set as" "0 < hash_size c" "length (hash_table c) = unat (hash_size c)"
    "ch_size c = of_nat (length as)" "\<forall>x \<in> set as. entry_ok (data_at ?h x)"
    and agree: "\<And>k. filter (key_here ?h k) as = filter (key_here ?h k) (cs ! bucket_ix c k)"
    using shape by (auto simp: cache_shape_def simp del: set_concat)
  have na: "a \<notin> set as" "a \<notin> set (concat cs)" using fresh parts(3,4) by (auto simp del: set_concat)
  have "dll (ch_heap c1) (ch_head c1) (ch_tail c1) as" "ch_heap c1 a = Some e"
    using dll_alloc [OF parts(1) na(1)] by (simp_all add: c1)
  from add_to_head_dll [OF this na(1)] obtain h tp where
    add: "add_to_head c1 a = Some (c1\<lparr>ch_heap := h, ch_head := Some a, ch_tail := tp\<rparr>)"
    and d: "dll h (Some a) tp (a # as)" and v: "fld ce_hash_next h = fld ce_hash_next (ch_heap c1)"
      "data_of h = data_of (ch_heap c1)"
    by blast
  let ?cs = "cs[?b := a # cs ! ?b]" and ?tab = "(hash_table c)[?b := Some a]"
  have "buckets ?h1 ?tab ?cs" using buckets_insert [OF parts(2) b na(2) e(2)] .
  then have bk: "buckets h ?tab ?cs"
    using buckets_views [OF v(1) data_of_eq_dom [OF v(2)]] by (simp add: c1)
  have len: "length cs = length (hash_table c)" and dc: "distinct (concat cs)"
    using parts(2) by (auto simp: buckets_def)
  have dh: "data_at h = (data_at ?h)(a := abs_entry e)"
    using data_at_views [OF v(2)] by (auto simp: c1 data_at_def data_of_def fun_eq_iff)
  have sc: "set (concat ?cs) = insert a (set as)"
    using concat_insert_elem(2) [OF dc, of ?b a] b len na parts(4) by simp
  have filt: "filter (key_here h k') (a # as) = filter (key_here h k') (?cs ! bucket_ix c k')" for k'
  proof -
    have old: "filter (key_here h k') l = filter (key_here ?h k') l" if "a \<notin> set l" for l
      using that by (intro filter_data_cong) (auto simp: dh)
    have nb: "a \<notin> set (cs ! bucket_ix c k')"
      using na(2) nth_in_concat [of "bucket_ix c k'" cs a] shape_bucket [OF shape] len by auto
    show ?thesis
    proof (cases "bucket_ix c k' = ?b")
      case True
      with b len nb na(1) agree [of k'] show ?thesis by (simp add: old)
    next
      case False
      then have "k' \<noteq> k" by auto
      with False nb na(1) agree [of k'] e(1) show ?thesis by (simp add: old) (simp add: dh)
    qed
  qed
  have dom: "dom h = set (a # as)" using data_of_eq_dom [OF v(2)] parts(3) by (simp add: c1)
  have ok: "\<forall>x \<in> set (a # as). entry_ok (data_at h x)" using parts(8) e(3) na by (auto simp: dh)
  let ?c' = "c1\<lparr>ch_heap := h, ch_head := Some a, ch_tail := tp\<rparr>"
  have "cache_shape (?c'\<lparr>ch_size := ch_size ?c' + 1\<rparr>) (a # as) ?cs"
    using d bk dom sc parts(5-7) filt ok
    by (simp add: cache_shape_def bucket_ix_def c1 add.commute del: set_concat)
  moreover have "abs_cache (?c'\<lparr>ch_size := ch_size ?c' + 1\<rparr>) (a # as) =
      (abs_cache c as)\<lparr>ac_entries := abs_entry e # map (data_at ?h) as\<rparr>"
    using na(1) by (simp add: abs_cache_def dh c1)
  ultimately show ?thesis using add by blast
qed

section \<open>The interface operations\<close>

text \<open>
  The address \<open>calloc\<close> returns for a new entry is not one of a live entry at the time of the
  call, which is after the eviction; it may well be the one just freed.
\<close>

definition alloc_fresh :: "cache_t \<Rightarrow> addr \<Rightarrow> bool" where
  "alloc_fresh c a = (case evict_if_needed c of None \<Rightarrow> True | Some c' \<Rightarrow> ch_heap c' a = None)"

definition ac_ok :: "acache \<Rightarrow> bool" where
  "ac_ok ac \<longleftrightarrow> 0 < ac_max ac \<and> length (ac_entries ac) \<le> unat (ac_max ac)"

lemma cache_relI: "cache_shape c as cs \<Longrightarrow> abs_cache c as = ac \<Longrightarrow> ac_ok ac \<Longrightarrow> cache_rel c ac"
  by (auto simp: cache_rel_def ac_ok_def)

lemma cache_relE:
  assumes "cache_rel c ac"
  obtains as cs where "cache_shape c as cs" "ac = abs_cache c as" "0 < ch_max_size c"
    "length as \<le> unat (ch_max_size c)"
  using assms by (auto simp: cache_rel_def abs_cache_def)

lemma length_a_touch [simp]: "length (a_touch p k f l) = length l"
proof (cases "find (has_key k) l")
  case None
  then show ?thesis by (simp add: a_touch_def split: eviction_policy_t.split)
next
  case (Some e)
  then have "\<exists>x \<in> set l. has_key k x" "l \<noteq> []" by (auto dest!: find_Some_in)
  with Some show ?thesis
    by (cases p) (auto simp: a_touch_def length_remove_first)
qed

lemma abs_cache_sel [simp]:
  "ac_entries (abs_cache c as) = map (data_at (ch_heap c)) as" "ac_policy (abs_cache c as) = ch_policy c"
  "ac_max (abs_cache c as) = ch_max_size c" "ac_hits (abs_cache c as) = ch_hits c"
  "ac_misses (abs_cache c as) = ch_misses c" "ac_evictions (abs_cache c as) = ch_evictions c"
  by (simp_all add: abs_cache_def)

lemma shape_counters:
  "cache_shape c as cs \<Longrightarrow> cache_shape (c\<lparr>ch_hits := h\<rparr>) as cs"
  "cache_shape c as cs \<Longrightarrow> cache_shape (c\<lparr>ch_misses := m\<rparr>) as cs"
  by (simp_all add: cache_shape_def bucket_ix_def)

lemma shape_entry_ok:
  "cache_shape c as cs \<Longrightarrow> a \<in> set as \<Longrightarrow> ch_heap c a = Some e \<Longrightarrow>
     unat (ce_value_size e) = length (ce_value e)"
  by (auto simp: cache_shape_def entry_ok_def data_at_Some dest!: bspec)

lemma cache_get_sim:
  assumes rel: "cache_rel c ac" and get: "a_get ac k now = (r, ac')"
  shows "\<exists>c'. cache_get (Some c) (Some k) want_value want_size now =
           Some (if r = None then ERROR_NOT_FOUND else SUCCESS,
                 if want_value then map_option en_value r else None,
                 if want_size then map_option en_size r else None, Some c')
       \<and> cache_rel c' ac'"
proof -
  from rel obtain as cs where shape: "cache_shape c as cs" and ac: "ac = abs_cache c as"
    and max: "0 < ch_max_size c" "length as \<le> unat (ch_max_size c)" by (rule cache_relE)
  let ?h = "ch_heap c"
  from find_entry_shape [OF shape, of k now] show ?thesis
  proof (elim disjE conjE exE)
    assume f: "find_entry c k now = Some None" and af: "a_find (map (data_at ?h) as) k now = None"
    let ?c = "c\<lparr>ch_misses := ch_misses c + 1\<rparr>"
    have r: "r = None" "ac' = ac\<lparr>ac_misses := ac_misses ac + 1\<rparr>"
      using get af by (auto simp: a_get_def ac)
    have "cache_rel ?c ac'"
      using shape_counters(2) [OF shape] max
      by (intro cache_relI) (auto simp: r ac abs_cache_def ac_ok_def)
    with f r show ?thesis by (auto simp: cache_get_def)
  next
    fix a xs ys
    assume f: "find_entry c k now = Some (Some a)" and as: "as = xs @ a # ys"
      and key: "key_here ?h k a" and first: "\<forall>x \<in> set xs. \<not> key_here ?h k x"
      and af: "a_find (map (data_at ?h) as) k now = Some (data_at ?h a)"
    obtain e where e: "?h a = Some e" using shape_dom [OF shape, of a] as by auto
    let ?c0 = "c\<lparr>ch_hits := ch_hits c + 1\<rparr>" and ?e = "e\<lparr>ce_access_count := ce_access_count e + 1\<rparr>"
    let ?f = "\<lambda>e. e\<lparr>en_count := en_count e + 1\<rparr>"
    let ?c1 = "?c0\<lparr>ch_heap := (ch_heap ?c0)(a \<mapsto> ?e)\<rparr>"
    have size: "unat (ce_value_size e) = length (ce_value e)" using shape_entry_ok [OF shape _ e] as by simp
    have hyps: "ch_heap ?c0 a = Some e" "key_here (ch_heap ?c0) k a"
      "\<forall>x \<in> set xs. \<not> key_here (ch_heap ?c0) k x" "same_links e ?e"
      "entry_ok (abs_entry ?e)" "abs_entry ?e = ?f (abs_entry e)"
      using e key first size by (simp_all add: entry_ok_def abs_entry_def same_links_def)
    obtain c' as' ep where
      t: "(if ch_policy ?c1 = EVICTION_LRU then move_to_head ?c1 a else Some ?c1) = Some c'"
      and s': "cache_shape c' as' cs" and ep: "ch_heap c' a = Some ep" "abs_entry ep = ?f (abs_entry e)"
      and abs': "abs_cache c' as' = (abs_cache ?c0 (xs @ a # ys))\<lparr>ac_entries :=
          a_touch (ch_policy ?c0) k ?f (map (data_at (ch_heap ?c0)) (xs @ a # ys))\<rparr>"
      using touch_shape [where f = ?f, OF shape_counters(1) [OF shape, unfolded as] hyps refl] by blast
    have de: "data_at ?h a = abs_entry e" using e by (rule data_at_Some)
    have r: "r = Some (abs_entry e)" "ac' = abs_cache c' as'"
      unfolding abs' using get af as by (auto simp: a_get_def ac de abs_cache_def)
    have "ce_value ep = ce_value e" "ce_value_size ep = ce_value_size e"
      using arg_cong [OF ep(2), of en_value] arg_cong [OF ep(2), of en_size] by simp_all
    moreover have "?c1 = c\<lparr>ch_heap := (ch_heap c)(a \<mapsto> ?e), ch_hits := ch_hits c + 1\<rparr>" by simp
    note t [unfolded this]
    ultimately have "cache_get (Some c) (Some k) want_value want_size now =
       Some (SUCCESS, if want_value then Some (ce_value e) else None,
         if want_size then Some (ce_value_size e) else None, Some c')"
      using f e ep size by (auto simp: cache_get_def)
    moreover have "cache_rel c' ac'"
      unfolding r(2) using max as
      by (intro cache_relI [OF s' refl]) (simp add: ac_ok_def abs')
    ultimately show ?thesis using r by auto
  qed
qed

lemma cache_put_sim:
  assumes rel: "cache_rel c ac" and fresh: "alloc_fresh c new_entry"
    and vs: "0 < value_size" "unat value_size \<le> length buf"
  shows "\<exists>c'. cache_put_with_ttl (Some c) (Some k) (Some buf) value_size ttl_ms now_find new_entry now =
           Some (SUCCESS, Some c')
       \<and> cache_rel c' (a_put ac k (take (unat value_size) buf) value_size ttl_ms now_find now)"
proof -
  from rel obtain as cs where shape: "cache_shape c as cs" and ac: "ac = abs_cache c as"
    and max: "0 < ch_max_size c" "length as \<le> unat (ch_max_size c)" by (rule cache_relE)
  let ?h = "ch_heap c" and ?v = "take (unat value_size) buf"
  have nz: "value_size \<noteq> 0" using vs by auto
  from find_entry_shape [OF shape, of k now_find] show ?thesis
  proof (elim disjE conjE exE)
    assume f: "find_entry c k now_find = Some None" and af: "a_find (map (data_at ?h) as) k now_find = None"
    from evict_shape [OF shape max] obtain c1 as1 cs1 where
      ev: "evict_if_needed c = Some c1" and s1: "cache_shape c1 as1 cs1"
      and abs1: "abs_cache c1 as1 = a_make_room (abs_cache c as)"
      and room: "length as1 < unat (ch_max_size c1)"
      by blast
    let ?b = "bucket_ix c1 k"
    let ?e = "\<lparr>ce_key = k, ce_value = ?v, ce_value_size = value_size, ce_timestamp = now,
       ce_ttl_ms = ttl_ms, ce_access_count = 0, ce_prev = None, ce_next = None,
       ce_hash_next = hash_table c1 ! ?b\<rparr>"
    let ?c2 = "c1\<lparr>ch_heap := (ch_heap c1)(new_entry \<mapsto> ?e),
       hash_table := (hash_table c1)[?b := Some new_entry]\<rparr>"
    have fr: "ch_heap c1 new_entry = None" using fresh ev by (simp add: alloc_fresh_def)
    have "entry_ok (abs_entry ?e)" using vs by (simp add: entry_ok_def)
    from insert_shape [OF s1 fr _ _ this refl] obtain c3 cs3 where
      add: "add_to_head ?c2 new_entry = Some c3"
      and s3: "cache_shape (c3\<lparr>ch_size := ch_size c3 + 1\<rparr>) (new_entry # as1) cs3"
      and abs3: "abs_cache (c3\<lparr>ch_size := ch_size c3 + 1\<rparr>) (new_entry # as1) =
         (abs_cache c1 as1)\<lparr>ac_entries := abs_entry ?e # map (data_at (ch_heap c1)) as1\<rparr>"
      by auto
    have b: "?b < length (hash_table c1)" and hs: "0 < hash_size c1"
      using shape_bucket [OF s1] s1 by (simp_all add: cache_shape_def)
    have put: "cache_put_with_ttl (Some c) (Some k) (Some buf) value_size ttl_ms now_find new_entry now =
        Some (SUCCESS, Some (c3\<lparr>ch_size := ch_size c3 + 1\<rparr>))"
      using nz f ev vs b hs add by (simp add: cache_put_with_ttl_def cache_bucket_ix)
    have es: "map (data_at (ch_heap c1)) as1 = ac_entries (a_make_room (abs_cache c as))"
      using abs1 by (metis abs_cache_sel(1))
    have spec: "a_put ac k ?v value_size ttl_ms now_find now =
        abs_cache (c3\<lparr>ch_size := ch_size c3 + 1\<rparr>) (new_entry # as1)"
      unfolding abs3 abs1 es using af by (simp add: a_put_def ac Let_def abs_entry_def)
    have "cache_rel (c3\<lparr>ch_size := ch_size c3 + 1\<rparr>) (a_put ac k ?v value_size ttl_ms now_find now)"
      unfolding spec using room
      by (intro cache_relI [OF s3 refl]) (auto simp: ac_ok_def abs3 word_less_nat_alt)
    with put show ?thesis by blast
  next
    fix a xs ys
    assume f: "find_entry c k now_find = Some (Some a)" and as: "as = xs @ a # ys"
      and key: "key_here ?h k a" and first: "\<forall>x \<in> set xs. \<not> key_here ?h k x"
      and af: "a_find (map (data_at ?h) as) k now_find = Some (data_at ?h a)"
    obtain e where e: "?h a = Some e" using shape_dom [OF shape, of a] as by auto
    let ?e = "e\<lparr>ce_value := ?v, ce_value_size := value_size, ce_timestamp := now, ce_ttl_ms := ttl_ms\<rparr>"
    let ?f = "\<lambda>e. e\<lparr>en_value := ?v, en_size := value_size, en_timestamp := now, en_ttl := ttl_ms\<rparr>"
    let ?c1 = "c\<lparr>ch_heap := (ch_heap c)(a \<mapsto> ?e)\<rparr>"
    have hyps: "same_links e ?e" "entry_ok (abs_entry ?e)" "abs_entry ?e = ?f (abs_entry e)"
      using vs by (simp_all add: entry_ok_def abs_entry_def same_links_def)
    obtain c' as' where
      t: "(if ch_policy ?c1 = EVICTION_LRU then move_to_head ?c1 a else Some ?c1) = Some c'"
      and s': "cache_shape c' as' cs"
      and abs': "abs_cache c' as' = (abs_cache c (xs @ a # ys))\<lparr>ac_entries :=
          a_touch (ch_policy c) k ?f (map (data_at (ch_heap c)) (xs @ a # ys))\<rparr>"
      using touch_shape [where f = ?f, OF shape [unfolded as] e key first hyps refl] by blast
    have spec: "a_put ac k ?v value_size ttl_ms now_find now = abs_cache c' as'"
      using af as by (simp add: a_put_def ac abs')
    have "cache_put_with_ttl (Some c) (Some k) (Some buf) value_size ttl_ms now_find new_entry now =
        Some (SUCCESS, Some c')"
      using nz f vs e t by (simp add: cache_put_with_ttl_def)
    moreover have "cache_rel c' (a_put ac k ?v value_size ttl_ms now_find now)"
      unfolding spec using max as
      by (intro cache_relI [OF s' refl]) (simp add: ac_ok_def abs')
    ultimately show ?thesis by blast
  qed
qed

lemma cache_delete_sim:
  assumes rel: "cache_rel c ac" and del: "a_delete ac k now = (found, ac')"
  shows "\<exists>c'. cache_delete (Some c) (Some k) now =
           Some (if found then SUCCESS else ERROR_NOT_FOUND, Some c') \<and> cache_rel c' ac'"
proof -
  from rel obtain as cs where shape: "cache_shape c as cs" and ac: "ac = abs_cache c as"
    and max: "0 < ch_max_size c" "length as \<le> unat (ch_max_size c)" by (rule cache_relE)
  let ?h = "ch_heap c"
  from find_entry_shape [OF shape, of k now] show ?thesis
  proof (elim disjE conjE exE)
    assume "find_entry c k now = Some None" and "a_find (map (data_at ?h) as) k now = None"
    with del rel show ?thesis by (auto simp: a_delete_def ac cache_delete_def)
  next
    fix a xs ys
    assume f: "find_entry c k now = Some (Some a)" and as: "as = xs @ a # ys"
      and key: "key_here ?h k a" and first: "\<forall>x \<in> set xs. \<not> key_here ?h k x"
      and af: "a_find (map (data_at ?h) as) k now = Some (data_at ?h a)"
    from remove_entry_shape [OF shape [unfolded as]] obtain h tab hp tp cs' c1 where
      c1: "c1 = c\<lparr>ch_heap := h, hash_table := tab, ch_head := hp, ch_tail := tp, ch_size := ch_size c - 1\<rparr>"
      and r: "remove_entry c a = Some c1" and s1: "cache_shape c1 (xs @ ys) cs'"
      and d1: "map (data_at h) (xs @ ys) = map (data_at ?h) (xs @ ys)"
      by blast
    have "remove_first (has_key k) (map (data_at ?h) as) = map (data_at ?h) (xs @ ys)"
      using remove_first_split [of "has_key k" "data_at ?h a" "map (data_at ?h) xs"] key first as by simp
    then have "found" "ac' = abs_cache c1 (xs @ ys)"
      using del af d1 by (auto simp: a_delete_def ac c1 abs_cache_def)
    moreover have "ac_ok (abs_cache c1 (xs @ ys))" using max as by (simp add: ac_ok_def abs_cache_def c1)
    ultimately show ?thesis using f r cache_relI [OF s1 refl] by (auto simp: cache_delete_def)
  qed
qed

lemma cache_exists_sim:
  assumes "cache_rel c ac"
  shows "cache_exists (Some c) (Some k) now = Some (a_find (ac_entries ac) k now \<noteq> None)"
proof -
  from assms obtain as cs where "cache_shape c as cs" and ac: "ac = abs_cache c as" by (rule cache_relE)
  from find_entry_shape [OF this(1), of k now] show ?thesis
    by (auto simp: ac cache_exists_def)
qed

interpretation cache_release: list_release ce_next cache_clear_loop
  by unfold_locales (subst cache_clear_loop.simps, simp split: option.split)

lemma empty_shape:
  assumes "ch_heap c = Map.empty" and "ch_head c = None" and "ch_tail c = None" and "ch_size c = 0"
    and "0 < hash_size c" and "hash_table c = replicate (unat (hash_size c)) None"
  shows "cache_shape c [] (replicate (unat (hash_size c)) [])"
  using assms bucket_ix_less [OF assms(5)]
  by (auto simp: cache_shape_def buckets_def)

lemma cache_clear_sim:
  assumes "cache_rel c ac"
  shows "\<exists>c'. cache_clear (Some c) = Some (Some c') \<and> ch_heap c' = Map.empty
     \<and> cache_rel c' (ac\<lparr>ac_entries := []\<rparr>)"
proof -
  from assms obtain as cs where shape: "cache_shape c as cs" and ac: "ac = abs_cache c as"
    and max: "0 < ch_max_size c" by (rule cache_relE)
  have "cache_clear_loop (ch_head c) (ch_heap c) = Some (\<lambda>a. if a \<in> set as then None else ch_heap c a)"
    using shape by (intro cache_release.free_loop_chain) (auto simp: cache_shape_def dll_def)
  moreover have "(\<lambda>a. if a \<in> set as then None else ch_heap c a) = Map.empty"
    using shape by (auto simp: cache_shape_def fun_eq_iff)
  ultimately have clear: "cache_clear (Some c) = Some (Some (c\<lparr>ch_heap := Map.empty,
      hash_table := replicate (unat (hash_size c)) None, ch_head := None, ch_tail := None, ch_size := 0\<rparr>))"
    (is "_ = Some (Some ?c)")
    by (simp add: cache_clear_def)
  have "cache_shape ?c [] (replicate (unat (hash_size ?c)) [])"
    using shape by (intro empty_shape) (auto simp: cache_shape_def)
  then have "cache_rel ?c (ac\<lparr>ac_entries := []\<rparr>)"
    using max by (intro cache_relI) (auto simp: ac abs_cache_def ac_ok_def)
  with clear show ?thesis by auto
qed

definition a_create :: "u64 \<Rightarrow> eviction_policy_t \<Rightarrow> acache" where
  "a_create max_size policy =
     \<lparr>ac_entries = [], ac_max = max_size, ac_policy = policy, ac_hits = 0, ac_misses = 0,
      ac_evictions = 0\<rparr>"

lemma cache_create_sim:
  assumes "0 < max_size" and "unat max_size < 2 ^ 63"
  shows "cache_rel (cache_create max_size policy) (a_create max_size policy)"
proof -
  have "0 < max_size * 2"
    using assms by (simp add: word_less_nat_alt unat_word_ariths)
  then have "cache_shape (cache_create max_size policy) []
      (replicate (unat (hash_size (cache_create max_size policy))) [])"
    by (intro empty_shape) (simp_all add: cache_create_def)
  then show ?thesis
    using assms by (intro cache_relI) (auto simp: abs_cache_def cache_create_def a_create_def ac_ok_def)
qed

end
