(* ===== verification/Cache_Correct.thy ===== *)
theory Cache_Correct
  imports Cache_Refine
begin

text \<open>
  What the cache promises its clients, for single calls and for arbitrary sequences of calls:
  the properties of \<^verbatim>\<open>src/cache/cache.c\<close>, over the refinement of \<open>Cache_Refine\<close>. The sequence
  theorem is the interpretation of the \<open>refinement\<close> interface on the operations of the code.
\<close>

section \<open>Sequences of operations\<close>

datatype cache_op =
    Cache_Put cstr bytes u64 u64 u64 addr u64
  | Cache_Get cstr u64
  | Cache_Delete cstr u64
  | Cache_Clear

fun cache_exec :: "cache_t \<Rightarrow> cache_op \<Rightarrow> cache_t option" where
  "cache_exec c (Cache_Put k buf value_size ttl_ms now_find new_entry now) =
     (case cache_put_with_ttl (Some c) (Some k) (Some buf) value_size ttl_ms now_find new_entry now of
        Some (_, Some c') \<Rightarrow> Some c' | _ \<Rightarrow> None)"
| "cache_exec c (Cache_Get k now) =
     (case cache_get (Some c) (Some k) True True now of Some (_, _, _, Some c') \<Rightarrow> Some c' | _ \<Rightarrow> None)"
| "cache_exec c (Cache_Delete k now) =
     (case cache_delete (Some c) (Some k) now of Some (_, Some c') \<Rightarrow> Some c' | _ \<Rightarrow> None)"
| "cache_exec c Cache_Clear =
     (case cache_clear (Some c) of Some (Some c') \<Rightarrow> Some c' | _ \<Rightarrow> None)"

fun cache_pre :: "cache_t \<Rightarrow> cache_op \<Rightarrow> bool" where
  "cache_pre c (Cache_Put k buf value_size ttl_ms now_find new_entry now) \<longleftrightarrow>
     0 < value_size \<and> unat value_size \<le> length buf \<and> alloc_fresh c new_entry"
| "cache_pre c _ \<longleftrightarrow> True"

fun acache_exec :: "acache \<Rightarrow> cache_op \<Rightarrow> acache" where
  "acache_exec ac (Cache_Put k buf value_size ttl_ms now_find new_entry now) =
     a_put ac k (take (unat value_size) buf) value_size ttl_ms now_find now"
| "acache_exec ac (Cache_Get k now) = snd (a_get ac k now)"
| "acache_exec ac (Cache_Delete k now) = snd (a_delete ac k now)"
| "acache_exec ac Cache_Clear = ac\<lparr>ac_entries := []\<rparr>"

lemma cache_exec_sim:
  assumes "cache_rel c ac" and "cache_pre c x"
  shows "\<exists>c'. cache_exec c x = Some c' \<and> cache_rel c' (acache_exec ac x)"
proof (cases x)
  case (Cache_Put k buf value_size ttl_ms now_find new_entry now)
  then show ?thesis
    using cache_put_sim [OF assms(1), of new_entry value_size buf k ttl_ms now_find now] assms(2) by auto
next
  case (Cache_Get k now)
  obtain r ac' where "a_get ac k now = (r, ac')" by fastforce
  with cache_get_sim [OF assms(1) this, of True True] Cache_Get show ?thesis by auto
next
  case (Cache_Delete k now)
  obtain found ac' where "a_delete ac k now = (found, ac')" by fastforce
  with cache_delete_sim [OF assms(1) this] Cache_Delete show ?thesis by auto
next
  case Cache_Clear
  then show ?thesis using cache_clear_sim [OF assms(1)] by auto
qed

interpretation cache_ref: refinement cache_exec cache_pre acache_exec cache_rel
  by unfold_locales (rule cache_exec_sim)

text \<open>
  C1: Any sequence of put, get, delete and clear calls on a new cache of at least one and fewer
  than 2^63 entries, each put with a non-empty value inside its buffer and a fresh allocation, runs to its end without undefined
  behaviour, every loop terminating, and the pointer structure it leaves represents exactly
  what the list specification computes: same entries in the same recency order, same counters.
\<close>

theorem cache_sequence_refines:
  assumes "0 < max_size" and "unat max_size < 2 ^ 63"
    and "run_ok cache_exec cache_pre (cache_create max_size policy) ops"
  shows "\<exists>c. run cache_exec (cache_create max_size policy) ops = Some c
     \<and> cache_rel c (foldl acache_exec (a_create max_size policy) ops)"
  by (rule cache_ref.run_refines [OF cache_create_sim [OF assms(1,2)] assms(3)])

definition sample_ops :: "cache_op list" where
  "sample_ops =
     [Cache_Put ''a'' [1, 2] 2 0 0 1 10, Cache_Put ''b'' [3] 1 5 11 2 11,
      Cache_Get ''a'' 12, Cache_Put ''c'' [4] 1 0 13 2 13, Cache_Delete ''a'' 14]"

lemma sample_ok: "run_ok cache_exec cache_pre (cache_create 2 EVICTION_LRU) sample_ops"
  by code_simp

theorem cache_sequence_refines_witness:
  "\<exists>c. run cache_exec (cache_create 2 EVICTION_LRU) sample_ops = Some c
     \<and> cache_rel c (foldl acache_exec (a_create 2 EVICTION_LRU) sample_ops)"
  by (rule cache_sequence_refines [OF _ _ sample_ok]) simp_all

lemma cache_rel_capacity:
  assumes "cache_rel c ac"
  shows "card (dom (ch_heap c)) \<le> unat (ac_max ac)" and "unat (ch_size c) = card (dom (ch_heap c))"
proof -
  from assms obtain as cs where shape: "cache_shape c as cs" and ac: "ac = abs_cache c as"
    and max: "length as \<le> unat (ch_max_size c)" by (rule cache_relE)
  have "card (dom (ch_heap c)) = length as"
    using shape by (simp add: cache_shape_def dll_def distinct_card)
  with max shape_size [OF shape max]
  show "card (dom (ch_heap c)) \<le> unat (ac_max ac)" "unat (ch_size c) = card (dom (ch_heap c))"
    by (simp_all add: ac)
qed

lemma acache_exec_max: "ac_max (acache_exec ac x) = ac_max ac"
  by (cases x) (auto simp: a_put_def a_make_room_def a_get_def a_delete_def Let_def split: option.split)

text \<open>
  C26: No sequence of calls ever makes the cache exceed its capacity: the number of allocated
  entries is at most \<open>max_size\<close>, and the \<open>size\<close> field counts exactly the allocated entries.
\<close>

theorem cache_sequence_capacity:
  assumes "0 < max_size" and "unat max_size < 2 ^ 63"
    and "run_ok cache_exec cache_pre (cache_create max_size policy) ops"
  shows "\<exists>c. run cache_exec (cache_create max_size policy) ops = Some c
     \<and> card (dom (ch_heap c)) \<le> unat max_size \<and> unat (ch_size c) = card (dom (ch_heap c))"
proof -
  have "ac_max (a_create max_size policy) = max_size" by (simp add: a_create_def)
  from cache_ref.run_keeps [OF cache_create_sim [OF assms(1,2)] assms(3), of "\<lambda>ac. ac_max ac = max_size", OF this]
  show ?thesis by (metis acache_exec_max cache_rel_capacity)
qed

theorem cache_sequence_capacity_witness:
  "\<exists>c. run cache_exec (cache_create 2 EVICTION_LRU) sample_ops = Some c
     \<and> card (dom (ch_heap c)) \<le> 2 \<and> unat (ch_size c) = card (dom (ch_heap c))"
  using cache_sequence_capacity [OF _ _ sample_ok] by simp

section \<open>Lookups after updates\<close>

lemma find_a_touch:
  "find (has_key k) l = Some e \<Longrightarrow> (\<And>e. en_key (f e) = en_key e) \<Longrightarrow>
     find (has_key k) (a_touch p k f l) = Some (f e)"
  by (cases p) (auto simp: a_touch_def dest!: find_split)

lemma find_a_touch_other:
  assumes "k' \<noteq> k" and "\<And>e. en_key (f e) = en_key e"
  shows "find (has_key k') (a_touch p k f l) = find (has_key k') l"
proof (cases "find (has_key k) l")
  case None
  then have "\<forall>x \<in> set l. \<not> has_key k x" by (simp add: find_None)
  then show ?thesis by (cases p) (simp_all add: a_touch_def None)
next
  case (Some e)
  then obtain xs ys where l: "l = xs @ e # ys" and "has_key k e" "\<forall>x \<in> set xs. \<not> has_key k x"
    by (auto dest!: find_split)
  then have "a_touch p k f l = (case p of EVICTION_LRU \<Rightarrow> f e # xs @ ys | EVICTION_LFU \<Rightarrow> xs @ f e # ys)"
    by (cases p) (simp_all add: a_touch_def)
  with assms l \<open>has_key k e\<close> show ?thesis
    by (cases p) (auto simp: find_append split: option.split)
qed

lemma a_find_a_put:
  assumes "ttl = 0 \<or> later - now \<le> ttl"
  shows "\<exists>e. a_find (ac_entries (a_put ac k v sz ttl now_find now)) k later = Some e
     \<and> en_value e = v \<and> en_size e = sz"
proof (cases "a_find (ac_entries ac) k now_find")
  case None
  with assms show ?thesis by (auto simp: a_put_def a_find_def Let_def a_expired_def)
next
  case (Some e)
  then have "find (has_key k) (ac_entries ac) = Some e" by (auto simp: a_find_def split: option.splits if_splits)
  from find_a_touch [OF this] Some assms show ?thesis by (auto simp: a_put_def a_find_def a_expired_def)
qed

lemma a_find_a_put_other:
  assumes "k' \<noteq> k" and "length (ac_entries ac) < unat (ac_max ac)"
  shows "a_find (ac_entries (a_put ac k v sz ttl now_find now)) k' t = a_find (ac_entries ac) k' t"
  using assms by (auto simp: a_put_def a_find_def a_make_room_def Let_def find_a_touch_other)

text \<open>
  C18: A put followed by a get of the same key, with no call in between, returns the value byte
  for byte and with its size, as long as the time to live has not passed (a TTL of 0 never
  passes): in every represented state, for new and for existing keys and under both eviction
  policies.
\<close>

theorem cache_put_then_get:
  assumes "cache_rel c ac" and "alloc_fresh c new_entry"
    and "0 < value_size" and "unat value_size \<le> length buf"
    and "ttl_ms = 0 \<or> later - now \<le> ttl_ms"
  shows "\<exists>c' c''. cache_put_with_ttl (Some c) (Some k) (Some buf) value_size ttl_ms now_find new_entry now =
           Some (SUCCESS, Some c')
     \<and> cache_get (Some c') (Some k) True True later =
           Some (SUCCESS, Some (take (unat value_size) buf), Some value_size, Some c'')"
proof -
  let ?ac = "a_put ac k (take (unat value_size) buf) value_size ttl_ms now_find now"
  obtain c' where put: "cache_put_with_ttl (Some c) (Some k) (Some buf) value_size ttl_ms now_find new_entry now =
      Some (SUCCESS, Some c')" and rel: "cache_rel c' ?ac"
    using cache_put_sim [OF assms(1-4)] by blast
  obtain e where "a_find (ac_entries ?ac) k later = Some e"
    and e: "en_value e = take (unat value_size) buf" "en_size e = value_size"
    using a_find_a_put [OF assms(5)] by blast
  then obtain ac' where "a_get ?ac k later = (Some e, ac')" by (auto simp: a_get_def)
  from cache_get_sim [OF rel this, of True True] put e show ?thesis by auto
qed

theorem cache_put_then_get_witness:
  "\<exists>c' c''. cache_put_with_ttl (Some (cache_create 1 EVICTION_LRU)) (Some ''k'') (Some [7, 8, 9]) 2 50 5 1 6 =
       Some (SUCCESS, Some c')
     \<and> cache_get (Some c') (Some ''k'') True True 40 = Some (SUCCESS, Some [7, 8], Some 2, Some c'')"
  using cache_put_then_get [OF cache_create_sim [of 1 EVICTION_LRU], of 1 2 "[7, 8, 9]" 50 40 6 "''k''" 5]
  by (simp add: alloc_fresh_def evict_room cache_create_def)

text \<open>
  A put does not disturb other keys: while the cache has room, whether any other key can be
  found at any time is the same before and after the put.
\<close>

theorem cache_put_frame:
  assumes "cache_rel c ac" and "alloc_fresh c new_entry"
    and "0 < value_size" and "unat value_size \<le> length buf"
    and "ch_size c < ch_max_size c" and "k' \<noteq> k"
  shows "\<exists>c'. cache_put_with_ttl (Some c) (Some k) (Some buf) value_size ttl_ms now_find new_entry now =
           Some (SUCCESS, Some c')
     \<and> cache_exists (Some c') (Some k') t = cache_exists (Some c) (Some k') t"
proof -
  have room: "length (ac_entries ac) < unat (ac_max ac)"
    using assms(1,5) shape_size by (auto simp: word_less_nat_alt elim!: cache_relE)
  show ?thesis
    using cache_put_sim [OF assms(1-4)] a_find_a_put_other [OF assms(6) room]
    by (metis assms(1) cache_exists_sim)
qed

theorem cache_put_frame_witness:
  "\<exists>c'. cache_put_with_ttl (Some (cache_create 1 EVICTION_LFU)) (Some ''k'') (Some [7]) 1 0 5 1 6 =
       Some (SUCCESS, Some c')
     \<and> cache_exists (Some c') (Some ''other'') 9 = cache_exists (Some (cache_create 1 EVICTION_LFU)) (Some ''other'') 9"
  using cache_put_frame [OF cache_create_sim [of 1 EVICTION_LFU], of 1 1 "[7]" "''other''" "''k''" 0 5 6 9]
  by (simp add: alloc_fresh_def evict_room cache_create_def)

section \<open>Eviction and expiry\<close>

lemma cache_put_full:
  assumes "cache_rel c ac" and "alloc_fresh c new_entry"
    and "0 < value_size" and "unat value_size \<le> length buf"
    and "ch_size c = ch_max_size c" and "a_find (ac_entries ac) k now_find = None"
  shows "\<exists>c'. cache_put_with_ttl (Some c) (Some k) (Some buf) value_size ttl_ms now_find new_entry now =
           Some (SUCCESS, Some c')
     \<and> cache_rel c' (ac\<lparr>ac_entries := \<lparr>en_key = k, en_value = take (unat value_size) buf,
           en_size = value_size, en_timestamp = now, en_ttl = ttl_ms, en_count = 0\<rparr>
             # a_evict (ac_policy ac) (ac_entries ac), ac_evictions := ac_evictions ac + 1\<rparr>)"
proof -
  have "length (ac_entries ac) = unat (ac_max ac)"
    using assms(1,5) by (auto simp: shape_size [symmetric] elim!: cache_relE)
  then have eq: "a_put ac k v value_size ttl_ms now_find now =
      ac\<lparr>ac_entries := \<lparr>en_key = k, en_value = v, en_size = value_size, en_timestamp = now,
          en_ttl = ttl_ms, en_count = 0\<rparr> # a_evict (ac_policy ac) (ac_entries ac),
        ac_evictions := ac_evictions ac + 1\<rparr>" for v
    using assms(6) by (simp add: a_put_def a_make_room_def Let_def)
  from cache_put_sim [OF assms(1-4), of k ttl_ms now_find now] show ?thesis unfolding eq .
qed

text \<open>
  C27: Under LRU, putting a new key into a full cache evicts exactly the least recently used
  entry, the last of the recency list, puts the new entry in front, keeps every other entry in
  its order and counts one eviction.
\<close>

theorem cache_put_evicts_lru:
  assumes "cache_rel c ac" and "alloc_fresh c new_entry"
    and "0 < value_size" and "unat value_size \<le> length buf"
    and "ch_size c = ch_max_size c" and "a_find (ac_entries ac) k now_find = None"
    and "ac_policy ac = EVICTION_LRU"
  shows "\<exists>c'. cache_put_with_ttl (Some c) (Some k) (Some buf) value_size ttl_ms now_find new_entry now =
           Some (SUCCESS, Some c')
     \<and> cache_rel c' (ac\<lparr>ac_entries := \<lparr>en_key = k, en_value = take (unat value_size) buf,
           en_size = value_size, en_timestamp = now, en_ttl = ttl_ms, en_count = 0\<rparr>
             # butlast (ac_entries ac), ac_evictions := ac_evictions ac + 1\<rparr>)"
  using cache_put_full [OF assms(1-6)] assms(7) by (simp add: a_evict_def)

definition full_cache :: "eviction_policy_t \<Rightarrow> cache_t" where
  "full_cache policy =
     the (run cache_exec (cache_create 2 policy)
       [Cache_Put ''a'' [1] 1 0 0 1 10, Cache_Put ''b'' [2] 1 0 11 2 11, Cache_Get ''a'' 12])"

definition full_acache :: "eviction_policy_t \<Rightarrow> acache" where
  "full_acache policy =
     foldl acache_exec (a_create 2 policy)
       [Cache_Put ''a'' [1] 1 0 0 1 10, Cache_Put ''b'' [2] 1 0 11 2 11, Cache_Get ''a'' 12]"

lemma full_cache_rel: "cache_rel (full_cache policy) (full_acache policy)"
proof -
  let ?ops = "[Cache_Put ''a'' [1] 1 0 0 1 10, Cache_Put ''b'' [2] 1 0 11 2 11, Cache_Get ''a'' 12]"
  have "run_ok cache_exec cache_pre (cache_create 2 EVICTION_LRU) ?ops"
    "run_ok cache_exec cache_pre (cache_create 2 EVICTION_LFU) ?ops"
    by code_simp+
  then have "run_ok cache_exec cache_pre (cache_create 2 policy) ?ops" by (cases policy) iprover+
  then have "\<exists>c. run cache_exec (cache_create 2 policy) ?ops = Some c
     \<and> cache_rel c (foldl acache_exec (a_create 2 policy) ?ops)"
    by (intro cache_ref.run_refines cache_create_sim) auto
  then show ?thesis by (auto simp: full_cache_def full_acache_def)
qed

lemma full_cache_facts:
  "alloc_fresh (full_cache EVICTION_LRU) 9" "alloc_fresh (full_cache EVICTION_LFU) 9"
  "ch_size (full_cache EVICTION_LRU) = ch_max_size (full_cache EVICTION_LRU)"
  "ch_size (full_cache EVICTION_LFU) = ch_max_size (full_cache EVICTION_LFU)"
  "a_find (ac_entries (full_acache EVICTION_LRU)) ''c'' 20 = None"
  "a_find (ac_entries (full_acache EVICTION_LFU)) ''c'' 20 = None"
  "ac_policy (full_acache EVICTION_LRU) = EVICTION_LRU" "ac_policy (full_acache EVICTION_LFU) = EVICTION_LFU"
  "map en_key (ac_entries (full_acache EVICTION_LRU)) = [''a'', ''b'']"
  "map en_key (ac_entries (full_acache EVICTION_LFU)) = [''b'', ''a'']"
  by code_simp+

theorem cache_put_evicts_lru_witness:
  "\<exists>c'. cache_put_with_ttl (Some (full_cache EVICTION_LRU)) (Some ''c'') (Some [3, 4]) 1 0 20 9 21 =
       Some (SUCCESS, Some c')
     \<and> cache_rel c' ((full_acache EVICTION_LRU)\<lparr>ac_entries := \<lparr>en_key = ''c'', en_value = [3],
           en_size = 1, en_timestamp = 21, en_ttl = 0, en_count = 0\<rparr>
             # butlast (ac_entries (full_acache EVICTION_LRU)),
           ac_evictions := ac_evictions (full_acache EVICTION_LRU) + 1\<rparr>)"
  using cache_put_evicts_lru [OF full_cache_rel full_cache_facts(1) _ _ full_cache_facts(3,5,7),
      of 1 "[3, 4]" 0 21]
  by simp

text \<open>
  C28: Under LFU, putting a new key into a full cache evicts an entry with the smallest access
  count, the most recently inserted one among equals, and keeps every other entry in its order.
\<close>

theorem cache_put_evicts_lfu:
  assumes "cache_rel c ac" and "alloc_fresh c new_entry"
    and "0 < value_size" and "unat value_size \<le> length buf"
    and "ch_size c = ch_max_size c" and "a_find (ac_entries ac) k now_find = None"
    and "ac_policy ac = EVICTION_LFU"
  shows "\<exists>c' xs v ys. cache_put_with_ttl (Some c) (Some k) (Some buf) value_size ttl_ms now_find new_entry now =
           Some (SUCCESS, Some c')
     \<and> ac_entries ac = xs @ v # ys
     \<and> list_all (\<lambda>e. en_count v < en_count e) xs \<and> list_all (\<lambda>e. en_count v \<le> en_count e) ys
     \<and> cache_rel c' (ac\<lparr>ac_entries := \<lparr>en_key = k, en_value = take (unat value_size) buf,
           en_size = value_size, en_timestamp = now, en_ttl = ttl_ms, en_count = 0\<rparr> # xs @ ys,
           ac_evictions := ac_evictions ac + 1\<rparr>)"
proof -
  have "ac_entries ac \<noteq> []"
    using assms(1,5) by (auto simp: cache_shape_def elim!: cache_relE)
  then obtain a l where al: "ac_entries ac = a # l" by (cases "ac_entries ac") auto
  obtain xs ys where split: "a # l = xs @ scan_min en_count a l # ys"
    and less: "\<forall>x \<in> set xs. en_count (scan_min en_count a l) < en_count x"
    and le: "\<forall>y \<in> set ys. en_count (scan_min en_count a l) \<le> en_count y"
    by (rule scan_min_first)
  have "a_evict EVICTION_LFU (ac_entries ac) = xs @ ys"
    using remove_first_min [of xs en_count, OF less le] split al by (simp add: a_evict_def)
  with cache_put_full [OF assms(1-6), of ttl_ms now] assms(7) obtain c' where
    "cache_put_with_ttl (Some c) (Some k) (Some buf) value_size ttl_ms now_find new_entry now =
       Some (SUCCESS, Some c')"
    "cache_rel c' (ac\<lparr>ac_entries := \<lparr>en_key = k, en_value = take (unat value_size) buf,
       en_size = value_size, en_timestamp = now, en_ttl = ttl_ms, en_count = 0\<rparr> # xs @ ys,
       ac_evictions := ac_evictions ac + 1\<rparr>)"
    by auto
  moreover have "ac_entries ac = xs @ scan_min en_count a l # ys" using split al by simp
  ultimately show ?thesis using less le
    by - (rule exI [of _ c'], rule exI [of _ xs], rule exI [of _ "scan_min en_count a l"],
        rule exI [of _ ys], simp add: list_all_iff)
qed

theorem cache_put_evicts_lfu_witness:
  "\<exists>c' xs v ys. cache_put_with_ttl (Some (full_cache EVICTION_LFU)) (Some ''c'') (Some [3]) 1 0 20 9 21 =
       Some (SUCCESS, Some c')
     \<and> ac_entries (full_acache EVICTION_LFU) = xs @ v # ys
     \<and> list_all (\<lambda>e. en_count v < en_count e) xs \<and> list_all (\<lambda>e. en_count v \<le> en_count e) ys
     \<and> cache_rel c' ((full_acache EVICTION_LFU)\<lparr>ac_entries := \<lparr>en_key = ''c'', en_value = [3],
           en_size = 1, en_timestamp = 21, en_ttl = 0, en_count = 0\<rparr> # xs @ ys,
           ac_evictions := ac_evictions (full_acache EVICTION_LFU) + 1\<rparr>)"
  using cache_put_evicts_lfu [OF full_cache_rel full_cache_facts(2) _ _ full_cache_facts(4,6,8),
      of 1 "[3]" 0 21]
  by simp

text \<open>
  When the first entry of a key is past its time to live, get answers NOT_FOUND, counts a
  miss and leaves the entries as they are; in particular the expired entry stays allocated.
\<close>

theorem cache_get_expired:
  assumes "cache_rel c ac" and "find (has_key k) (ac_entries ac) = Some e" and "a_expired now e"
  shows "\<exists>c'. cache_get (Some c) (Some k) want_value want_size now =
           Some (ERROR_NOT_FOUND, None, None, Some c')
     \<and> cache_rel c' (ac\<lparr>ac_misses := ac_misses ac + 1\<rparr>) \<and> ch_heap c' = ch_heap c"
proof -
  have none: "a_find (ac_entries ac) k now = None" using assms by (simp add: a_find_def)
  then have get: "a_get ac k now = (None, ac\<lparr>ac_misses := ac_misses ac + 1\<rparr>)" by (simp add: a_get_def)
  from assms(1) obtain as cs where shape: "cache_shape c as cs" and "ac = abs_cache c as"
    by (rule cache_relE)
  with none find_entry_shape [OF shape, of k now] have "find_entry c k now = Some None" by auto
  with cache_get_sim [OF assms(1) get, of want_value want_size] show ?thesis
    by (auto simp: cache_get_def)
qed

theorem cache_get_expired_witness:
  "\<exists>c c' ac. cache_put_with_ttl (Some (cache_create 2 EVICTION_LRU)) (Some ''k'') (Some [1]) 1 5 0 1 10 =
       Some (SUCCESS, Some c)
     \<and> cache_get (Some c) (Some ''k'') True True 20 = Some (ERROR_NOT_FOUND, None, None, Some c')
     \<and> cache_rel c' ac \<and> ch_heap c' = ch_heap c"
proof -
  have "alloc_fresh (cache_create 2 EVICTION_LRU) 1" by code_simp
  from cache_put_sim [OF cache_create_sim this, of 1 "[1]" "''k''" 5 0 10] obtain c where
    put: "cache_put_with_ttl (Some (cache_create 2 EVICTION_LRU)) (Some ''k'') (Some [1]) 1 5 0 1 10 =
       Some (SUCCESS, Some c)"
    and rel: "cache_rel c (a_put (a_create 2 EVICTION_LRU) ''k'' [1] 1 5 0 10)" by auto
  have "find (has_key ''k'') (ac_entries (a_put (a_create 2 EVICTION_LRU) ''k'' [1] 1 5 0 10)) =
      Some \<lparr>en_key = ''k'', en_value = [1], en_size = 1, en_timestamp = 10, en_ttl = 5, en_count = 0\<rparr>"
    by (simp add: a_put_def a_find_def a_create_def a_make_room_def Let_def)
  from cache_get_expired [OF rel this, where now = 20] put show ?thesis
    by (simp add: a_expired_def) blast
qed

lemma find_remove_first_distinct:
  "distinct (map en_key l) \<Longrightarrow> find (has_key k) (remove_first (has_key k) l) = None"
  unfolding find_None
  by (induction l) (simp, simp split: if_split del: remove_first_none, metis image_eqI)

lemma find_remove_first_other:
  "k' \<noteq> k \<Longrightarrow> find (has_key k') (remove_first (has_key k) l) = find (has_key k') l"
  by (induction l) simp_all

text \<open>
  Deleting a key that can be found succeeds; when no stale duplicate of the key is left
  in the cache the key cannot be found afterwards at any time; lookups of all other keys are
  unchanged.
\<close>

theorem cache_delete_removes:
  assumes "cache_rel c ac" and "distinct (map en_key (ac_entries ac))"
    and "cache_exists (Some c) (Some k) now = Some True"
  shows "\<exists>c'. cache_delete (Some c) (Some k) now = Some (SUCCESS, Some c')
     \<and> cache_exists (Some c') (Some k) later = Some False
     \<and> (k' = k \<or> cache_exists (Some c') (Some k') later = cache_exists (Some c) (Some k') later)"
proof -
  let ?ac = "ac\<lparr>ac_entries := remove_first (has_key k) (ac_entries ac)\<rparr>"
  have "a_find (ac_entries ac) k now \<noteq> None" using assms(1,3) cache_exists_sim by auto
  then have "a_delete ac k now = (True, ?ac)" by (auto simp: a_delete_def)
  from cache_delete_sim [OF assms(1) this] obtain c' where
    c': "cache_delete (Some c) (Some k) now = Some (SUCCESS, Some c')" and rel: "cache_rel c' ?ac" by auto
  have "a_find (ac_entries ?ac) k later = None"
    "k' \<noteq> k \<Longrightarrow> a_find (ac_entries ?ac) k' later = a_find (ac_entries ac) k' later"
    using assms(2) by (auto simp: a_find_def find_remove_first_distinct find_remove_first_other)
  with c' cache_exists_sim [OF rel] cache_exists_sim [OF assms(1)] show ?thesis
    by (cases "k' = k") simp_all
qed

theorem cache_delete_removes_witness:
  "\<exists>c'. cache_delete (Some (full_cache EVICTION_LRU)) (Some ''a'') 30 = Some (SUCCESS, Some c')
     \<and> cache_exists (Some c') (Some ''a'') 31 = Some False
     \<and> (''b'' = ''a'' \<or> cache_exists (Some c') (Some ''b'') 31 =
          cache_exists (Some (full_cache EVICTION_LRU)) (Some ''b'') 31)"
proof (rule cache_delete_removes [OF full_cache_rel])
  show "distinct (map en_key (ac_entries (full_acache EVICTION_LRU)))" by (simp add: full_cache_facts)
  show "cache_exists (Some (full_cache EVICTION_LRU)) (Some ''a'') 30 = Some True"
    unfolding cache_exists_sim [OF full_cache_rel] by code_simp
qed

text \<open>
  C36: Destroying a cache frees every entry: the walk over the recency list reaches all of them
  (none is only on a hash chain), frees each exactly once and never reads a freed entry.
\<close>

theorem cache_destroy_releases_all:
  assumes "cache_rel c ac"
  shows "cache_destroy (Some c) = Some Map.empty"
  using cache_clear_sim [OF assms] by (auto simp: cache_destroy_def)

theorem cache_destroy_releases_all_witness:
  "cache_destroy (Some (full_cache EVICTION_LFU)) = Some Map.empty"
  by (rule cache_destroy_releases_all [OF full_cache_rel])

text \<open>
  A cache created with capacity 0 is accepted by the constructor but every put of a value,
  get, delete or lookup on it is undefined behaviour, a division by zero in the bucket index.
\<close>

theorem cache_zero_capacity_undefined:
  "cache_get (Some (cache_create 0 policy)) (Some k) want_value want_size now = None
   \<and> cache_delete (Some (cache_create 0 policy)) (Some k) now = None
   \<and> cache_exists (Some (cache_create 0 policy)) (Some k) now = None
   \<and> (value_size = 0 \<or>
      cache_put_with_ttl (Some (cache_create 0 policy)) (Some k) (Some buf) value_size ttl_ms now_find new_entry now
        = None)"
  by (simp add: cache_get_def cache_delete_def cache_exists_def cache_put_with_ttl_def find_entry_def
      cache_bucket_def cache_create_def)

end
