(* ===== verification/Cache_Inclusion.thy ===== *)
theory Cache_Inclusion
  imports Cache_Correct "HOL-Library.Sublist"
begin

text \<open>
  Two caches of different capacity under the same calls. With least-recently-used eviction and no
  times to live the larger cache always holds what the smaller one holds; with
  least-frequently-used eviction it need not. Both caches are the code of \<^verbatim>\<open>src/cache/cache.c\<close>; the
  comparison is made on their list specifications and carried over by the refinement.
\<close>

section \<open>Calls\<close>

text \<open>
  Two programs make the same calls when they differ at most in the addresses their allocators return.
\<close>

fun forget_addr :: "cache_op \<Rightarrow> cache_op" where
  "forget_addr (Cache_Put k buf value_size ttl_ms now_find new_entry now) =
     Cache_Put k buf value_size ttl_ms now_find 0 now"
| "forget_addr x = x"

fun no_ttl :: "cache_op \<Rightarrow> bool" where
  "no_ttl (Cache_Put k buf value_size ttl_ms now_find new_entry now) \<longleftrightarrow> ttl_ms = 0"
| "no_ttl x \<longleftrightarrow> True"

section \<open>Lists of entries\<close>

lemma subseq_butlast: "subseq xs ys \<Longrightarrow> subseq (butlast xs) (butlast ys)"
proof (cases ys rule: rev_cases)
  case (snoc zs y)
  assume "subseq xs ys"
  with snoc obtain us vs where "xs = us @ vs" "subseq us zs" "subseq vs [y]"
    by (auto simp: subseq_append_iff)
  moreover have "subseq (butlast us) us" by (metis prefix_imp_subseq prefixeq_butlast)
  ultimately show ?thesis
    using snoc by (cases vs) (auto simp: butlast_append intro: subseq_order.trans split: if_splits)
qed (auto dest: list_emb_Nil2)

lemma subseq_butlast_left: "subseq xs ys \<Longrightarrow> subseq (butlast xs) ys"
  by (metis prefix_imp_subseq prefixeq_butlast subseq_order.trans)

text \<open>The data of an entry, without the access counter that differs between the two caches.\<close>

definition content :: "centry \<Rightarrow> centry" where
  "content e = e\<lparr>en_count := 0\<rparr>"

lemma content_sel [simp]:
  "en_key (content e) = en_key e" "en_value (content e) = en_value e" "en_size (content e) = en_size e"
  "en_ttl (content e) = en_ttl e" "en_timestamp (content e) = en_timestamp e"
  by (simp_all add: content_def)

abbreviation without :: "cstr \<Rightarrow> centry list \<Rightarrow> centry list" where
  "without k \<equiv> filter (\<lambda>e. en_key e \<noteq> k)"

lemma without_absent: "k \<notin> en_key ` set l \<Longrightarrow> without k l = l"
  by (rule filter_True) force

lemma remove_first_without: "distinct (map en_key l) \<Longrightarrow> remove_first (has_key k) l = without k l"
  by (induction l) (auto simp: without_absent)

lemma map_content_without: "map content (without k l) = filter (\<lambda>e. en_key e \<noteq> k) (map content l)"
  by (simp add: filter_map comp_def)

lemma find_without: "find (has_key k) l = None \<Longrightarrow> without k l = l"
  by (auto simp: find_None_iff intro: filter_True)

lemma length_without:
  "distinct (map en_key l) \<Longrightarrow> find (has_key k) l = Some e \<Longrightarrow> Suc (length (without k l)) = length l"
  by (induction l) (auto simp: without_absent split: if_splits)

section \<open>The inclusion relation\<close>

text \<open>
  The entries of the smaller cache are a subsequence of those of the larger one, in the same order
  of recency, and the larger one has at most as many more entries as it has more room.
\<close>

definition lists_incl :: "nat \<Rightarrow> nat \<Rightarrow> centry list \<Rightarrow> centry list \<Rightarrow> bool" where
  "lists_incl m n xs ys \<longleftrightarrow>
     subseq (map content xs) (map content ys) \<and> distinct (map en_key ys) \<and> list_all (\<lambda>e. en_ttl e = 0) ys
   \<and> length ys + m \<le> length xs + n"

lemma incl_keys: "subseq (map content xs) (map content ys) \<Longrightarrow> subseq (map en_key xs) (map en_key ys)"
  using subseq_map [of "map content xs" "map content ys" en_key] by (simp add: comp_def)

lemma subseq_distinct: "subseq xs ys \<Longrightarrow> distinct ys \<Longrightarrow> distinct xs"
  unfolding subseq_conv_nths by (auto intro: distinct_nthsI)

lemma incl_small:
  assumes "lists_incl m n xs ys"
  shows "distinct (map en_key xs)" and "list_all (\<lambda>e. en_ttl e = 0) xs"
proof -
  have sub: "subseq (map content xs) (map content ys)" using assms by (simp add: lists_incl_def)
  then show "distinct (map en_key xs)"
    using assms incl_keys subseq_distinct by (auto simp: lists_incl_def)
  have "\<exists>y \<in> set ys. content x = content y" if "x \<in> set xs" for x
    using list_emb_set [OF sub, of "content x"] that by auto
  then show "list_all (\<lambda>e. en_ttl e = 0) xs"
    using assms content_sel(4) unfolding lists_incl_def list_all_iff by metis
qed


lemma incl_cons:
  assumes "lists_incl m n xs ys" and "en_key b \<notin> en_key ` set ys" and "content a = content b" and "en_ttl b = 0"
  shows "lists_incl m n (a # xs) (b # ys)"
  using assms by (auto simp: lists_incl_def)

lemma incl_without:
  "subseq (map content xs) (map content ys) \<Longrightarrow> subseq (map content (without k xs)) (map content (without k ys))"
  unfolding map_content_without by (rule subseq_filter)

lemma incl_find:
  assumes "lists_incl m n xs ys" and "find (has_key k) xs = Some e"
  shows "\<exists>e'. find (has_key k) ys = Some e' \<and> content e' = content e"
proof -
  have "e \<in> set xs" "en_key e = k" using assms(2) by (auto simp: find_Some_iff)
  then obtain y where y: "y \<in> set ys" "content e = content y"
    using assms(1) list_emb_set [of "(=)" "map content xs" "map content ys" "content e"]
    by (auto simp: lists_incl_def)
  then have "en_key y = k" using \<open>en_key e = k\<close> by (metis content_sel(1))
  moreover have "find (has_key (en_key y)) ys = Some y" if "distinct (map en_key ys)"
    using that y(1) by (induction ys) auto
  ultimately show ?thesis using assms(1) y(2) by (auto simp: lists_incl_def)
qed

lemma a_find_no_ttl: "list_all (\<lambda>e. en_ttl e = 0) l \<Longrightarrow> a_find l k now = find (has_key k) l"
  by (induction l) (auto simp: a_find_def a_expired_def)

lemma incl_a_find:
  assumes "lists_incl m n xs ys"
  shows "a_find xs k now = find (has_key k) xs" and "a_find ys k now = find (has_key k) ys"
  using assms incl_small(2) [OF assms] by (simp_all add: a_find_no_ttl lists_incl_def)

text \<open>A key is found in both caches, in the larger one only, or in neither.\<close>

lemma incl_cases [consumes 1, case_names both larger neither]:
  assumes "lists_incl m n xs ys"
  obtains e e' where "find (has_key k) xs = Some e" "find (has_key k) ys = Some e'" "content e' = content e"
  | e' where "find (has_key k) xs = None" "find (has_key k) ys = Some e'"
  | "find (has_key k) xs = None" "find (has_key k) ys = None"
  using incl_find [OF assms, of k] by (cases "find (has_key k) xs"; cases "find (has_key k) ys") auto

lemma incl_remove:
  assumes "lists_incl m n xs ys"
  shows "lists_incl m n (remove_first (has_key k) xs) (remove_first (has_key k) ys)"
proof -
  have eq: "remove_first (has_key k) xs = without k xs" "remove_first (has_key k) ys = without k ys"
    using assms incl_small(1) [OF assms] by (simp_all add: remove_first_without lists_incl_def)
  have len: "length (without k ys) + m \<le> length (without k xs) + n"
    using assms
  proof (cases rule: incl_cases [where k = k])
    case (both e e')
    with assms length_without [of xs k e] length_without [of ys k e'] incl_small(1) [OF assms] show ?thesis
      by (auto simp: lists_incl_def)
  next
    case (larger e')
    with assms length_without [of ys k e'] show ?thesis by (auto simp: lists_incl_def find_without)
  next
    case neither
    with assms show ?thesis by (auto simp: lists_incl_def find_without)
  qed
  show ?thesis
    unfolding eq using assms incl_without [of xs ys k] len
    by (auto simp: lists_incl_def list_all_iff distinct_map_filter)
qed


section \<open>Least recently used\<close>

definition room :: "nat \<Rightarrow> centry list \<Rightarrow> centry list" where
  "room m xs = (if length xs < m then xs else butlast xs)"

lemma incl_length: "lists_incl m n xs ys \<Longrightarrow> length xs \<le> length ys"
  using list_emb_length [of "(=)" "map content xs" "map content ys"] by (simp add: lists_incl_def)

lemma incl_room:
  assumes "lists_incl m n xs ys" and "0 < m"
  shows "lists_incl m n (room m xs) (room n ys)"
proof -
  have sub: "subseq (map content xs) (map content ys)" using assms(1) by (simp add: lists_incl_def)
  have "subseq (map content (room m xs)) (map content (room n ys))"
    using sub assms subseq_butlast [OF sub] subseq_butlast_left [OF sub]
    by (auto simp: room_def lists_incl_def map_butlast)
  then show ?thesis
    using assms incl_length [OF assms(1)]
    by (auto simp: room_def lists_incl_def list_all_iff map_butlast distinct_butlast dest: in_set_butlastD)
qed

lemma incl_room_left:
  assumes "lists_incl m n xs ys" and "0 < m" and "find (has_key k) xs = None" and "find (has_key k) ys = Some e"
  shows "lists_incl m n (room m xs) (remove_first (has_key k) ys)"
proof -
  have rem: "lists_incl m n xs (remove_first (has_key k) ys)"
    using incl_remove [OF assms(1), of k] assms(3) by (simp add: find_None_iff)
  have "\<exists>x \<in> set ys. has_key k x" using assms(4) by (auto dest!: find_Some_in)
  then have "length (remove_first (has_key k) ys) = length ys - 1" "ys \<noteq> []"
    by (auto simp: length_remove_first)
  with rem assms(1,2) subseq_butlast_left [of "map content xs" "map content (remove_first (has_key k) ys)"] show ?thesis
    by (cases ys) (auto simp: room_def lists_incl_def map_butlast)
qed

lemma removed_key: "lists_incl m n xs ys \<Longrightarrow> k \<notin> en_key ` set (remove_first (has_key k) ys)"
  by (auto simp: lists_incl_def remove_first_without)

definition caches_incl :: "acache \<Rightarrow> acache \<Rightarrow> bool" where
  "caches_incl ac bc \<longleftrightarrow>
     ac_policy ac = EVICTION_LRU \<and> ac_policy bc = EVICTION_LRU \<and> 0 < ac_max ac
   \<and> lists_incl (unat (ac_max ac)) (unat (ac_max bc)) (ac_entries ac) (ac_entries bc)"

lemma a_touch_lru: "find (has_key k) l = Some e \<Longrightarrow> a_touch EVICTION_LRU k f l = f e # remove_first (has_key k) l"
  by (simp add: a_touch_def)

lemma make_room_lru:
  "ac_policy ac = EVICTION_LRU \<Longrightarrow> ac_entries (a_make_room ac) = room (unat (ac_max ac)) (ac_entries ac)"
  by (simp add: a_make_room_def a_evict_def room_def)

lemma make_room_keeps [simp]: "ac_policy (a_make_room ac) = ac_policy ac" "ac_max (a_make_room ac) = ac_max ac"
  "ac_hits (a_make_room ac) = ac_hits ac"
  by (simp_all add: a_make_room_def)

lemma content_count: "content (e\<lparr>en_count := c\<rparr>) = content e"
  by (simp add: content_def)


lemma find_key: "find (has_key k) l = Some e \<Longrightarrow> en_key e = k \<and> e \<in> set l"
  by (auto dest: find_Some_in)

text \<open>Entries with the same data come to the front of both lists.\<close>

lemma incl_front:
  assumes "lists_incl m n xs ys" and "lists_incl m n xs' (remove_first (has_key k) ys)"
    and "en_key b = k" and "content a = content b" and "en_ttl b = 0"
  shows "lists_incl m n (a # xs') (b # remove_first (has_key k) ys)"
  by (rule incl_cons [OF assms(2) _ assms(4,5)]) (use removed_key [OF assms(1)] assms(3) in auto)

lemma incl_ttl: "lists_incl m n xs ys \<Longrightarrow> find (has_key k) ys = Some e \<Longrightarrow> en_ttl e = 0"
  by (auto simp: lists_incl_def list_all_iff dest!: find_Some_in)

lemma acache_exec_policy: "ac_policy (acache_exec ac x) = ac_policy ac"
  by (cases x) (auto simp: a_put_def a_get_def a_delete_def Let_def split: option.split)

definition put_entry :: "cstr \<Rightarrow> bytes \<Rightarrow> u64 \<Rightarrow> u64 \<Rightarrow> u64 \<Rightarrow> centry" where
  "put_entry k v sz now n = \<lparr>en_key = k, en_value = v, en_size = sz, en_timestamp = now, en_ttl = 0, en_count = n\<rparr>"

lemma put_entry_sel [simp]: "en_key (put_entry k v sz now n) = k" "en_ttl (put_entry k v sz now n) = 0"
  "content (put_entry k v sz now n) = put_entry k v sz now 0"
  by (simp_all add: put_entry_def content_def)

lemma put_found:
  assumes "ac_policy ac = EVICTION_LRU" and "a_find (ac_entries ac) k now_find = Some e"
  shows "ac_entries (a_put ac k v sz 0 now_find now) =
    put_entry k v sz now (en_count e) # remove_first (has_key k) (ac_entries ac)"
proof -
  have "find (has_key k) (ac_entries ac) = Some e" "en_key e = k"
    using assms(2) by (auto simp: a_find_def split: option.splits if_splits dest: find_key)
  with assms show ?thesis by (simp add: a_put_def a_touch_lru put_entry_def)
qed

lemma put_missing:
  assumes "ac_policy ac = EVICTION_LRU" and "a_find (ac_entries ac) k now_find = None"
  shows "ac_entries (a_put ac k v sz 0 now_find now) =
    put_entry k v sz now 0 # room (unat (ac_max ac)) (ac_entries ac)"
  using assms by (simp add: a_put_def Let_def make_room_lru put_entry_def)

lemma incl_put:
  assumes pol: "ac_policy ac = EVICTION_LRU" "ac_policy bc = EVICTION_LRU" and m: "0 < unat (ac_max ac)"
    and incl: "lists_incl (unat (ac_max ac)) (unat (ac_max bc)) (ac_entries ac) (ac_entries bc)"
  shows "lists_incl (unat (ac_max ac)) (unat (ac_max bc))
    (ac_entries (a_put ac k v sz 0 now_find now)) (ac_entries (a_put bc k v sz 0 now_find now))"
  using incl
proof (cases rule: incl_cases [where k = k])
  case (both e e')
  with pol incl_front [OF incl incl_remove [OF incl]] show ?thesis
    by (simp add: put_found incl_a_find [OF incl])
next
  case (larger e')
  with pol incl_front [OF incl incl_room_left [OF incl m]] show ?thesis
    by (simp add: put_found put_missing incl_a_find [OF incl])
next
  case neither
  have "k \<notin> en_key ` set (room (unat (ac_max bc)) (ac_entries bc))"
    using neither(2) by (auto simp: room_def find_None_iff dest!: in_set_butlastD)
  with neither pol incl_cons [OF incl_room [OF incl m]] show ?thesis
    by (simp add: put_missing incl_a_find [OF incl])
qed

lemma get_found:
  assumes "ac_policy ac = EVICTION_LRU" and "a_find (ac_entries ac) k now = Some e"
  shows "ac_entries (snd (a_get ac k now)) =
    e\<lparr>en_count := en_count e + 1\<rparr> # remove_first (has_key k) (ac_entries ac)"
proof -
  have "find (has_key k) (ac_entries ac) = Some e"
    using assms(2) by (auto simp: a_find_def split: option.splits if_splits)
  with assms show ?thesis by (simp add: a_get_def a_touch_lru)
qed

lemma get_missing: "a_find (ac_entries ac) k now = None \<Longrightarrow> ac_entries (snd (a_get ac k now)) = ac_entries ac"
  by (simp add: a_get_def)

lemma incl_get:
  assumes pol: "ac_policy ac = EVICTION_LRU" "ac_policy bc = EVICTION_LRU"
    and incl: "lists_incl m n (ac_entries ac) (ac_entries bc)"
  shows "lists_incl m n (ac_entries (snd (a_get ac k now))) (ac_entries (snd (a_get bc k now)))"
  using incl
proof (cases rule: incl_cases [where k = k])
  case (both e e')
  have "en_key e' = k" "en_ttl e' = 0" using find_key [OF both(2)] incl_ttl [OF incl both(2)] by auto
  then have "lists_incl m n (e\<lparr>en_count := en_count e + 1\<rparr> # remove_first (has_key k) (ac_entries ac))
      (e'\<lparr>en_count := en_count e' + 1\<rparr> # remove_first (has_key k) (ac_entries bc))"
    using both(3) by (intro incl_front [OF incl incl_remove [OF incl]]) (simp_all add: content_count)
  with both pol show ?thesis by (simp add: get_found incl_a_find [OF incl])
next
  case (larger e')
  have e': "en_key e' = k" "en_ttl e' = 0" "\<exists>x \<in> set (ac_entries bc). has_key k x"
    using find_key [OF larger(2)] incl_ttl [OF incl larger(2)] by auto
  have rem: "lists_incl m n (ac_entries ac) (remove_first (has_key k) (ac_entries bc))"
    using incl_remove [OF incl, of k] larger(1) by (simp add: find_None_iff)
  have "length (ac_entries bc) = Suc (length (remove_first (has_key k) (ac_entries bc)))"
    using e'(3) length_pos_if_in_set [of _ "ac_entries bc"] by (fastforce simp: length_remove_first)
  then have "lists_incl m n (ac_entries ac)
      (e'\<lparr>en_count := en_count e' + 1\<rparr> # remove_first (has_key k) (ac_entries bc))"
    using rem incl e'(1,2) removed_key [OF incl, of k] by (auto simp: lists_incl_def)
  with larger pol show ?thesis by (simp add: get_found get_missing incl_a_find [OF incl])
next
  case neither
  with incl show ?thesis by (simp add: get_missing incl_a_find [OF incl])
qed

lemma delete_entries:
  "a_find (ac_entries ac) k now = find (has_key k) (ac_entries ac) \<Longrightarrow>
     ac_entries (snd (a_delete ac k now)) = remove_first (has_key k) (ac_entries ac)"
  by (cases "find (has_key k) (ac_entries ac)") (auto simp: a_delete_def find_None_iff)

lemma incl_exec:
  assumes "caches_incl ac bc" and "no_ttl x"
  shows "caches_incl (acache_exec ac x) (acache_exec bc x)"
proof -
  have pol: "ac_policy ac = EVICTION_LRU" "ac_policy bc = EVICTION_LRU" "0 < unat (ac_max ac)"
    and incl: "lists_incl (unat (ac_max ac)) (unat (ac_max bc)) (ac_entries ac) (ac_entries bc)"
    using assms(1) by (auto simp: caches_incl_def unat_gt_0)
  have "lists_incl (unat (ac_max ac)) (unat (ac_max bc)) (ac_entries (acache_exec ac x)) (ac_entries (acache_exec bc x))"
  proof (cases x)
    case (Cache_Put k buf value_size ttl_ms now_find new_entry now)
    with assms(2) incl_put [OF pol incl] show ?thesis by simp
  next
    case (Cache_Get k now)
    with incl_get [OF pol(1,2) incl] show ?thesis by simp
  next
    case (Cache_Delete k now)
    with incl_remove [OF incl] show ?thesis by (simp add: delete_entries incl_a_find [OF incl])
  next
    case Cache_Clear
    with incl incl_length [OF incl] show ?thesis by (simp add: lists_incl_def)
  qed
  with assms(1) show ?thesis by (simp add: caches_incl_def acache_exec_policy acache_exec_max)
qed

section \<open>Inclusion of the caches\<close>

lemma acache_exec_forget: "acache_exec ac (forget_addr x) = acache_exec ac x"
  by (cases x) simp_all

lemma foldl_forget: "foldl acache_exec ac (map forget_addr ops) = foldl acache_exec ac ops"
  by (induction ops arbitrary: ac) (simp_all add: acache_exec_forget)

lemma acache_exec_hits:
  "ac_hits (acache_exec ac x) =
     (case x of Cache_Get k now \<Rightarrow> if fst (a_get ac k now) = None then ac_hits ac else ac_hits ac + 1 | _ \<Rightarrow> ac_hits ac)"
  by (cases x) (auto simp: a_put_def a_get_def a_delete_def Let_def split: option.split)

lemma incl_hit:
  assumes "caches_incl ac bc" and "fst (a_get ac k now) = Some e"
  shows "\<exists>e'. fst (a_get bc k now) = Some e' \<and> content e' = content e"
proof -
  have incl: "lists_incl (unat (ac_max ac)) (unat (ac_max bc)) (ac_entries ac) (ac_entries bc)"
    using assms(1) by (simp add: caches_incl_def)
  have "find (has_key k) (ac_entries ac) = Some e"
    using assms(2) by (simp add: a_get_def incl_a_find [OF incl] split: option.splits)
  with incl_find [OF incl] obtain e' where "find (has_key k) (ac_entries bc) = Some e'" "content e' = content e" by blast
  then show ?thesis by (simp add: a_get_def incl_a_find [OF incl])
qed

text \<open>The larger cache has at least as many hits, as long as the counters do not wrap.\<close>

lemma incl_run:
  assumes "caches_incl ac bc" and "list_all no_ttl ops" and "unat (ac_hits ac) \<le> unat (ac_hits bc)"
    and "unat (ac_hits bc) + length ops < 2 ^ 64"
  shows "caches_incl (foldl acache_exec ac ops) (foldl acache_exec bc ops)
    \<and> unat (ac_hits (foldl acache_exec ac ops)) \<le> unat (ac_hits (foldl acache_exec bc ops))"
  using assms
proof (induction ops arbitrary: ac bc)
  case (Cons x ops)
  have suc: "unat (w + 1) = Suc (unat w)" if "unat w < unat (ac_hits bc) + 1" for w :: u64
    using that Cons.prems(4) by (subst unat_plus_simple [THEN iffD1]) (auto simp: no_olen_add_nat)
  have "unat (ac_hits (acache_exec ac x)) \<le> unat (ac_hits (acache_exec bc x))"
    "unat (ac_hits (acache_exec bc x)) \<le> Suc (unat (ac_hits bc))"
    using Cons.prems(3) suc [of "ac_hits ac"] suc [of "ac_hits bc"]
    by (auto simp: acache_exec_hits split: cache_op.split dest: incl_hit [OF Cons.prems(1)])
  with Cons.IH [OF incl_exec [OF Cons.prems(1)]] Cons.prems show ?case by simp
qed simp

lemma incl_create:
  "0 < m \<Longrightarrow> m \<le> n \<Longrightarrow> caches_incl (a_create m EVICTION_LRU) (a_create n EVICTION_LRU)"
  by (simp add: caches_incl_def lists_incl_def a_create_def word_le_nat_alt)

lemma cache_rel_hits: "cache_rel c ac \<Longrightarrow> ch_hits c = ac_hits ac"
  by (auto simp: abs_cache_def elim!: cache_relE)

text \<open>
  C8: Least-recently-used eviction has the inclusion property. When two caches of capacities
  \<open>m \<le> n\<close> receive the same calls, without times to live, every get that the smaller one answers is
  answered by the larger one too, with the same bytes, and the larger one counts at least as many hits.
\<close>

theorem cache_lru_inclusion:
  assumes "0 < m" and "m \<le> n" and "unat n < 2 ^ 63"
    and "run_ok cache_exec cache_pre (cache_create m EVICTION_LRU) ops"
    and "run_ok cache_exec cache_pre (cache_create n EVICTION_LRU) ops'"
    and "map forget_addr ops' = map forget_addr ops" and "list_all no_ttl ops" and "length ops < 2 ^ 64"
  shows "\<exists>c d. run cache_exec (cache_create m EVICTION_LRU) ops = Some c
     \<and> run cache_exec (cache_create n EVICTION_LRU) ops' = Some d
     \<and> (\<forall>k now v sz c'. cache_get (Some c) (Some k) True True now = Some (SUCCESS, v, sz, c')
          \<longrightarrow> (\<exists>d'. cache_get (Some d) (Some k) True True now = Some (SUCCESS, v, sz, d')))
     \<and> unat (ch_hits c) \<le> unat (ch_hits d)"
proof -
  let ?a = "foldl acache_exec (a_create m EVICTION_LRU) ops" and ?b = "foldl acache_exec (a_create n EVICTION_LRU) ops"
  have mn: "unat m < 2 ^ 63" "0 < n" using assms(1-3) by (auto simp: word_le_nat_alt word_less_nat_alt)
  obtain c where c: "run cache_exec (cache_create m EVICTION_LRU) ops = Some c" "cache_rel c ?a"
    using cache_ref.run_refines [OF cache_create_sim [OF assms(1) mn(1)] assms(4)] by blast
  obtain d where d: "run cache_exec (cache_create n EVICTION_LRU) ops' = Some d" "cache_rel d ?b"
    using cache_ref.run_refines [OF cache_create_sim [OF mn(2) assms(3)] assms(5)] assms(6)
    by (metis foldl_forget)
  have incl: "caches_incl ?a ?b" "unat (ac_hits ?a) \<le> unat (ac_hits ?b)"
    using incl_run [OF incl_create [OF assms(1,2)] assms(7)] assms(8) by (auto simp: a_create_def)
  have "\<exists>d'. cache_get (Some d) (Some k) True True now = Some (SUCCESS, v, sz, d')"
    if "cache_get (Some c) (Some k) True True now = Some (SUCCESS, v, sz, c')" for k now v sz c'
  proof -
    obtain r ac' where r: "a_get ?a k now = (r, ac')" by fastforce
    with cache_get_sim [OF c(2) r, of True True] that obtain e where e: "r = Some e" "v = Some (en_value e)" "sz = Some (en_size e)"
      by (auto split: if_splits)
    with incl_hit [OF incl(1), of k now e] r obtain e' bc' where e': "a_get ?b k now = (Some e', bc')" "content e' = content e"
      by (metis fst_conv prod.exhaust_sel)
    then have "en_value e' = en_value e" "en_size e' = en_size e" by (metis content_sel)+
    with cache_get_sim [OF d(2) e'(1), of True True] e show ?thesis by auto
  qed
  with c d incl(2) show ?thesis by (auto simp: cache_rel_hits)
qed

section \<open>Instances\<close>

definition lru_ops :: "addr \<Rightarrow> cache_op list" where
  "lru_ops a =
     [Cache_Put ''a'' [1] 1 0 0 a 10, Cache_Put ''b'' [2] 1 0 11 (a + 1) 11, Cache_Get ''a'' 12,
      Cache_Get ''b'' 13, Cache_Delete ''a'' 14, Cache_Put ''c'' [3, 4] 2 0 15 (a + 2) 15]"

lemma lru_ops_ok:
  "run_ok cache_exec cache_pre (cache_create 1 EVICTION_LRU) (lru_ops 1)"
  "run_ok cache_exec cache_pre (cache_create 2 EVICTION_LRU) (lru_ops 5)"
  by code_simp+

theorem cache_lru_inclusion_witness:
  "\<exists>c d. run cache_exec (cache_create 1 EVICTION_LRU) (lru_ops 1) = Some c
     \<and> run cache_exec (cache_create 2 EVICTION_LRU) (lru_ops 5) = Some d
     \<and> (\<forall>k now v sz c'. cache_get (Some c) (Some k) True True now = Some (SUCCESS, v, sz, c')
          \<longrightarrow> (\<exists>d'. cache_get (Some d) (Some k) True True now = Some (SUCCESS, v, sz, d')))
     \<and> unat (ch_hits c) \<le> unat (ch_hits d)"
  by (rule cache_lru_inclusion [OF _ _ _ lru_ops_ok]) (simp_all add: lru_ops_def)

section \<open>Least frequently used\<close>

definition lfu_ops :: "cache_op list" where
  "lfu_ops =
     [Cache_Put ''a'' [1] 1 0 0 1 10, Cache_Put ''b'' [2] 1 0 11 2 11, Cache_Put ''c'' [3] 1 0 12 3 12,
      Cache_Get ''b'' 13, Cache_Put ''b'' [2] 1 0 14 4 14, Cache_Get ''c'' 15, Cache_Put ''d'' [4] 1 0 16 5 16]"

lemma lfu_ops_ok:
  "run_ok cache_exec cache_pre (cache_create 2 EVICTION_LFU) lfu_ops"
  "run_ok cache_exec cache_pre (cache_create 3 EVICTION_LFU) lfu_ops"
  by code_simp+

lemma lfu_found:
  "a_find (ac_entries (foldl acache_exec (a_create 2 EVICTION_LFU) lfu_ops)) ''a'' 20 \<noteq> None"
  "a_find (ac_entries (foldl acache_exec (a_create 3 EVICTION_LFU) lfu_ops)) ''a'' 20 = None"
  by code_simp+

text \<open>
  Least-frequently-used eviction does not have the inclusion property. After the same seven calls
  a cache of capacity 2 still holds the key \<open>a\<close> and a cache of capacity 3 has evicted it: the two gets
  that only the larger cache answers raise the counters of the keys it keeps.
\<close>

theorem cache_lfu_no_inclusion:
  "run_ok cache_exec cache_pre (cache_create 2 EVICTION_LFU) lfu_ops
   \<and> run_ok cache_exec cache_pre (cache_create 3 EVICTION_LFU) lfu_ops
   \<and> (\<exists>c d. run cache_exec (cache_create 2 EVICTION_LFU) lfu_ops = Some c
       \<and> run cache_exec (cache_create 3 EVICTION_LFU) lfu_ops = Some d
       \<and> cache_exists (Some c) (Some ''a'') 20 = Some True \<and> cache_exists (Some d) (Some ''a'') 20 = Some False)"
proof -
  obtain c where c: "run cache_exec (cache_create 2 EVICTION_LFU) lfu_ops = Some c"
    "cache_rel c (foldl acache_exec (a_create 2 EVICTION_LFU) lfu_ops)"
    using cache_ref.run_refines [OF cache_create_sim lfu_ops_ok(1)] by auto
  obtain d where d: "run cache_exec (cache_create 3 EVICTION_LFU) lfu_ops = Some d"
    "cache_rel d (foldl acache_exec (a_create 3 EVICTION_LFU) lfu_ops)"
    using cache_ref.run_refines [OF cache_create_sim lfu_ops_ok(2)] by auto
  have "cache_exists (Some c) (Some ''a'') 20 = Some True" "cache_exists (Some d) (Some ''a'') 20 = Some False"
    using cache_exists_sim [OF c(2)] cache_exists_sim [OF d(2)] lfu_found by simp_all
  with c(1) d(1) lfu_ops_ok show ?thesis by blast
qed

end
