(* ===== verification/Hash_Table.thy ===== *)
theory Hash_Table
  imports Common
begin

text \<open>
  The chained hash table of \<^verbatim>\<open>src/database/database.c\<close> that holds the keys of a database and the
  write set of a transaction. A chain is reachable from its bucket only, so it is the list of
  its entries; the bucket array is indexed with bounds checks. \<open>ht_map\<close> is the finite map a
  table stands for, \<open>ht_wf\<close> its invariant. The laws of the table are collected in the locale
  \<open>kv_table\<close>, which the database and the recovery of the write-ahead log build on.
\<close>

section \<open>Data and operations\<close>

record hash_entry_t =
  he_key :: cstr
  he_value :: bytes
  he_value_size :: u64

record hash_table_t =
  ht_buckets :: "hash_entry_t list list"
  bucket_count :: u64
  ht_size :: u64

fun hash_string_loop :: "u32 \<Rightarrow> cstr \<Rightarrow> u32" where
  "hash_string_loop hash [] = hash"
| "hash_string_loop hash (c # str) =
     hash_string_loop ((push_bit 5 hash + hash) + word_of_int (char_to_int c)) str"

definition hash_string :: "cstr \<Rightarrow> u32" where
  "hash_string str = hash_string_loop 5381 str"

definition hash_table_create :: "u64 \<Rightarrow> hash_table_t" where
  "hash_table_create n = \<lparr>ht_buckets = replicate (unat n) [], bucket_count = n, ht_size = 0\<rparr>"

text \<open>\<open>hash_table_destroy\<close> returns the entries it frees, in the order of the two loops.\<close>

definition hash_table_destroy :: "hash_table_t option \<Rightarrow> hash_entry_t list option" where
  "hash_table_destroy table =
     (case table of
        None \<Rightarrow> Some []
      | Some t \<Rightarrow> for_each (\<lambda>i freed. do {
            chain \<leftarrow> arr_get (ht_buckets t) i;
            for_each (\<lambda>entry freed. Some (freed @ [entry])) chain freed })
          [0..<unat (bucket_count t)] [])"

definition ht_bucket :: "hash_table_t \<Rightarrow> cstr \<Rightarrow> nat option" where
  "ht_bucket t key =
     (if bucket_count t = 0 then None else Some (unat (ucast (hash_string key) mod bucket_count t)))"

text \<open>The search of \<open>hash_table_put\<close>: the chain with the entry of the key overwritten, if there is one.\<close>

fun hash_put_loop :: "cstr \<Rightarrow> bytes \<Rightarrow> u64 \<Rightarrow> hash_entry_t list \<Rightarrow> hash_entry_t list option" where
  "hash_put_loop key v value_size [] = None"
| "hash_put_loop key v value_size (entry # next) =
     (if c_strcmp (he_key entry) key = 0
      then Some (entry\<lparr>he_value := v, he_value_size := value_size\<rparr> # next)
      else map_option ((#) entry) (hash_put_loop key v value_size next))"

definition hash_table_put ::
  "hash_table_t option \<Rightarrow> cstr option \<Rightarrow> bytes \<Rightarrow> u64 \<Rightarrow> (error_code_t \<times> hash_table_t option) option" where
  "hash_table_put table key value value_size =
     (case (table, key) of
        (Some t, Some k) \<Rightarrow> do {
          bucket \<leftarrow> ht_bucket t k;
          entry \<leftarrow> arr_get (ht_buckets t) bucket;
          v \<leftarrow> memcpy_from value value_size;
          (case hash_put_loop k v value_size entry of
             Some entry' \<Rightarrow> Some (SUCCESS, Some (t\<lparr>ht_buckets := (ht_buckets t)[bucket := entry']\<rparr>))
           | None \<Rightarrow>
               Some (SUCCESS, Some (t\<lparr>ht_buckets := (ht_buckets t)[bucket :=
                   \<lparr>he_key = k, he_value = v, he_value_size = value_size\<rparr> # entry],
                 ht_size := ht_size t + 1\<rparr>))) }
      | _ \<Rightarrow> Some (ERROR_INVALID_PARAM, table))"

fun hash_get_loop :: "cstr \<Rightarrow> hash_entry_t list \<Rightarrow> hash_entry_t option" where
  "hash_get_loop key [] = None"
| "hash_get_loop key (entry # next) =
     (if c_strcmp (he_key entry) key = 0 then Some entry else hash_get_loop key next)"

definition hash_table_get ::
  "hash_table_t option \<Rightarrow> cstr option \<Rightarrow> bool \<Rightarrow> bool \<Rightarrow>
     (error_code_t \<times> bytes option \<times> u64 option) option" where
  "hash_table_get table key want_value want_size =
     (case (table, key) of
        (Some t, Some k) \<Rightarrow> do {
          bucket \<leftarrow> ht_bucket t k;
          entry \<leftarrow> arr_get (ht_buckets t) bucket;
          (case hash_get_loop k entry of
             Some e \<Rightarrow> do {
               value \<leftarrow> (if want_value
                 then do { v \<leftarrow> memcpy_from (he_value e) (he_value_size e); Some (Some v) }
                 else Some None);
               Some (SUCCESS, value, if want_size then Some (he_value_size e) else None) }
           | None \<Rightarrow> Some (ERROR_NOT_FOUND, None, None)) }
      | _ \<Rightarrow> Some (ERROR_INVALID_PARAM, None, None))"

text \<open>The search of \<open>hash_table_delete\<close>: the chain without the entry, if there is one.\<close>

fun hash_delete_loop :: "cstr \<Rightarrow> hash_entry_t list \<Rightarrow> hash_entry_t list option" where
  "hash_delete_loop key [] = None"
| "hash_delete_loop key (entry # next) =
     (if c_strcmp (he_key entry) key = 0 then Some next
      else map_option ((#) entry) (hash_delete_loop key next))"

definition hash_table_delete ::
  "hash_table_t option \<Rightarrow> cstr option \<Rightarrow> (error_code_t \<times> hash_table_t option) option" where
  "hash_table_delete table key =
     (case (table, key) of
        (Some t, Some k) \<Rightarrow> do {
          bucket \<leftarrow> ht_bucket t k;
          entry \<leftarrow> arr_get (ht_buckets t) bucket;
          (case hash_delete_loop k entry of
             Some entry' \<Rightarrow>
               Some (SUCCESS, Some (t\<lparr>ht_buckets := (ht_buckets t)[bucket := entry'],
                 ht_size := ht_size t - 1\<rparr>))
           | None \<Rightarrow> Some (ERROR_NOT_FOUND, table)) }
      | _ \<Rightarrow> Some (ERROR_INVALID_PARAM, table))"

section \<open>Invariant and abstraction\<close>

definition ht_index :: "hash_table_t \<Rightarrow> cstr \<Rightarrow> nat" where
  "ht_index t key = unat ((ucast (hash_string key) :: u64) mod bucket_count t)"

definition entry_sized :: "hash_entry_t \<Rightarrow> bool" where
  "entry_sized e \<longleftrightarrow> unat (he_value_size e) = length (he_value e)"

definition ht_wf :: "hash_table_t \<Rightarrow> bool" where
  "ht_wf t \<longleftrightarrow>
     0 < bucket_count t \<and> length (ht_buckets t) = unat (bucket_count t)
   \<and> (\<forall>i < length (ht_buckets t). \<forall>e \<in> set (ht_buckets t ! i). ht_index t (he_key e) = i \<and> entry_sized e)
   \<and> (\<forall>i < length (ht_buckets t). distinct (map he_key (ht_buckets t ! i)))
   \<and> ht_size t = of_nat (length (concat (ht_buckets t)))"

definition ht_map :: "hash_table_t \<Rightarrow> cstr \<rightharpoonup> bytes" where
  "ht_map t k = map_option he_value (find (\<lambda>e. he_key e = k) (ht_buckets t ! ht_index t k))"

abbreviation he_has :: "cstr \<Rightarrow> hash_entry_t \<Rightarrow> bool" where
  "he_has k e \<equiv> he_key e = k"

lemma hash_get_loop_find: "hash_get_loop k es = find (he_has k) es"
  by (induction es) simp_all

lemma hash_put_loop_update:
  "hash_put_loop k v sz es =
     (if find (he_has k) es = None then None
      else Some (update_first (he_has k) (\<lambda>e. e\<lparr>he_value := v, he_value_size := sz\<rparr>) es))"
  by (induction es) simp_all

lemma hash_delete_loop_remove:
  "hash_delete_loop k es = (if find (he_has k) es = None then None else Some (remove_first (he_has k) es))"
  by (induction es) simp_all

lemma ht_index_less: "ht_wf t \<Longrightarrow> ht_index t k < length (ht_buckets t)"
  by (auto simp: ht_wf_def ht_index_def word_less_nat_alt unat_mod)

lemma ht_bucket_index: "ht_wf t \<Longrightarrow> ht_bucket t k = Some (ht_index t k)"
  by (auto simp: ht_wf_def ht_bucket_def ht_index_def)

lemma length_concat_update:
  assumes "i < length xss"
  shows "length (concat (xss[i := ys])) + length (xss ! i) = length (concat xss) + length ys"
  using assms
proof (induction xss arbitrary: i)
  case Nil
  then show ?case by simp
next
  case (Cons xs xss)
  then show ?case by (cases i) auto
qed

lemma ht_index_update [simp]:
  "ht_index (t\<lparr>ht_buckets := b\<rparr>) = ht_index t" "ht_index (t\<lparr>ht_size := n\<rparr>) = ht_index t"
  by (simp_all add: ht_index_def fun_eq_iff)

text \<open>Replacing the chain of one key: the invariant is kept and the map changes at that key only.\<close>

lemma ht_replace:
  assumes wf: "ht_wf t"
    and chain: "\<forall>e \<in> set es. ht_index t (he_key e) = ht_index t k \<and> entry_sized e" "distinct (map he_key es)"
    and n: "n + of_nat (length (ht_buckets t ! ht_index t k)) = ht_size t + of_nat (length es)"
    and frame: "\<And>k'. k' \<noteq> k \<Longrightarrow> find (he_has k') es = find (he_has k') (ht_buckets t ! ht_index t k)"
  shows "ht_wf (t\<lparr>ht_buckets := (ht_buckets t)[ht_index t k := es], ht_size := n\<rparr>)"
    and "ht_map (t\<lparr>ht_buckets := (ht_buckets t)[ht_index t k := es], ht_size := n\<rparr>) =
          (ht_map t)(k := map_option he_value (find (he_has k) es))"
proof -
  let ?i = "ht_index t k"
  let ?t = "t\<lparr>ht_buckets := (ht_buckets t)[?i := es], ht_size := n\<rparr>"
  have i: "?i < length (ht_buckets t)" using wf by (rule ht_index_less)
  have "of_nat (length (concat ((ht_buckets t)[?i := es]))) + of_nat (length (ht_buckets t ! ?i)) =
      ht_size t + of_nat (length es)"
    using arg_cong [OF length_concat_update [OF i, of es], of "of_nat :: nat \<Rightarrow> u64"] wf
    by (simp add: ht_wf_def)
  with n have "n = of_nat (length (concat ((ht_buckets t)[?i := es])))"
    by (metis add_right_cancel)
  with wf chain i show "ht_wf ?t"
    by (simp add: ht_wf_def nth_list_update del: length_concat)
  show "ht_map ?t = (ht_map t)(k := map_option he_value (find (he_has k) es))"
    using i frame by (simp add: fun_eq_iff ht_map_def nth_list_update)
qed

lemma ht_wf_chain:
  assumes "ht_wf t"
  shows "\<forall>e \<in> set (ht_buckets t ! ht_index t k). ht_index t (he_key e) = ht_index t k \<and> entry_sized e"
    and "distinct (map he_key (ht_buckets t ! ht_index t k))"
  using assms ht_index_less [OF assms, of k] by (auto simp: ht_wf_def)

lemma map_key_update_first:
  "(\<And>e. he_key (f e) = he_key e) \<Longrightarrow> map he_key (update_first P f es) = map he_key es"
  by (induction es) simp_all

lemma find_update_first_same:
  "find (he_has k) es = Some e \<Longrightarrow> he_has k (f e) \<Longrightarrow> find (he_has k) (update_first (he_has k) f es) = Some (f e)"
  by (induction es) (auto split: if_splits)

lemma find_update_first_other:
  "k' \<noteq> k \<Longrightarrow> (\<And>e. he_key (f e) = he_key e) \<Longrightarrow>
     find (he_has k') (update_first (he_has k) f es) = find (he_has k') es"
  by (induction es) simp_all

lemma hash_table_put_wf:
  assumes wf: "ht_wf t" and sz: "unat value_size \<le> length v"
  shows "\<exists>t'. hash_table_put (Some t) (Some k) v value_size = Some (SUCCESS, Some t') \<and> ht_wf t'
     \<and> ht_map t' = (ht_map t)(k \<mapsto> take (unat value_size) v) \<and> bucket_count t' = bucket_count t"
proof -
  let ?i = "ht_index t k" and ?v = "take (unat value_size) v"
  let ?es = "ht_buckets t ! ht_index t k"
  have ok: "ht_bucket t k = Some ?i" "arr_get (ht_buckets t) ?i = Some ?es" "memcpy_from v value_size = Some ?v"
    using wf ht_index_less sz by (simp_all add: ht_bucket_index)
  show ?thesis
  proof (cases "find (he_has k) ?es")
    case None
    let ?e = "\<lparr>he_key = k, he_value = ?v, he_value_size = value_size\<rparr>"
    let ?t = "t\<lparr>ht_buckets := (ht_buckets t)[?i := ?e # ?es], ht_size := ht_size t + 1\<rparr>"
    have "entry_sized ?e" using sz by (simp add: entry_sized_def)
    moreover have "k \<notin> he_key ` set ?es" using None by (auto simp: find_None)
    ultimately have "ht_wf ?t \<and> ht_map ?t = (ht_map t)(k := map_option he_value (find (he_has k) (?e # ?es)))"
      using ht_wf_chain [OF wf] by (intro conjI ht_replace [OF wf]) simp_all
    with ok None show ?thesis by (auto simp: hash_table_put_def hash_put_loop_update)
  next
    case (Some e)
    let ?f = "\<lambda>e. e\<lparr>he_value := ?v, he_value_size := value_size\<rparr>"
    let ?us = "update_first (he_has k) ?f ?es"
    let ?t = "t\<lparr>ht_buckets := (ht_buckets t)[?i := ?us], ht_size := ht_size t\<rparr>"
    have us: "\<forall>e \<in> set ?us. ht_index t (he_key e) = ?i \<and> entry_sized e"
      using ht_wf_chain(1) [OF wf, of k] sz set_update_first [of "he_has k" ?f ?es]
      by (fastforce simp: entry_sized_def)
    have "ht_wf ?t \<and> ht_map ?t = (ht_map t)(k := map_option he_value (find (he_has k) ?us))"
      using us ht_wf_chain(2) [OF wf, of k]
      by (intro conjI ht_replace [OF wf])
        (simp_all add: map_key_update_first find_update_first_other)
    moreover have "find (he_has k) ?us = Some (?f e)"
      using Some by (intro find_update_first_same) (auto dest: find_Some_in)
    ultimately show ?thesis using ok Some by (auto simp: hash_table_put_def hash_put_loop_update)
  qed
qed

lemma find_remove_first_he:
  "distinct (map he_key es) \<Longrightarrow>
     find (he_has k') (remove_first (he_has k) es) = (if k' = k then None else find (he_has k') es)"
proof (induction es)
  case Nil
  then show ?case by simp
next
  case (Cons e es)
  then have "he_has k e \<Longrightarrow> find (he_has k) es = None"
    unfolding find_None by simp (metis image_eqI)
  with Cons show ?case by (cases "k' = k") simp_all
qed

lemma distinct_remove_first: "distinct (map f es) \<Longrightarrow> distinct (map f (remove_first P es))"
proof (induction es)
  case (Cons e es)
  then show ?case using set_remove_first [of P es] by auto
qed simp

lemma hash_table_delete_wf:
  assumes wf: "ht_wf t"
  shows "\<exists>t'. hash_table_delete (Some t) (Some k) =
         Some (if ht_map t k = None then ERROR_NOT_FOUND else SUCCESS, Some t') \<and> ht_wf t'
     \<and> ht_map t' = (ht_map t)(k := None) \<and> bucket_count t' = bucket_count t"
proof -
  let ?i = "ht_index t k" and ?es = "ht_buckets t ! ht_index t k"
  have ok: "ht_bucket t k = Some ?i" "arr_get (ht_buckets t) ?i = Some ?es"
    using wf ht_index_less by (simp_all add: ht_bucket_index)
  show ?thesis
  proof (cases "find (he_has k) ?es")
    case None
    with ok wf show ?thesis
      by (auto simp: hash_table_delete_def hash_delete_loop_remove ht_map_def)
  next
    case (Some e)
    let ?us = "remove_first (he_has k) ?es"
    let ?t = "t\<lparr>ht_buckets := (ht_buckets t)[?i := ?us], ht_size := ht_size t - 1\<rparr>"
    have "length ?us = length ?es - 1" "?es \<noteq> []"
      using find_Some_in [OF Some] by (auto simp: length_remove_first)
    then have "length ?es = Suc (length ?us)" by (cases ?es) auto
    then have "ht_wf ?t \<and> ht_map ?t = (ht_map t)(k := map_option he_value (find (he_has k) ?us))"
      using ht_wf_chain [OF wf, of k] set_remove_first [of "he_has k" ?es]
      by (intro conjI ht_replace [OF wf]) (auto simp: find_remove_first_he distinct_remove_first)
    moreover have "find (he_has k) ?us = None"
      using ht_wf_chain(2) [OF wf, of k] by (simp add: find_remove_first_he)
    ultimately show ?thesis
      using ok Some by (auto simp: hash_table_delete_def hash_delete_loop_remove ht_map_def)
  qed
qed

lemma hash_table_get_wf:
  assumes "ht_wf t"
  shows "hash_table_get (Some t) (Some k) want_value want_size =
     Some (case ht_map t k of
             None \<Rightarrow> (ERROR_NOT_FOUND, None, None)
           | Some v \<Rightarrow> (SUCCESS, if want_value then Some v else None,
                       if want_size then Some (of_nat (length v)) else None))"
proof (cases "find (he_has k) (ht_buckets t ! ht_index t k)")
  case None
  with assms show ?thesis
    by (simp add: hash_table_get_def ht_bucket_index ht_index_less hash_get_loop_find ht_map_def)
next
  case (Some e)
  then have "entry_sized e" using ht_wf_chain(1) [OF assms, of k] find_Some_in by fastforce
  then have "unat (he_value_size e) = length (he_value e)" by (simp add: entry_sized_def)
  moreover from this have "he_value_size e = of_nat (length (he_value e))" by (metis of_nat_unat ucast_id)
  ultimately show ?thesis using assms Some
    by (auto simp: hash_table_get_def ht_bucket_index ht_index_less hash_get_loop_find ht_map_def)
qed

lemma hash_table_create_wf:
  assumes "0 < n"
  shows "ht_wf (hash_table_create n)" and "ht_map (hash_table_create n) = Map.empty"
proof -
  show wf: "ht_wf (hash_table_create n)" using assms by (simp add: ht_wf_def hash_table_create_def)
  show "ht_map (hash_table_create n) = Map.empty"
    using ht_index_less [OF wf] by (simp add: ht_map_def fun_eq_iff) (simp add: hash_table_create_def)
qed

section \<open>The contract\<close>

datatype ('k, 'v) kv_op = KPut 'k 'v | KDel 'k

fun apply_op :: "('k, 'v) kv_op \<Rightarrow> ('k \<rightharpoonup> 'v) \<Rightarrow> ('k \<rightharpoonup> 'v)" where
  "apply_op (KPut k v) m = m(k \<mapsto> v)"
| "apply_op (KDel k) m = m(k := None)"

fun op_ok :: "('v \<Rightarrow> bool) \<Rightarrow> ('k, 'v) kv_op \<Rightarrow> bool" where
  "op_ok ok (KPut k v) = ok v"
| "op_ok ok (KDel k) = True"

fun kv_do :: "('t \<Rightarrow> 'k \<Rightarrow> 'v \<Rightarrow> 't option) \<Rightarrow> ('t \<Rightarrow> 'k \<Rightarrow> 't option) \<Rightarrow> ('k, 'v) kv_op \<Rightarrow> 't \<Rightarrow> 't option" where
  "kv_do put del (KPut k v) t = put t k v"
| "kv_do put del (KDel k) t = del t k"

text \<open>
  A table with partial operations whose content is a map. Puts and deletes act on the map, so
  a sequence of them is the composition of the map updates, from any table with that content.
\<close>

locale kv_table =
  fixes inv :: "'t \<Rightarrow> bool"
    and lookup :: "'t \<Rightarrow> 'k \<rightharpoonup> 'v"
    and put :: "'t \<Rightarrow> 'k \<Rightarrow> 'v \<Rightarrow> 't option"
    and del :: "'t \<Rightarrow> 'k \<Rightarrow> 't option"
    and ok :: "'v \<Rightarrow> bool"
  assumes put_law: "inv t \<Longrightarrow> ok v \<Longrightarrow> \<exists>t'. put t k v = Some t' \<and> inv t' \<and> lookup t' = (lookup t)(k \<mapsto> v)"
    and del_law: "inv t \<Longrightarrow> \<exists>t'. del t k = Some t' \<and> inv t' \<and> lookup t' = (lookup t)(k := None)"
    and lookup_ok: "inv t \<Longrightarrow> lookup t k = Some v \<Longrightarrow> ok v"
begin

lemma kv_do_law:
  "inv t \<Longrightarrow> op_ok ok x \<Longrightarrow> \<exists>t'. kv_do put del x t = Some t' \<and> inv t' \<and> lookup t' = apply_op x (lookup t)"
  by (cases x) (auto simp: put_law del_law)

lemma replay_law:
  "inv t \<Longrightarrow> list_all (op_ok ok) xs \<Longrightarrow>
     \<exists>t'. for_each (kv_do put del) xs t = Some t' \<and> inv t' \<and> lookup t' = fold apply_op xs (lookup t)"
proof (induction xs arbitrary: t)
  case Nil
  then show ?case by simp
next
  case (Cons x xs)
  then obtain t1 where "kv_do put del x t = Some t1" "inv t1" "lookup t1 = apply_op x (lookup t)"
    using kv_do_law [of t x] by auto
  with Cons.IH [of t1] Cons.prems show ?case by simp
qed

lemma put_all_law:
  "inv t \<Longrightarrow> list_all (\<lambda>(k, v). ok v) kvs \<Longrightarrow> distinct (map fst kvs) \<Longrightarrow>
     \<exists>t'. for_each (\<lambda>(k, v) t. put t k v) kvs t = Some t' \<and> inv t' \<and> lookup t' = lookup t ++ map_of kvs"
proof (induction kvs arbitrary: t)
  case Nil
  then show ?case by simp
next
  case (Cons kv kvs)
  obtain k v where kv: "kv = (k, v)" by fastforce
  with Cons obtain t1 where "put t k v = Some t1" "inv t1" "lookup t1 = (lookup t)(k \<mapsto> v)"
    using put_law [of t v k] by auto
  moreover have "(lookup t)(k \<mapsto> v) ++ map_of kvs = lookup t ++ (map_of kvs)(k \<mapsto> v)"
    using Cons.prems kv by (auto simp: map_add_def fun_eq_iff map_of_eq_None_iff image_iff split: option.splits)
  ultimately show ?case using Cons.IH [of t1] Cons.prems kv
    by (simp del: fun_upd_apply map_add_upd)
qed

end

section \<open>The contract holds\<close>

definition ht_put :: "hash_table_t \<Rightarrow> cstr \<Rightarrow> bytes \<Rightarrow> hash_table_t option" where
  "ht_put t k v =
     (case hash_table_put (Some t) (Some k) v (of_nat (length v)) of Some (_, t') \<Rightarrow> t' | None \<Rightarrow> None)"

definition ht_del :: "hash_table_t \<Rightarrow> cstr \<Rightarrow> hash_table_t option" where
  "ht_del t k = (case hash_table_delete (Some t) (Some k) of Some (_, t') \<Rightarrow> t' | None \<Rightarrow> None)"

definition value_ok :: "bytes \<Rightarrow> bool" where
  "value_ok v \<longleftrightarrow> length v < 2 ^ 64"

lemma value_ok_unat: "value_ok v \<Longrightarrow> unat (of_nat (length v) :: u64) = length v"
  by (simp add: value_ok_def unat_of_nat)

lemma ht_map_value_ok:
  assumes "ht_wf t" and "ht_map t k = Some v"
  shows "value_ok v"
proof -
  obtain e where e: "find (he_has k) (ht_buckets t ! ht_index t k) = Some e" and v: "v = he_value e"
    using assms(2) by (auto simp: ht_map_def)
  have "unat (he_value_size e) = length v"
    using ht_wf_chain(1) [OF assms(1), of k] find_Some_in [OF e] v by (auto simp: entry_sized_def)
  then show ?thesis using unat_u64_less [of "he_value_size e"] by (simp add: value_ok_def)
qed

interpretation ht: kv_table ht_wf ht_map ht_put ht_del value_ok
proof
  fix t :: hash_table_t and v :: bytes and k :: cstr
  assume "ht_wf t" and "value_ok v"
  then show "\<exists>t'. ht_put t k v = Some t' \<and> ht_wf t' \<and> ht_map t' = (ht_map t)(k \<mapsto> v)"
    using hash_table_put_wf [of t "of_nat (length v)" v k] by (auto simp: ht_put_def value_ok_unat)
next
  fix t :: hash_table_t and k :: cstr
  assume "ht_wf t"
  then show "\<exists>t'. ht_del t k = Some t' \<and> ht_wf t' \<and> ht_map t' = (ht_map t)(k := None)"
    using hash_table_delete_wf [of t k] by (auto simp: ht_del_def)
qed (rule ht_map_value_ok)

section \<open>Walking all entries\<close>

definition ht_entries :: "hash_table_t \<Rightarrow> hash_entry_t list" where
  "ht_entries t = concat (ht_buckets t)"

lemma distinct_concat_tagged:
  "(\<forall>i < length xss. distinct (map f (xss ! i)) \<and> (\<forall>x \<in> set (xss ! i). g (f x) = n + i)) \<Longrightarrow>
     distinct (map f (concat xss)) \<and> (\<forall>x \<in> set (concat xss). n \<le> g (f x))"
proof (induction xss arbitrary: n)
  case Nil
  then show ?case by simp
next
  case (Cons xs xss)
  have hd: "distinct (map f xs)" "\<forall>x \<in> set xs. g (f x) = n" using Cons.prems by auto
  have "\<forall>i < length xss. distinct (map f (xss ! i)) \<and> (\<forall>x \<in> set (xss ! i). g (f x) = Suc n + i)"
    using Cons.prems by auto
  from Cons.IH [OF this] have tl: "distinct (map f (concat xss))" "\<forall>x \<in> set (concat xss). Suc n \<le> g (f x)"
    by blast+
  have "f ` set xs \<inter> f ` set (concat xss) = {}"
  proof (rule equals0I)
    fix y assume "y \<in> f ` set xs \<inter> f ` set (concat xss)"
    then show False using hd(2) tl(2) by (metis IntE imageE not_less_eq_eq order_refl)
  qed
  with hd tl show ?case by (auto simp: less_imp_le Suc_le_eq simp del: set_concat)
qed

lemma in_ht_entries: "e \<in> set (ht_entries t) \<longleftrightarrow> (\<exists>i < length (ht_buckets t). e \<in> set (ht_buckets t ! i))"
  by (auto simp: ht_entries_def set_conv_nth [of "ht_buckets t"])

lemma ht_entries_distinct:
  assumes "ht_wf t"
  shows "distinct (map he_key (ht_entries t))"
  using assms distinct_concat_tagged [of "ht_buckets t" he_key "ht_index t" 0]
  by (simp add: ht_entries_def ht_wf_def)

lemma find_distinct_key: "distinct (map he_key es) \<Longrightarrow> e \<in> set es \<Longrightarrow> find (he_has (he_key e)) es = Some e"
  by (induction es) (auto simp: image_iff)

lemma ht_map_entry:
  assumes "ht_wf t"
  shows "ht_map t k = Some v \<longleftrightarrow> (\<exists>e \<in> set (ht_entries t). he_key e = k \<and> he_value e = v)"
proof
  assume "ht_map t k = Some v"
  then obtain e where "e \<in> set (ht_buckets t ! ht_index t k)" "he_key e = k" "he_value e = v"
    by (auto simp: ht_map_def dest!: find_Some_in)
  moreover from this have "e \<in> set (ht_entries t)"
    using ht_index_less [OF assms, of k] by (auto simp: ht_entries_def)
  ultimately show "\<exists>e \<in> set (ht_entries t). he_key e = k \<and> he_value e = v" by blast
next
  assume "\<exists>e \<in> set (ht_entries t). he_key e = k \<and> he_value e = v"
  then obtain e i where i: "i < length (ht_buckets t)" "e \<in> set (ht_buckets t ! i)"
    and e: "he_key e = k" "he_value e = v"
    by (auto simp: in_ht_entries)
  then have "ht_index t k = i" "distinct (map he_key (ht_buckets t ! i))"
    using assms by (auto simp: ht_wf_def)
  then show "ht_map t k = Some v" using find_distinct_key i(2) e by (auto simp: ht_map_def)
qed

lemma ht_map_of_entries:
  assumes "ht_wf t"
  shows "map_of (map (\<lambda>e. (he_key e, he_value e)) (ht_entries t)) = ht_map t"
proof -
  let ?ps = "map (\<lambda>e. (he_key e, he_value e)) (ht_entries t)"
  have "map fst ?ps = map he_key (ht_entries t)" by (simp add: comp_def)
  then have "distinct (map fst ?ps)" using ht_entries_distinct [OF assms] by (simp only:)
  then have "map_of ?ps k = Some v \<longleftrightarrow> (k, v) \<in> set ?ps" for k v by (rule map_of_eq_Some_iff)
  moreover have "(k, v) \<in> set ?ps \<longleftrightarrow> ht_map t k = Some v" for k v
    unfolding ht_map_entry [OF assms] by auto
  ultimately have eq: "map_of ?ps k = Some v \<longleftrightarrow> ht_map t k = Some v" for k v by simp
  have "map_of ?ps k = ht_map t k" for k
    using eq [of k] by (cases "ht_map t k"; cases "map_of ?ps k") (simp_all, blast+)
  then show ?thesis by (rule ext)
qed

lemma ht_entries_sized:
  "ht_wf t \<Longrightarrow> e \<in> set (ht_entries t) \<Longrightarrow>
     he_value_size e = of_nat (length (he_value e)) \<and> value_ok (he_value e)"
proof -
  assume "ht_wf t" "e \<in> set (ht_entries t)"
  then have "unat (he_value_size e) = length (he_value e)"
    by (auto simp: ht_wf_def in_ht_entries entry_sized_def)
  then show ?thesis
    unfolding value_ok_def by (metis of_nat_unat ucast_id unat_u64_less)
qed

text \<open>A loop over the bucket array and, inside, over a chain visits exactly the entries.\<close>

lemma ht_walk:
  assumes "ht_wf t"
  shows "for_each (\<lambda>i s. do { chain \<leftarrow> arr_get (ht_buckets t) i; for_each body chain s })
           [0..<unat (bucket_count t)] s = for_each body (ht_entries t) s"
proof -
  have len: "unat (bucket_count t) = length (ht_buckets t)" using assms by (simp add: ht_wf_def)
  have "for_each (\<lambda>i s. do { chain \<leftarrow> arr_get (ht_buckets t) i; for_each body chain s })
      [0..<length (ht_buckets t)] s = for_each (\<lambda>i. for_each body (ht_buckets t ! i)) [0..<length (ht_buckets t)] s"
    by (rule for_each_cong) auto
  then show ?thesis unfolding len by (simp add: for_each_nested ht_entries_def)
qed

lemma hash_table_destroy_all: "ht_wf t \<Longrightarrow> hash_table_destroy (Some t) = Some (ht_entries t)"
proof -
  have "for_each (\<lambda>e freed. Some (freed @ [e])) es acc = Some (acc @ es)" for es acc :: "hash_entry_t list"
    by (induction es arbitrary: acc) auto
  moreover assume "ht_wf t"
  ultimately show ?thesis unfolding hash_table_destroy_def option.case ht_walk [OF \<open>ht_wf t\<close>] by simp
qed

end
