(* ===== verification/Database.thy ===== *)
theory Database
  imports Hash_Table
begin

text \<open>
  \<^verbatim>\<open>src/database/database.c\<close>, \<^verbatim>\<open>include/database.h\<close>: the key-value store with its write-ahead log
  and its transactions.

  Conventions. The file system is a map from paths to contents; the log of a database is the
  file at \<open>wal_path\<close>, which \<open>open\<close> creates when it is missing and which \<open>write\<close> extends
  at its end (\<open>O_APPEND\<close>). What the kernel answers is an argument: the descriptor of
  \<open>open\<close>, how many bytes a \<open>write\<close> stored (\<open>written\<close>, whose shortfall is a torn or failed
  write; the code ignores the result), whether \<open>ftruncate\<close> and \<open>lseek\<close> succeed, the bytes
  \<open>malloc\<close> leaves in a fresh buffer (\<open>junk\<close>). The log record has the layout of the x86-64
  System V ABI: little endian, no padding, 24 bytes before \<open>data\<close>. Each operation holds the
  lock of the database from its first to its last access, so it is one step. \<open>None\<close> is
  undefined behaviour.
\<close>

section \<open>Data\<close>

datatype index_type_t = INDEX_BTREE | INDEX_HASH

datatype isolation_level_t =
    ISOLATION_READ_UNCOMMITTED | ISOLATION_READ_COMMITTED
  | ISOLATION_REPEATABLE_READ | ISOLATION_SERIALIZABLE

datatype wal_entry_type_t = WAL_ENTRY_PUT | WAL_ENTRY_DELETE | WAL_ENTRY_COMMIT | WAL_ENTRY_ROLLBACK

fun wal_entry_type_val :: "wal_entry_type_t \<Rightarrow> u32" where
  "wal_entry_type_val WAL_ENTRY_PUT = 0"
| "wal_entry_type_val WAL_ENTRY_DELETE = 1"
| "wal_entry_type_val WAL_ENTRY_COMMIT = 2"
| "wal_entry_type_val WAL_ENTRY_ROLLBACK = 3"

record wal_entry_t =
  wal_magic :: u32
  wal_type :: u32
  wal_txn_id :: u64
  wal_key_size :: u32
  wal_value_size :: u32

record database_t =
  data_dir :: cstr
  db_table :: hash_table_t
  wal_fd :: int
  next_txn_id :: u64
  is_open :: bool

record transaction_t =
  txn_id :: u64
  txn_level :: isolation_level_t
  txn_writes :: hash_table_t
  txn_committed :: bool

record database_stats_t =
  num_keys :: u64
  total_size :: u64
  wal_size :: u64
  num_transactions :: u64

type_synonym filesystem = "cstr \<rightharpoonup> bytes"

section \<open>Log records\<close>

definition WAL_MAGIC :: u32 where
  "WAL_MAGIC = 0x57414C00"

definition sizeof_wal_entry :: nat where
  "sizeof_wal_entry = 24"

fun le_bytes :: "nat \<Rightarrow> nat \<Rightarrow> bytes" where
  "le_bytes 0 x = []"
| "le_bytes (Suc n) x = of_nat (x mod 256) # le_bytes n (x div 256)"

fun le_val :: "bytes \<Rightarrow> nat" where
  "le_val [] = 0"
| "le_val (b # bs) = unat b + 256 * le_val bs"

definition wal_encode :: "wal_entry_t \<Rightarrow> bytes" where
  "wal_encode w =
     le_bytes 4 (unat (wal_magic w)) @ le_bytes 4 (unat (wal_type w)) @ le_bytes 8 (unat (wal_txn_id w))
     @ le_bytes 4 (unat (wal_key_size w)) @ le_bytes 4 (unat (wal_value_size w))"

definition wal_decode :: "bytes \<Rightarrow> wal_entry_t" where
  "wal_decode bs =
     \<lparr>wal_magic = of_nat (le_val (take 4 bs)), wal_type = of_nat (le_val (take 4 (drop 4 bs))),
      wal_txn_id = of_nat (le_val (take 8 (drop 8 bs))),
      wal_key_size = of_nat (le_val (take 4 (drop 16 bs))),
      wal_value_size = of_nat (le_val (take 4 (drop 20 bs)))\<rparr>"

text \<open>The key with its terminating NUL, as \<open>memcpy(entry->data, key, strlen(key) + 1)\<close> stores it.\<close>

definition key_bytes :: "cstr \<Rightarrow> bytes" where
  "key_bytes key = map byte_of_char key @ [0]"

text \<open>The C string that starts a buffer; without a NUL in it, using it reads past the end.\<close>

definition c_str_at :: "bytes \<Rightarrow> cstr option" where
  "c_str_at data = (if 0 \<in> set data then Some (map char_of_byte (takeWhile (\<lambda>b. b \<noteq> 0) data)) else None)"

text \<open>
  The record \<open>database_put\<close> and \<open>database_delete\<close> assemble: the allocation has
  \<open>entry_size\<close> bytes, computed in \<open>size_t\<close>, and the three copies must fit in it.
\<close>

definition wal_record :: "wal_entry_type_t \<Rightarrow> cstr \<Rightarrow> bytes \<Rightarrow> bytes option" where
  "wal_record ty key value =
     (let key_size = of_nat (length key) + 1 :: u64;
          value_size = of_nat (length value) :: u64;
          entry_size = of_nat sizeof_wal_entry + key_size + value_size;
          content = wal_encode \<lparr>wal_magic = WAL_MAGIC, wal_type = wal_entry_type_val ty, wal_txn_id = 0,
             wal_key_size = ucast key_size, wal_value_size = ucast value_size\<rparr> @ key_bytes key @ value
      in if unat entry_size = length content then Some content else None)"

section \<open>Database handle\<close>

definition database_create :: "cstr \<Rightarrow> database_t" where
  "database_create dir =
     \<lparr>data_dir = dir, db_table = hash_table_create 1024, wal_fd = -1, next_txn_id = 1, is_open = False\<rparr>"

text \<open>\<open>snprintf(wal_path, 1024, "%s/wal.log", data_dir)\<close> cuts the path at 1023 characters.\<close>

definition wal_path :: "database_t \<Rightarrow> cstr" where
  "wal_path db = take 1023 (data_dir db @ ''/wal.log'')"

definition wal_content :: "filesystem \<Rightarrow> database_t \<Rightarrow> bytes" where
  "wal_content fs db = (case fs (wal_path db) of None \<Rightarrow> [] | Some bs \<Rightarrow> bs)"

definition wal_write :: "filesystem \<Rightarrow> database_t \<Rightarrow> bytes \<Rightarrow> nat \<Rightarrow> filesystem" where
  "wal_write fs db bs written = fs(wal_path db \<mapsto> wal_content fs db @ take written bs)"

text \<open>
  The replay loop of \<open>database_recover\<close> over the bytes that are left to read. The data buffer
  holds the bytes \<open>read\<close> delivered and, behind them, whatever \<open>malloc\<close> left there.
\<close>

function recover_loop ::
  "(nat \<Rightarrow> nat \<Rightarrow> u8) \<Rightarrow> bytes \<Rightarrow> hash_table_t \<Rightarrow> hash_table_t option" where
  "recover_loop junk rest t =
     (if length rest < sizeof_wal_entry then Some t
      else
        (let header = wal_decode (take sizeof_wal_entry rest); rest' = drop sizeof_wal_entry rest in
         if wal_magic header \<noteq> WAL_MAGIC then Some t
         else
           (let n = unat (wal_key_size header + wal_value_size header);
                got = take n rest';
                data = got @ map (junk (length rest)) [length got..<n];
                key_size = unat (wal_key_size header)
            in do {
              t \<leftarrow> (if wal_type header = wal_entry_type_val WAL_ENTRY_PUT then do {
                     key \<leftarrow> c_str_at data;
                     (_, t) \<leftarrow> hash_table_put (Some t) (Some key) (drop key_size data)
                       (ucast (wal_value_size header));
                     t }
                   else if wal_type header = wal_entry_type_val WAL_ENTRY_DELETE then do {
                     key \<leftarrow> c_str_at data;
                     (_, t) \<leftarrow> hash_table_delete (Some t) (Some key);
                     t }
                   else Some t);
              recover_loop junk (drop n rest') t })))"
  by pat_completeness auto

termination recover_loop
  by (relation "measure (\<lambda>(junk, rest, t). length rest)") (auto simp: sizeof_wal_entry_def)

declare recover_loop.simps [simp del]

definition database_recover ::
  "(nat \<Rightarrow> nat \<Rightarrow> u8) \<Rightarrow> filesystem \<Rightarrow> database_t option \<Rightarrow> (error_code_t \<times> database_t option) option" where
  "database_recover junk fs db =
     (case db of
        None \<Rightarrow> Some (ERROR_INVALID_PARAM, db)
      | Some d \<Rightarrow>
          if wal_fd d < 0 then Some (ERROR_INVALID_PARAM, db)
          else do {
            t \<leftarrow> recover_loop junk (wal_content fs d) (db_table d);
            Some (SUCCESS, Some (d\<lparr>db_table := t\<rparr>)) })"

definition database_open ::
  "(nat \<Rightarrow> nat \<Rightarrow> u8) \<Rightarrow> int \<Rightarrow> filesystem \<Rightarrow> database_t option \<Rightarrow>
     (error_code_t \<times> database_t option \<times> filesystem) option" where
  "database_open junk fd fs db =
     (case db of
        None \<Rightarrow> Some (ERROR_INVALID_PARAM, db, fs)
      | Some d \<Rightarrow>
          if is_open d then Some (ERROR_INVALID_PARAM, db, fs)
          else if fd < 0 then Some (ERROR_IO, Some (d\<lparr>wal_fd := fd\<rparr>), fs)
          else do {
            fs \<leftarrow> Some (fs(wal_path d \<mapsto> wal_content fs d));
            (_, db) \<leftarrow> database_recover junk fs (Some (d\<lparr>wal_fd := fd\<rparr>));
            d \<leftarrow> db;
            Some (SUCCESS, Some (d\<lparr>is_open := True\<rparr>), fs) })"

definition database_checkpoint ::
  "bool \<Rightarrow> bool \<Rightarrow> filesystem \<Rightarrow> database_t option \<Rightarrow> error_code_t \<times> filesystem" where
  "database_checkpoint ftruncate_ok lseek_ok fs db =
     (case db of
        None \<Rightarrow> (ERROR_INVALID_PARAM, fs)
      | Some d \<Rightarrow>
          if wal_fd d < 0 then (ERROR_INVALID_PARAM, fs)
          else if \<not> ftruncate_ok then (ERROR_IO, fs)
          else let fs = fs(wal_path d \<mapsto> []) in
               if \<not> lseek_ok then (ERROR_IO, fs) else (SUCCESS, fs))"

definition database_close ::
  "bool \<Rightarrow> bool \<Rightarrow> filesystem \<Rightarrow> database_t option \<Rightarrow> error_code_t \<times> database_t option \<times> filesystem" where
  "database_close ftruncate_ok lseek_ok fs db =
     (case db of
        None \<Rightarrow> (ERROR_INVALID_PARAM, db, fs)
      | Some d \<Rightarrow>
          if \<not> is_open d then (ERROR_INVALID_PARAM, db, fs)
          else let (_, fs) = database_checkpoint ftruncate_ok lseek_ok fs (Some d);
                   d = (if wal_fd d \<ge> 0 then d\<lparr>wal_fd := -1\<rparr> else d)
               in (SUCCESS, Some (d\<lparr>is_open := False\<rparr>), fs))"

text \<open>The entries \<open>database_destroy\<close> frees, and the file system it leaves.\<close>

definition database_destroy ::
  "bool \<Rightarrow> bool \<Rightarrow> filesystem \<Rightarrow> database_t option \<Rightarrow> (hash_entry_t list \<times> filesystem) option" where
  "database_destroy ftruncate_ok lseek_ok fs db =
     (case db of
        None \<Rightarrow> Some ([], fs)
      | Some d \<Rightarrow> do {
          fs \<leftarrow> Some (if is_open d then snd (snd (database_close ftruncate_ok lseek_ok fs db)) else fs);
          freed \<leftarrow> hash_table_destroy (Some (db_table d));
          Some (freed, fs) })"

section \<open>Key-value operations\<close>

definition database_put ::
  "filesystem \<Rightarrow> database_t option \<Rightarrow> cstr option \<Rightarrow> bytes option \<Rightarrow> u64 \<Rightarrow> nat \<Rightarrow>
     (error_code_t \<times> database_t option \<times> filesystem) option" where
  "database_put fs db key value value_size written =
     (case (db, key, value) of
        (Some d, Some k, Some buf) \<Rightarrow>
          if value_size = 0 then Some (ERROR_INVALID_PARAM, db, fs)
          else do {
            fs \<leftarrow> (if wal_fd d \<ge> 0 then do {
                     v \<leftarrow> memcpy_from buf value_size;
                     entry \<leftarrow> wal_record WAL_ENTRY_PUT k v;
                     Some (wal_write fs d entry written) }
                   else Some fs);
            (result, t) \<leftarrow> hash_table_put (Some (db_table d)) (Some k) buf value_size;
            t \<leftarrow> t;
            Some (result, Some (d\<lparr>db_table := t\<rparr>), fs) }
      | _ \<Rightarrow> Some (ERROR_INVALID_PARAM, db, fs))"

definition database_get ::
  "database_t option \<Rightarrow> cstr option \<Rightarrow> bool \<Rightarrow> bool \<Rightarrow> (error_code_t \<times> bytes option \<times> u64 option) option" where
  "database_get db key want_value want_size =
     (case (db, key) of
        (Some d, Some k) \<Rightarrow> hash_table_get (Some (db_table d)) key want_value want_size
      | _ \<Rightarrow> Some (ERROR_INVALID_PARAM, None, None))"

definition database_delete ::
  "filesystem \<Rightarrow> database_t option \<Rightarrow> cstr option \<Rightarrow> nat \<Rightarrow>
     (error_code_t \<times> database_t option \<times> filesystem) option" where
  "database_delete fs db key written =
     (case (db, key) of
        (Some d, Some k) \<Rightarrow> do {
          fs \<leftarrow> (if wal_fd d \<ge> 0 then do {
                   entry \<leftarrow> wal_record WAL_ENTRY_DELETE k [];
                   Some (wal_write fs d entry written) }
                 else Some fs);
          (result, t) \<leftarrow> hash_table_delete (Some (db_table d)) (Some k);
          t \<leftarrow> t;
          Some (result, Some (d\<lparr>db_table := t\<rparr>), fs) }
      | _ \<Rightarrow> Some (ERROR_INVALID_PARAM, db, fs))"

definition database_exists :: "database_t option \<Rightarrow> cstr option \<Rightarrow> bool option" where
  "database_exists db key =
     (case (db, key) of
        (Some d, Some k) \<Rightarrow> do {
          (result, _, _) \<leftarrow> hash_table_get (Some (db_table d)) key False False;
          Some (result = SUCCESS) }
      | _ \<Rightarrow> Some False)"

section \<open>Transactions\<close>

text \<open>The pointer \<open>txn->db\<close> is the database argument of the transaction's operations.\<close>

definition database_begin_transaction ::
  "database_t option \<Rightarrow> isolation_level_t \<Rightarrow> transaction_t option \<times> database_t option" where
  "database_begin_transaction db level =
     (case db of
        None \<Rightarrow> (None, db)
      | Some d \<Rightarrow>
          (Some \<lparr>txn_id = next_txn_id d, txn_level = level, txn_writes = hash_table_create 64,
                 txn_committed = False\<rparr>,
           Some (d\<lparr>next_txn_id := next_txn_id d + 1\<rparr>)))"

definition transaction_commit ::
  "transaction_t option \<Rightarrow> database_t \<Rightarrow> (error_code_t \<times> database_t) option" where
  "transaction_commit txn db =
     (case txn of
        None \<Rightarrow> Some (ERROR_INVALID_PARAM, db)
      | Some tx \<Rightarrow>
          if txn_committed tx then Some (ERROR_INVALID_PARAM, db)
          else do {
            t \<leftarrow> for_each (\<lambda>i t. do {
                   chain \<leftarrow> arr_get (ht_buckets (txn_writes tx)) i;
                   for_each (\<lambda>entry t. do {
                     (_, t) \<leftarrow> hash_table_put (Some t) (Some (he_key entry)) (he_value entry) (he_value_size entry);
                     t }) chain t })
                 [0..<unat (bucket_count (txn_writes tx))] (db_table db);
            _ \<leftarrow> hash_table_destroy (Some (txn_writes tx));
            Some (SUCCESS, db\<lparr>db_table := t\<rparr>) })"

text \<open>The entries \<open>transaction_rollback\<close> frees with the transaction.\<close>

definition transaction_rollback :: "transaction_t option \<Rightarrow> (error_code_t \<times> hash_entry_t list) option" where
  "transaction_rollback txn =
     (case txn of
        None \<Rightarrow> Some (ERROR_INVALID_PARAM, [])
      | Some tx \<Rightarrow> do { freed \<leftarrow> hash_table_destroy (Some (txn_writes tx)); Some (SUCCESS, freed) })"

definition transaction_put ::
  "transaction_t option \<Rightarrow> cstr option \<Rightarrow> bytes option \<Rightarrow> u64 \<Rightarrow> (error_code_t \<times> transaction_t option) option" where
  "transaction_put txn key value value_size =
     (case (txn, key, value) of
        (Some tx, Some k, Some buf) \<Rightarrow> do {
          (result, t) \<leftarrow> hash_table_put (Some (txn_writes tx)) key buf value_size;
          t \<leftarrow> t;
          Some (result, Some (tx\<lparr>txn_writes := t\<rparr>)) }
      | _ \<Rightarrow> Some (ERROR_INVALID_PARAM, txn))"

definition transaction_get ::
  "transaction_t option \<Rightarrow> database_t \<Rightarrow> cstr option \<Rightarrow> bool \<Rightarrow> bool \<Rightarrow>
     (error_code_t \<times> bytes option \<times> u64 option) option" where
  "transaction_get txn db key want_value want_size =
     (case (txn, key) of
        (Some tx, Some k) \<Rightarrow> do {
          (result, value, size) \<leftarrow> hash_table_get (Some (txn_writes tx)) key want_value want_size;
          if result = SUCCESS then Some (SUCCESS, value, size)
          else database_get (Some db) key want_value want_size }
      | _ \<Rightarrow> Some (ERROR_INVALID_PARAM, None, None))"

definition transaction_delete ::
  "transaction_t option \<Rightarrow> cstr option \<Rightarrow> (error_code_t \<times> transaction_t option) option" where
  "transaction_delete txn key =
     (case (txn, key) of
        (Some tx, Some k) \<Rightarrow> do {
          (result, t) \<leftarrow> hash_table_delete (Some (txn_writes tx)) key;
          t \<leftarrow> t;
          Some (result, Some (tx\<lparr>txn_writes := t\<rparr>)) }
      | _ \<Rightarrow> Some (ERROR_INVALID_PARAM, txn))"

section \<open>Placeholders and statistics\<close>

definition database_create_index :: "database_t option \<Rightarrow> cstr option \<Rightarrow> index_type_t \<Rightarrow> error_code_t" where
  "database_create_index db index_name type = SUCCESS"

definition database_drop_index :: "database_t option \<Rightarrow> cstr option \<Rightarrow> error_code_t" where
  "database_drop_index db index_name = SUCCESS"

definition database_compact :: "database_t option \<Rightarrow> error_code_t" where
  "database_compact db = SUCCESS"

definition database_get_stats ::
  "filesystem \<Rightarrow> database_t option \<Rightarrow> database_stats_t option \<Rightarrow>
     (error_code_t \<times> database_stats_t option) option" where
  "database_get_stats fs db stats =
     (case (db, stats) of
        (Some d, Some _) \<Rightarrow> do {
          total \<leftarrow> for_each (\<lambda>i total. do {
                     chain \<leftarrow> arr_get (ht_buckets (db_table d)) i;
                     for_each (\<lambda>entry total.
                       Some (total + (of_nat (length (he_key entry)) + he_value_size entry))) chain total })
                   [0..<unat (bucket_count (db_table d))] 0;
          Some (SUCCESS, Some \<lparr>num_keys = ht_size (db_table d), total_size = total,
            wal_size = (if wal_fd d \<ge> 0 then of_nat (length (wal_content fs d)) else 0),
            num_transactions = next_txn_id d - 1\<rparr>) }
      | _ \<Rightarrow> Some (ERROR_INVALID_PARAM, stats))"

end
