(* ===== verification/Database_Correct.thy ===== *)
theory Database_Correct
  imports Database
begin

text \<open>
  Correctness of the database: the operations act on the map \<open>ht_map (db_table d)\<close> as reads,
  updates and deletions; a log record decodes to what was encoded; replaying the log of a
  database that was not closed rebuilds its map; committing a transaction overrides the map by
  the write set. The client proofs go through the contract \<open>kv_table\<close> of the hash table.
\<close>

section \<open>Records\<close>

lemma length_le_bytes [simp]: "length (le_bytes n x) = n"
  by (induction n arbitrary: x) auto

lemma le_val_le_bytes: "le_val (le_bytes n x) = x mod 256 ^ n"
proof (induction n arbitrary: x)
  case 0
  then show ?case by simp
next
  case (Suc n)
  have "unat (of_nat (x mod 256) :: u8) = x mod 256" by (simp add: unat_of_nat)
  with Suc show ?case by (simp add: mod_mult2_eq)
qed

lemma le_val_u32: "le_val (le_bytes 4 (unat (w :: u32))) = unat w"
  using unat_u32_less [of w] by (simp add: le_val_le_bytes)

lemma le_val_u64: "le_val (le_bytes 8 (unat (w :: u64))) = unat w"
  using unat_u64_less [of w] by (simp add: le_val_le_bytes)

lemma length_wal_encode [simp]: "length (wal_encode w) = sizeof_wal_entry"
  by (simp add: wal_encode_def sizeof_wal_entry_def)

lemma wal_decode_encode [simp]: "wal_decode (wal_encode w) = w"
  by (simp add: wal_decode_def wal_encode_def le_val_u32 le_val_u64)

lemma char_of_byte_eq: "byte_of_char c = 0 \<longleftrightarrow> c = CHR 0x00"
proof -
  have "byte_of_char (CHR 0x00) = 0" by (simp add: byte_of_char_def)
  then show ?thesis by (metis byte_of_char_inj)
qed

lemma c_str_at_key:
  assumes "c_string k"
  shows "c_str_at (key_bytes k @ rest) = Some k"
proof -
  have "\<forall>b \<in> set (map byte_of_char k). b \<noteq> 0"
    using assms by (auto simp: c_string_def char_of_byte_eq)
  then have "takeWhile (\<lambda>b. b \<noteq> 0) (map byte_of_char k @ 0 # rest) = map byte_of_char k"
    by (subst takeWhile_append2) auto
  then show ?thesis by (simp add: c_str_at_def key_bytes_def comp_def)
qed

section \<open>Replay of a log\<close>

definition wal_header :: "wal_entry_type_t \<Rightarrow> cstr \<Rightarrow> bytes \<Rightarrow> wal_entry_t" where
  "wal_header ty k v =
     \<lparr>wal_magic = WAL_MAGIC, wal_type = wal_entry_type_val ty, wal_txn_id = 0,
      wal_key_size = of_nat (length k + 1), wal_value_size = of_nat (length v)\<rparr>"

fun op_bytes :: "(cstr, bytes) kv_op \<Rightarrow> bytes" where
  "op_bytes (KPut k v) = wal_encode (wal_header WAL_ENTRY_PUT k v) @ key_bytes k @ v"
| "op_bytes (KDel k) = wal_encode (wal_header WAL_ENTRY_DELETE k []) @ key_bytes k"

fun log_ok :: "(cstr, bytes) kv_op \<Rightarrow> bool" where
  "log_ok (KPut k v) \<longleftrightarrow> c_string k \<and> length k + 1 + length v < 2 ^ 32"
| "log_ok (KDel k) \<longleftrightarrow> c_string k \<and> length k + 1 < 2 ^ 32"

lemma log_ok_value: "log_ok x \<Longrightarrow> op_ok value_ok x"
  by (cases x) (auto simp: value_ok_def)

lemma ucast_of_nat_u32: "n < 2 ^ 32 \<Longrightarrow> (ucast (of_nat n :: u32) :: u64) = of_nat n"
  by (metis of_nat_unat unat_of_nat_u32)

lemma length_key_bytes [simp]: "length (key_bytes k) = length k + 1"
  by (simp add: key_bytes_def)

lemma wal_record_header:
  assumes "length k + 1 + length v < 2 ^ 32"
  shows "wal_record ty k v = Some (wal_encode (wal_header ty k v) @ key_bytes k @ v)"
proof -
  let ?n = "sizeof_wal_entry + (length k + 1) + length v"
  have "of_nat sizeof_wal_entry + (of_nat (length k) + 1) + of_nat (length v) = (of_nat ?n :: u64)"
    by simp
  moreover have "unat (of_nat ?n :: u64) = ?n"
    using assms by (intro unat_of_nat_u64) (simp add: sizeof_wal_entry_def)
  moreover have "(ucast (of_nat m :: u64) :: u32) = of_nat m" for m
    by (simp add: unsigned_of_nat word_of_nat_eq_iff)
  moreover from this [of "length k + 1"] have "(ucast (of_nat (length k) + 1 :: u64) :: u32) = of_nat (length k + 1)"
    by (simp add: add.commute)
  ultimately show ?thesis
    by (simp add: wal_record_def wal_header_def Let_def ac_simps)
qed

lemma recover_put:
  assumes "log_ok (KPut k v)"
  shows "recover_loop junk (op_bytes (KPut k v) @ rest) t =
     (case ht_put t k v of None \<Rightarrow> None | Some t' \<Rightarrow> recover_loop junk rest t')"
proof -
  let ?w = "wal_header WAL_ENTRY_PUT k v"
  have len: "length k + 1 + length v < 2 ^ 32" "length k + 1 < 2 ^ 32" "length v < 2 ^ 32"
    using assms by auto
  have n: "unat (wal_key_size ?w + wal_value_size ?w) = length (key_bytes k @ v)"
    using unat_of_nat_u32 [OF len(1)] by (simp add: wal_header_def algebra_simps)
  have ks: "unat (wal_key_size ?w) = length (key_bytes k)"
    using unat_of_nat_u32 [OF len(2)] by (simp add: wal_header_def)
  have vs: "ucast (wal_value_size ?w) = (of_nat (length v) :: u64)"
    using ucast_of_nat_u32 [OF len(3)] by (simp add: wal_header_def)
  have take: "take sizeof_wal_entry (op_bytes (KPut k v) @ rest) = wal_encode ?w"
    and drop: "drop sizeof_wal_entry (op_bytes (KPut k v) @ rest) = (key_bytes k @ v) @ rest"
    and long: "\<not> length (op_bytes (KPut k v) @ rest) < sizeof_wal_entry"
    by simp_all
  have ty: "wal_type ?w = wal_entry_type_val WAL_ENTRY_PUT" "wal_magic ?w = WAL_MAGIC"
    by (simp_all add: wal_header_def)
  have key: "c_str_at (key_bytes k @ v) = Some k" using assms by (intro c_str_at_key) simp
  show ?thesis
    unfolding recover_loop.simps [of junk "op_bytes (KPut k v) @ rest"] take drop wal_decode_encode Let_def n ks vs ty
    using long key by (auto simp: ht_put_def split: option.splits)
qed

lemma recover_del:
  assumes "log_ok (KDel k)"
  shows "recover_loop junk (op_bytes (KDel k) @ rest) t =
     (case ht_del t k of None \<Rightarrow> None | Some t' \<Rightarrow> recover_loop junk rest t')"
proof -
  let ?w = "wal_header WAL_ENTRY_DELETE k []"
  have n: "unat (wal_key_size ?w + wal_value_size ?w) = length (key_bytes k)"
    using assms unat_of_nat_u32 [of "length k + 1"] by (simp add: wal_header_def)
  have take: "take sizeof_wal_entry (op_bytes (KDel k) @ rest) = wal_encode ?w"
    and drop: "drop sizeof_wal_entry (op_bytes (KDel k) @ rest) = key_bytes k @ rest"
    and long: "\<not> length (op_bytes (KDel k) @ rest) < sizeof_wal_entry"
    by simp_all
  have ty: "wal_type ?w = wal_entry_type_val WAL_ENTRY_DELETE" "wal_magic ?w = WAL_MAGIC"
    by (simp_all add: wal_header_def)
  have key: "c_str_at (key_bytes k) = Some k" using assms c_str_at_key [of k "[]"] by simp
  show ?thesis
    unfolding recover_loop.simps [of junk "op_bytes (KDel k) @ rest"] take drop wal_decode_encode Let_def n ty
    using long key by (auto simp: ht_del_def split: option.splits)
qed

lemma recover_op:
  assumes "log_ok x"
  shows "recover_loop junk (op_bytes x @ rest) t =
     (case kv_do ht_put ht_del x t of None \<Rightarrow> None | Some t' \<Rightarrow> recover_loop junk rest t')"
  using assms recover_put recover_del by (cases x) simp_all

lemma recover_log:
  "list_all log_ok xs \<Longrightarrow> recover_loop junk (concat (map op_bytes xs) @ rest) t =
     (case for_each (kv_do ht_put ht_del) xs t of None \<Rightarrow> None | Some t' \<Rightarrow> recover_loop junk rest t')"
  by (induction xs arbitrary: t) (auto simp: recover_op split: option.splits)

text \<open>A tail shorter than a record header, left by a torn write, ends the replay.\<close>

lemma recover_tail: "length rest < sizeof_wal_entry \<Longrightarrow> recover_loop junk rest t = Some t"
  by (subst recover_loop.simps) simp

lemma recover_log_map:
  assumes "list_all log_ok xs" and "length tail < sizeof_wal_entry" and "ht_wf t"
  shows "\<exists>t'. recover_loop junk (concat (map op_bytes xs) @ tail) t = Some t' \<and> ht_wf t'
     \<and> ht_map t' = fold apply_op xs (ht_map t)"
proof -
  have "list_all (op_ok value_ok) xs" using assms(1) by (auto simp: list_all_iff log_ok_value)
  from ht.replay_law [OF assms(3) this] recover_log [OF assms(1), of junk tail t] recover_tail [OF assms(2)]
  show ?thesis by auto
qed

section \<open>Live database and its log\<close>

abbreviation db_map :: "database_t \<Rightarrow> cstr \<rightharpoonup> bytes" where
  "db_map d \<equiv> ht_map (db_table d)"

lemma wal_path_update [simp]:
  "wal_path (d\<lparr>db_table := t\<rparr>) = wal_path d" "wal_path (d\<lparr>wal_fd := fd\<rparr>) = wal_path d"
  "wal_path (d\<lparr>next_txn_id := n\<rparr>) = wal_path d" "wal_path (d\<lparr>is_open := b\<rparr>) = wal_path d"
  by (simp_all add: wal_path_def)

lemma wal_content_path: "wal_path d' = wal_path d \<Longrightarrow> wal_content fs d' = wal_content fs d"
  by (simp add: wal_content_def)

lemma wal_content_write [simp]:
  "wal_content (wal_write fs d bs n) d = wal_content fs d @ take n bs"
  by (simp add: wal_write_def wal_content_def)

text \<open>
  One logged operation on an open database. The kernel stores the whole record, as \<open>write\<close>
  does on a regular file with free space.
\<close>

fun db_exec :: "database_t \<times> filesystem \<Rightarrow> (cstr, bytes) kv_op \<Rightarrow> (database_t \<times> filesystem) option" where
  "db_exec (d, fs) (KPut k v) =
     (case database_put fs (Some d) (Some k) (Some v) (of_nat (length v)) (length (op_bytes (KPut k v))) of
        Some (_, Some d', fs') \<Rightarrow> Some (d', fs') | _ \<Rightarrow> None)"
| "db_exec (d, fs) (KDel k) =
     (case database_delete fs (Some d) (Some k) (length (op_bytes (KDel k))) of
        Some (_, Some d', fs') \<Rightarrow> Some (d', fs') | _ \<Rightarrow> None)"

fun db_op_ok :: "(cstr, bytes) kv_op \<Rightarrow> bool" where
  "db_op_ok (KPut k v) \<longleftrightarrow> v \<noteq> [] \<and> log_ok (KPut k v)"
| "db_op_ok (KDel k) \<longleftrightarrow> log_ok (KDel k)"

lemma db_op_ok_log: "db_op_ok x \<Longrightarrow> log_ok x"
  by (cases x) auto

text \<open>The database after \<open>xs\<close>, on a map \<open>m0\<close> and behind \<open>base\<close> in its log.\<close>

definition wal_rel ::
  "cstr \<Rightarrow> bytes \<Rightarrow> (cstr \<rightharpoonup> bytes) \<Rightarrow> database_t \<times> filesystem \<Rightarrow> (cstr, bytes) kv_op list \<Rightarrow> bool" where
  "wal_rel dir base m0 s xs \<longleftrightarrow>
     (case s of (d, fs) \<Rightarrow>
        data_dir d = dir \<and> 0 \<le> wal_fd d \<and> ht_wf (db_table d) \<and> list_all log_ok xs
      \<and> db_map d = fold apply_op xs m0 \<and> wal_content fs d = base @ concat (map op_bytes xs))"

lemma database_put_any:
  assumes "ht_wf (db_table d)" and "db_op_ok (KPut k v)"
  shows "\<exists>t. database_put fs (Some d) (Some k) (Some v) (of_nat (length v)) n =
         Some (SUCCESS, Some (d\<lparr>db_table := t\<rparr>),
           if 0 \<le> wal_fd d then wal_write fs d (op_bytes (KPut k v)) n else fs)
     \<and> ht_wf t \<and> ht_map t = (db_map d)(k \<mapsto> v)"
proof -
  have ok: "length k + 1 + length v < 2 ^ 32" "value_ok v" and "v \<noteq> []"
    using assms(2) by (auto simp: value_ok_def)
  have u: "unat (of_nat (length v) :: u64) = length v" using ok(2) by (rule value_ok_unat)
  then have nz: "(of_nat (length v) :: u64) \<noteq> 0" using \<open>v \<noteq> []\<close> by auto
  obtain t where "hash_table_put (Some (db_table d)) (Some k) v (of_nat (length v)) = Some (SUCCESS, Some t)"
    "ht_wf t" "ht_map t = (db_map d)(k \<mapsto> v)"
    using hash_table_put_wf [OF assms(1), of "of_nat (length v)" v k] u by auto
  with nz u wal_record_header [OF ok(1)] show ?thesis
    by (auto simp: database_put_def)
qed

lemma database_delete_any:
  assumes "ht_wf (db_table d)" and "db_op_ok (KDel k)"
  shows "\<exists>t. database_delete fs (Some d) (Some k) n =
         Some (if db_map d k = None then ERROR_NOT_FOUND else SUCCESS, Some (d\<lparr>db_table := t\<rparr>),
           if 0 \<le> wal_fd d then wal_write fs d (op_bytes (KDel k)) n else fs)
     \<and> ht_wf t \<and> ht_map t = (db_map d)(k := None)"
  using assms hash_table_delete_wf [OF assms(1), of k] wal_record_header [of k "[]" WAL_ENTRY_DELETE]
  by (auto simp: database_delete_def)

lemma db_exec_sim:
  assumes "wal_rel dir base m0 s xs" and "db_op_ok x"
  shows "\<exists>s'. db_exec s x = Some s' \<and> wal_rel dir base m0 s' (xs @ [x])"
proof -
  obtain d fs where s: "s = (d, fs)" by fastforce
  have rel: "data_dir d = dir" "0 \<le> wal_fd d" "ht_wf (db_table d)" "list_all log_ok xs"
    "db_map d = fold apply_op xs m0" "wal_content fs d = base @ concat (map op_bytes xs)"
    using assms(1) by (simp_all add: wal_rel_def s)
  have ok: "log_ok x" using assms(2) by (rule db_op_ok_log)
  have content: "wal_content (wal_write fs d (op_bytes x) (length (op_bytes x))) (d\<lparr>db_table := t\<rparr>) =
      base @ concat (map op_bytes (xs @ [x]))" for t
    using rel(6) by (subst wal_content_path [of _ d]) simp_all
  show ?thesis
  proof (cases x)
    case (KPut k v)
    with database_put_any [OF rel(3), of k v fs "length (op_bytes x)"] assms(2) rel ok content
    show ?thesis by (auto simp: s wal_rel_def simp del: op_bytes.simps)
  next
    case (KDel k)
    with database_delete_any [OF rel(3), of k fs "length (op_bytes x)"] assms(2) rel ok content
    show ?thesis by (auto simp: s wal_rel_def simp del: op_bytes.simps)
  qed
qed

interpretation db_log: refinement db_exec "\<lambda>_. db_op_ok" "\<lambda>xs x. xs @ [x]" "wal_rel dir base m0" for dir base m0
  by unfold_locales (rule db_exec_sim)

lemma foldl_snoc: "foldl (\<lambda>xs x. xs @ [x]) ys xs = ys @ xs"
  by (induction xs arbitrary: ys) auto

lemma run_ok_const: "list_all P xs \<Longrightarrow> run_ok step (\<lambda>_. P) s xs"
  by (induction xs arbitrary: s) (auto split: option.split)

lemma database_open_recovered:
  assumes "\<not> is_open d" and "0 \<le> fd" and "recover_loop junk (wal_content fs d) (db_table d) = Some t"
  shows "database_open junk fd fs (Some d) =
     Some (SUCCESS, Some (d\<lparr>wal_fd := fd, db_table := t, is_open := True\<rparr>), fs(wal_path d \<mapsto> wal_content fs d))"
proof -
  have "wal_content (fs(wal_path d \<mapsto> wal_content fs d)) (d\<lparr>wal_fd := fd\<rparr>) = wal_content fs d"
    by (simp add: wal_content_def)
  with assms show ?thesis by (simp add: database_open_def database_recover_def)
qed

lemma database_open_any:
  assumes "\<not> is_open d" and "0 \<le> fd" and "ht_wf (db_table d)"
    and "wal_content fs d = concat (map op_bytes xs) @ tail"
    and "list_all log_ok xs" and "length tail < sizeof_wal_entry"
  shows "\<exists>t. database_open junk fd fs (Some d) =
         Some (SUCCESS, Some (d\<lparr>wal_fd := fd, db_table := t, is_open := True\<rparr>), fs(wal_path d \<mapsto> wal_content fs d))
     \<and> ht_wf t \<and> ht_map t = fold apply_op xs (db_map d)"
proof -
  obtain t where t: "recover_loop junk (concat (map op_bytes xs) @ tail) (db_table d) = Some t"
    "ht_wf t" "ht_map t = fold apply_op xs (db_map d)"
    using recover_log_map [OF assms(5,6,3)] by auto
  with assms(4) database_open_recovered [OF assms(1,2), of junk fs t] show ?thesis by auto
qed

lemma database_open_map:
  assumes "0 \<le> fd" and "fs (wal_path (database_create dir)) = Some (concat (map op_bytes xs) @ tail)"
    and "list_all log_ok xs" and "length tail < sizeof_wal_entry"
  shows "\<exists>d. database_open junk fd fs (Some (database_create dir)) = Some (SUCCESS, Some d, fs)
     \<and> db_map d = fold apply_op xs Map.empty \<and> ht_wf (db_table d) \<and> wal_fd d = fd
     \<and> data_dir d = dir \<and> is_open d"
proof -
  let ?d = "database_create dir"
  have t0: "\<not> is_open ?d" "data_dir ?d = dir" "ht_wf (db_table ?d)" "db_map ?d = Map.empty"
    using hash_table_create_wf [of 1024] by (simp_all add: database_create_def)
  have "wal_content fs ?d = concat (map op_bytes xs) @ tail" "fs(wal_path ?d \<mapsto> wal_content fs ?d) = fs"
    using assms(2) by (auto simp: wal_content_def)
  with database_open_any [OF t0(1) assms(1) t0(3) _ assms(3,4), of fs junk] t0(2,4) show ?thesis by force
qed

lemma wal_path_dir: "data_dir d = data_dir d' \<Longrightarrow> wal_path d = wal_path d'"
  by (simp add: wal_path_def)

section \<open>Durability\<close>

text \<open>
  C4: Crash recovery. Open a database on an empty log, perform any sequence of puts and deletes,
  lose the memory of the process, even with a further write torn inside its 24-byte header:
  opening the directory again succeeds and rebuilds exactly the map the live database had,
  which is the composition of the operations. The record sizes fit the 32-bit fields and keys
  are C strings.
\<close>

theorem database_crash_recovery:
  assumes "0 \<le> fd" and "0 \<le> fd'" and "fs (wal_path (database_create dir)) = Some []"
    and "list_all db_op_ok ops" and "length torn < sizeof_wal_entry"
  shows "\<exists>d0 d fs' d'. database_open junk fd fs (Some (database_create dir)) = Some (SUCCESS, Some d0, fs)
     \<and> run db_exec (d0, fs) ops = Some (d, fs')
     \<and> database_open junk' fd' (wal_write fs' d torn (length torn)) (Some (database_create dir)) =
         Some (SUCCESS, Some d', wal_write fs' d torn (length torn))
     \<and> db_map d' = db_map d \<and> db_map d = fold apply_op ops Map.empty"
proof -
  obtain d0 where d0: "database_open junk fd fs (Some (database_create dir)) = Some (SUCCESS, Some d0, fs)"
    "db_map d0 = Map.empty" "ht_wf (db_table d0)" "wal_fd d0 = fd" "data_dir d0 = dir"
    using database_open_map [of fd fs dir "[]" "[]" junk] assms(1,3) by (auto simp: sizeof_wal_entry_def)
  have "wal_path d0 = wal_path (database_create dir)"
    using d0(5) by (intro wal_path_dir) (simp add: database_create_def)
  then have "wal_rel dir [] Map.empty (d0, fs) []" using d0 assms(1,3) by (simp add: wal_rel_def wal_content_def)
  from db_log.run_refines [OF this run_ok_const, of ops] assms(4)
  obtain d fs' where run: "run db_exec (d0, fs) ops = Some (d, fs')" and rel: "wal_rel dir [] Map.empty (d, fs') ops"
    by (auto simp: foldl_snoc)
  have path: "wal_path d = wal_path (database_create dir)"
    using rel by (intro wal_path_dir) (simp add: wal_rel_def database_create_def)
  have "wal_write fs' d torn (length torn) (wal_path (database_create dir)) =
      Some (concat (map op_bytes ops) @ torn)"
    using rel by (simp add: wal_write_def path wal_rel_def)
  from database_open_map [of fd' "wal_write fs' d torn (length torn)" dir ops torn junk', OF assms(2) this _ assms(5)]
    run rel d0(1) show ?thesis
    by (auto simp: wal_rel_def)
qed

theorem database_crash_recovery_witness:
  "\<exists>d0 d fs' d'. database_open (\<lambda>_ _. 7) 3 [''db/wal.log'' \<mapsto> []] (Some (database_create ''db'')) =
       Some (SUCCESS, Some d0, [''db/wal.log'' \<mapsto> []])
     \<and> run db_exec (d0, [''db/wal.log'' \<mapsto> []]) [KPut ''a'' [1], KPut ''b'' [2, 3], KDel ''a''] = Some (d, fs')
     \<and> database_open (\<lambda>_ _. 9) 4 (wal_write fs' d [0, 76] (length [0, 76 :: u8])) (Some (database_create ''db'')) =
         Some (SUCCESS, Some d', wal_write fs' d [0, 76] (length [0, 76 :: u8]))
     \<and> db_map d' = db_map d
     \<and> db_map d = fold apply_op [KPut ''a'' [1], KPut ''b'' [2, 3], KDel ''a''] Map.empty"
  by (rule database_crash_recovery)
    (simp_all add: wal_path_def database_create_def c_string_def sizeof_wal_entry_def)

text \<open>A tail that does not start with the magic number ends the replay too.\<close>

lemma recover_bad_magic:
  assumes "of_nat (le_val (take 4 rest)) \<noteq> WAL_MAGIC"
  shows "recover_loop junk rest t = Some t"
  using assms by (subst recover_loop.simps) (simp add: Let_def wal_decode_def sizeof_wal_entry_def)

lemma op_bytes_magic: "take 4 (op_bytes x) = [0, 0x4C, 0x41, 0x57]"
proof -
  have four: "(4 :: nat) = Suc (Suc (Suc (Suc 0)))" by simp
  have "le_bytes 4 (unat WAL_MAGIC) = [0, 0x4C, 0x41, 0x57]" unfolding four WAL_MAGIC_def by simp
  then show ?thesis by (cases x) (simp_all add: wal_encode_def wal_header_def)
qed

lemma torn_magic:
  assumes "0 < m" and "m < 4" and "ys \<noteq> []"
  shows "(of_nat (le_val (take 4 (take m (op_bytes x) @ concat (map op_bytes ys)))) :: u32) \<noteq> WAL_MAGIC"
proof -
  obtain y ys' where ys: "ys = y # ys'" using assms(3) by (cases ys) auto
  obtain r where r: "op_bytes y = [0, 0x4C, 0x41, 0x57] @ r" using op_bytes_magic by (metis append_take_drop_id)
  obtain q where q: "op_bytes x = [0, 0x4C, 0x41, 0x57] @ q" using op_bytes_magic by (metis append_take_drop_id)
  consider "m = Suc 0" | "m = Suc (Suc 0)" | "m = Suc (Suc (Suc 0))" using assms(1,2) by linarith
  then show ?thesis by cases (simp_all add: ys r q WAL_MAGIC_def)
qed

lemma recover_behind_torn:
  assumes "0 < m" and "m < 4" and "list_all log_ok xs" and "ht_wf t"
  shows "\<exists>t'. recover_loop junk (concat (map op_bytes xs) @ take m (op_bytes x) @ concat (map op_bytes ys)) t = Some t'
     \<and> ht_wf t' \<and> ht_map t' = fold apply_op xs (ht_map t)"
proof -
  have tail: "recover_loop junk (take m (op_bytes x) @ concat (map op_bytes ys)) t' = Some t'" for t'
  proof (cases ys)
    case Nil
    with assms(2) show ?thesis by (intro recover_tail) (simp add: sizeof_wal_entry_def)
  next
    case (Cons y ys')
    with torn_magic [OF assms(1,2), of ys x] show ?thesis by (intro recover_bad_magic) simp
  qed
  have "recover_loop junk (concat (map op_bytes xs) @ []) t = for_each (kv_do ht_put ht_del) xs t"
    using recover_log [OF assms(3), of junk "[]" t] recover_tail [of "[]"]
    by (simp add: sizeof_wal_entry_def split: option.splits)
  with recover_log_map [OF assms(3) _ assms(4), of "[]" junk]
    recover_log [OF assms(3), of junk "take m (op_bytes x) @ concat (map op_bytes ys)" t] tail
  show ?thesis by (auto simp: sizeof_wal_entry_def)
qed

text \<open>
  C33: A torn record hides everything written after it. When a crash leaves the first one to three
  bytes of a record at the end of the log, opening the database succeeds and the following
  puts and deletes succeed and are logged behind those bytes; but the next recovery stops at
  them, and all the later operations are gone.
\<close>

theorem database_torn_tail_loses_writes:
  assumes "0 \<le> fd" and "0 \<le> fd'" and "0 < m" and "m < 4" and "list_all log_ok xs" and "list_all db_op_ok ys"
    and "fs (wal_path (database_create dir)) = Some (concat (map op_bytes xs) @ take m (op_bytes x))"
  shows "\<exists>d1 d2 fs2 d3. database_open junk fd fs (Some (database_create dir)) = Some (SUCCESS, Some d1, fs)
     \<and> run db_exec (d1, fs) ys = Some (d2, fs2) \<and> db_map d2 = fold apply_op ys (fold apply_op xs Map.empty)
     \<and> database_open junk' fd' fs2 (Some (database_create dir)) = Some (SUCCESS, Some d3, fs2)
     \<and> db_map d3 = fold apply_op xs Map.empty"
proof -
  let ?base = "concat (map op_bytes xs) @ take m (op_bytes x)" and ?m0 = "fold apply_op xs Map.empty"
  let ?d = "database_create dir"
  have d0: "ht_wf (db_table ?d)" "db_map ?d = Map.empty" "\<not> is_open ?d" "data_dir ?d = dir"
    using hash_table_create_wf [of 1024] by (simp_all add: database_create_def)
  have short: "length (take m (op_bytes x)) < sizeof_wal_entry" using assms(4) by (simp add: sizeof_wal_entry_def)
  obtain d1 where d1: "database_open junk fd fs (Some ?d) = Some (SUCCESS, Some d1, fs)" "db_map d1 = ?m0"
    "ht_wf (db_table d1)" "wal_fd d1 = fd" "data_dir d1 = dir"
    using database_open_map [of fd fs dir xs "take m (op_bytes x)" junk, OF assms(1,7,5) short] by blast
  have "wal_path d1 = wal_path ?d" using d1(5) d0(4) by (intro wal_path_dir) simp
  then have "wal_rel dir ?base ?m0 (d1, fs) []" using d1 assms(1,7) by (simp add: wal_rel_def wal_content_def)
  from db_log.run_refines [OF this run_ok_const, of ys] assms(6)
  obtain d2 fs2 where run: "run db_exec (d1, fs) ys = Some (d2, fs2)" and rel: "wal_rel dir ?base ?m0 (d2, fs2) ys"
    by (auto simp: foldl_snoc)
  have "wal_path d2 = wal_path ?d" using rel d0(4) by (intro wal_path_dir) (simp add: wal_rel_def)
  then have content: "wal_content fs2 ?d = concat (map op_bytes xs) @ take m (op_bytes x) @ concat (map op_bytes ys)"
    using rel wal_content_path [of ?d d2 fs2] by (simp add: wal_rel_def)
  obtain t where t: "recover_loop junk' (wal_content fs2 ?d) (db_table ?d) = Some t" "ht_map t = ?m0"
    using recover_behind_torn [OF assms(3-5) d0(1), of junk' x ys] d0(2) content by auto
  have ne: "wal_content fs2 ?d \<noteq> []" using content assms(3) op_bytes_magic [of x] by (cases "op_bytes x") auto
  then have same: "fs2(wal_path ?d \<mapsto> wal_content fs2 ?d) = fs2"
    by (auto simp: wal_content_def split: option.splits)
  then have "database_open junk' fd' fs2 (Some ?d) = Some (SUCCESS, Some (?d\<lparr>wal_fd := fd', db_table := t, is_open := True\<rparr>), fs2)"
    using database_open_recovered [OF d0(3) assms(2) t(1)] by simp
  with d1(1) run rel t(2) show ?thesis by (auto simp: wal_rel_def)
qed

theorem database_torn_tail_loses_writes_witness:
  "\<exists>d1 d2 fs2 d3.
       database_open (\<lambda>_ _. 0) 3 [''db/wal.log'' \<mapsto> concat (map op_bytes [KPut ''a'' [1]]) @ take 2 (op_bytes (KDel ''a''))]
         (Some (database_create ''db'')) =
       Some (SUCCESS, Some d1, [''db/wal.log'' \<mapsto> concat (map op_bytes [KPut ''a'' [1]]) @ take 2 (op_bytes (KDel ''a''))])
     \<and> run db_exec (d1, [''db/wal.log'' \<mapsto> concat (map op_bytes [KPut ''a'' [1]]) @ take 2 (op_bytes (KDel ''a''))])
         [KPut ''b'' [2]] = Some (d2, fs2)
     \<and> db_map d2 = fold apply_op [KPut ''b'' [2]] (fold apply_op [KPut ''a'' [1]] Map.empty)
     \<and> database_open (\<lambda>_ _. 0) 4 fs2 (Some (database_create ''db'')) = Some (SUCCESS, Some d3, fs2)
     \<and> db_map d3 = fold apply_op [KPut ''a'' [1]] Map.empty"
  by (rule database_torn_tail_loses_writes [where x = "KDel ''a''" and m = 2])
    (simp_all add: wal_path_def database_create_def c_string_def)

text \<open>
  C37: Closing a database truncates its log and writes the table nowhere: after a close whose
  truncation succeeds, opening the same directory with a new handle, as the next run of the
  program does, gives an empty database, whatever the old one held.
\<close>

theorem database_close_loses_data:
  assumes "is_open d" and "0 \<le> wal_fd d" and "0 \<le> fd"
  shows "\<exists>d1 fs' d'. database_close True lseek_ok fs (Some d) = (SUCCESS, Some d1, fs')
     \<and> database_open junk fd fs' (Some (database_create (data_dir d))) = Some (SUCCESS, Some d', fs')
     \<and> db_map d' = Map.empty"
proof -
  let ?fs = "fs(wal_path d \<mapsto> [])"
  have close: "database_close True lseek_ok fs (Some d) = (SUCCESS, Some (d\<lparr>wal_fd := -1, is_open := False\<rparr>), ?fs)"
    using assms(1,2) by (simp add: database_close_def database_checkpoint_def Let_def)
  have "wal_path (database_create (data_dir d)) = wal_path d"
    by (intro wal_path_dir) (simp add: database_create_def)
  then have "?fs (wal_path (database_create (data_dir d))) = Some []" by simp
  with database_open_map [of fd ?fs "data_dir d" "[]" "[]" junk] assms(3) close show ?thesis
    by (auto simp: sizeof_wal_entry_def)
qed

definition filled_db :: database_t where
  "filled_db = (database_create ''db'')\<lparr>wal_fd := 3, is_open := True,
     db_table := the (ht_put (hash_table_create 1024) ''k'' [1])\<rparr>"

lemma filled_db_wf: "ht_wf (db_table filled_db)" "db_map filled_db = [''k'' \<mapsto> [1]]"
proof -
  obtain t where t: "ht_put (hash_table_create 1024) ''k'' [1] = Some t" "ht_wf t"
    "ht_map t = (ht_map (hash_table_create 1024))(''k'' \<mapsto> [1])"
    using ht.put_law [OF hash_table_create_wf(1) [of 1024], of "[1]" "''k''"] by (auto simp: value_ok_def)
  then show "ht_wf (db_table filled_db)" "db_map filled_db = [''k'' \<mapsto> [1]]"
    using hash_table_create_wf(2) [of 1024] by (simp_all add: filled_db_def)
qed

theorem database_close_loses_data_witness:
  "\<exists>d1 fs' d'. database_close True True Map.empty (Some filled_db) = (SUCCESS, Some d1, fs')
     \<and> database_open (\<lambda>_ _. 0) 5 fs' (Some (database_create (data_dir filled_db))) = Some (SUCCESS, Some d', fs')
     \<and> db_map d' = Map.empty"
  by (rule database_close_loses_data) (simp_all add: filled_db_def)

lemma recover_torn:
  assumes "log_ok (KPut k v)" and "m < length v"
  shows "recover_loop junk (wal_encode (wal_header WAL_ENTRY_PUT k v) @ key_bytes k @ take m v) t =
     ht_put t k (take m v @ map (junk (sizeof_wal_entry + (length k + 1) + m))
       [length k + 1 + m..<length k + 1 + length v])"
    (is "recover_loop junk (?h @ ?d) t = _")
proof -
  let ?w = "wal_header WAL_ENTRY_PUT k v"
  define j where "j = map (junk (sizeof_wal_entry + (length k + 1) + m)) [length k + 1 + m..<length k + 1 + length v]"
  have lj: "length j = length v - m" unfolding j_def length_map length_upt by simp
  have len: "length k + 1 + length v < 2 ^ 32" "length k + 1 < 2 ^ 32" "length v < 2 ^ 32"
    using assms by auto
  have n: "unat (wal_key_size ?w + wal_value_size ?w) = length k + 1 + length v"
    using unat_of_nat_u32 [OF len(1)] by (simp add: wal_header_def algebra_simps)
  have ks: "unat (wal_key_size ?w) = length (key_bytes k)"
    using unat_of_nat_u32 [OF len(2)] by (simp add: wal_header_def)
  have vs: "ucast (wal_value_size ?w) = (of_nat (length (take m v @ j)) :: u64)"
    using ucast_of_nat_u32 [OF len(3)] assms(2) by (simp add: wal_header_def lj)
  have take: "take sizeof_wal_entry (?h @ ?d) = ?h" "drop sizeof_wal_entry (?h @ ?d) = ?d"
    and long: "\<not> length (?h @ ?d) < sizeof_wal_entry" "length (?h @ ?d) = sizeof_wal_entry + (length k + 1) + m"
    using assms(2) by simp_all
  have got: "take (length k + 1 + length v) ?d = ?d" "drop (length k + 1 + length v) ?d = []"
    and ld: "length ?d = length k + 1 + m"
    using assms(2) by simp_all
  have ty: "wal_type ?w = wal_entry_type_val WAL_ENTRY_PUT" "wal_magic ?w = WAL_MAGIC"
    by (simp_all add: wal_header_def)
  have key: "c_str_at (?d @ j) = Some k" using assms(1) c_str_at_key [of k "take m v @ j"] by simp
  have dk: "drop (length (key_bytes k)) (?d @ j) = take m v @ j" by simp
  have fin: "recover_loop junk [] = Some"
    by (rule ext) (simp add: recover_tail sizeof_wal_entry_def)
  show ?thesis
    unfolding recover_loop.simps [of junk "?h @ ?d"] take wal_decode_encode Let_def n got ks ty long(2) ld vs
      j_def [symmetric] dk key fin ht_put_def
    using long(1) by (auto split: option.splits)
qed

text \<open>
  A record whose value was torn is not detected: recovery ignores how much \<open>read\<close> delivered
  and stores, under the record's key, the bytes that reached the file followed by whatever the
  allocator left in the buffer.
\<close>

theorem recover_applies_torn_value:
  assumes "log_ok (KPut k v)" and "m < length v" and "ht_wf t"
  shows "\<exists>t'. recover_loop junk (take (sizeof_wal_entry + (length k + 1) + m) (op_bytes (KPut k v))) t = Some t'
     \<and> ht_map t' = (ht_map t)(k \<mapsto> take m v @ map (junk (sizeof_wal_entry + (length k + 1) + m))
         [length k + 1 + m..<length k + 1 + length v])"
proof -
  let ?x = "take m v @ map (junk (sizeof_wal_entry + (length k + 1) + m)) [length k + 1 + m..<length k + 1 + length v]"
  have "length ?x = length v" using assms(2) by simp
  then have "value_ok ?x" using assms(1) by (simp add: value_ok_def)
  from ht.put_law [OF assms(3) this, of k] recover_torn [OF assms(1,2), of junk t] assms(2)
  show ?thesis by auto
qed

theorem recover_applies_torn_value_witness:
  "\<exists>t'. recover_loop (\<lambda>_ _. 0xAA) (take (sizeof_wal_entry + (length ''k'' + 1) + 1) (op_bytes (KPut ''k'' [1, 2, 3])))
      (hash_table_create 1024) = Some t'
     \<and> ht_map t' = (ht_map (hash_table_create 1024))(''k'' \<mapsto> take 1 [1, 2, 3] @
         map ((\<lambda>_ _. 0xAA) (sizeof_wal_entry + (length ''k'' + 1) + 1))
           [length ''k'' + 1 + 1..<length ''k'' + 1 + length [1, 2, 3 :: u8]])"
  by (rule recover_applies_torn_value) (simp_all add: c_string_def hash_table_create_wf)

section \<open>Reads, writes and transactions\<close>

lemma database_get_map:
  assumes "ht_wf (db_table d)"
  shows "database_get (Some d) (Some k) want_value want_size =
     Some (case db_map d k of
             None \<Rightarrow> (ERROR_NOT_FOUND, None, None)
           | Some v \<Rightarrow> (SUCCESS, if want_value then Some v else None,
                       if want_size then Some (of_nat (length v)) else None))"
  using hash_table_get_wf [OF assms, of k want_value want_size] by (simp add: database_get_def)

text \<open>
  Reading after a put: on a well-formed database a put of a non-empty buffer succeeds, keeps
  the table well formed, makes a get of that key return exactly the bytes that were put with
  their size, and changes the result of a get of no other key.
\<close>

theorem database_put_get:
  assumes "ht_wf (db_table d)" and "0 < value_size" and "unat value_size \<le> length buf"
    and "length k + 1 + unat value_size < 2 ^ 32"
  shows "\<exists>d' fs'. database_put fs (Some d) (Some k) (Some buf) value_size written = Some (SUCCESS, Some d', fs')
     \<and> ht_wf (db_table d')
     \<and> database_get (Some d') (Some k') True True =
         (if k' = k then Some (SUCCESS, Some (take (unat value_size) buf), Some value_size)
          else database_get (Some d) (Some k') True True)"
proof -
  let ?v = "take (unat value_size) buf"
  obtain t where t: "hash_table_put (Some (db_table d)) (Some k) buf value_size = Some (SUCCESS, Some t)"
    "ht_wf t" "ht_map t = (db_map d)(k \<mapsto> ?v)"
    using hash_table_put_wf [OF assms(1,3)] by blast
  have len: "length ?v = unat value_size" using assms(3) by simp
  then have "wal_record WAL_ENTRY_PUT k ?v \<noteq> None" using wal_record_header [of k ?v] assms(4) by simp
  with t assms(2,3) have put: "\<exists>fs'. database_put fs (Some d) (Some k) (Some buf) value_size written =
      Some (SUCCESS, Some (d\<lparr>db_table := t\<rparr>), fs')"
    by (auto simp: database_put_def)
  have "(of_nat (length ?v) :: u64) = value_size" unfolding len by simp
  then have "database_get (Some (d\<lparr>db_table := t\<rparr>)) (Some k') True True =
      (if k' = k then Some (SUCCESS, Some ?v, Some value_size) else database_get (Some d) (Some k') True True)"
    using t assms(1) by (simp add: database_get_map)
  with put t(2) show ?thesis by auto
qed

theorem database_put_get_witness:
  "\<exists>d' fs'. database_put Map.empty (Some filled_db) (Some ''n'') (Some [5, 6, 7]) 2 0 = Some (SUCCESS, Some d', fs')
     \<and> ht_wf (db_table d')
     \<and> database_get (Some d') (Some ''k'') True True =
         (if ''k'' = ''n'' then Some (SUCCESS, Some (take (unat (2 :: u64)) [5, 6, 7]), Some 2)
          else database_get (Some filled_db) (Some ''k'') True True)"
  by (rule database_put_get) (simp_all add: filled_db_wf)

lemma commit_body:
  assumes "e \<in> set (ht_entries w)" and "ht_wf w"
  shows "(do { (_, t) \<leftarrow> hash_table_put (Some t) (Some (he_key e)) (he_value e) (he_value_size e); t }) =
     ht_put t (he_key e) (he_value e)"
  using ht_entries_sized [OF assms(2,1)] by (auto simp: ht_put_def split: option.splits)

lemma for_each_map: "for_each body (map f xs) s = for_each (\<lambda>x. body (f x)) xs s"
  by (induction xs arbitrary: s) (auto split: option.split)

lemma transaction_commit_table:
  assumes "ht_wf (db_table d)" and "ht_wf (txn_writes tx)" and "\<not> txn_committed tx"
  shows "\<exists>t. transaction_commit (Some tx) d = Some (SUCCESS, d\<lparr>db_table := t\<rparr>) \<and> ht_wf t
     \<and> ht_map t = db_map d ++ ht_map (txn_writes tx)"
proof -
  let ?es = "ht_entries (txn_writes tx)" and ?kv = "\<lambda>e. (he_key e, he_value e)"
  let ?body = "\<lambda>entry t. do {
    (_, t) \<leftarrow> hash_table_put (Some t) (Some (he_key entry)) (he_value entry) (he_value_size entry); t }"
  have "for_each ?body ?es (db_table d) = for_each (\<lambda>e t. ht_put t (he_key e) (he_value e)) ?es (db_table d)"
    using commit_body [OF _ assms(2)] by (intro for_each_cong ext) simp
  also have "\<dots> = for_each (\<lambda>(k, v) t. ht_put t k v) (map ?kv ?es) (db_table d)"
    by (simp add: for_each_map)
  finally have walk: "for_each ?body ?es (db_table d) = \<dots>" .
  have "list_all (\<lambda>(k, v). value_ok v) (map ?kv ?es)"
    using ht_entries_sized [OF assms(2)] by (simp add: list_all_iff)
  moreover have "distinct (map fst (map ?kv ?es))"
    using ht_entries_distinct [OF assms(2)] by (simp add: comp_def)
  ultimately obtain t where "for_each (\<lambda>(k, v) t. ht_put t k v) (map ?kv ?es) (db_table d) = Some t"
    "ht_wf t" "ht_map t = db_map d ++ ht_map (txn_writes tx)"
    using ht.put_all_law [OF assms(1), of "map ?kv ?es"] ht_map_of_entries [OF assms(2)] by auto
  with walk assms(3) show ?thesis
    by (intro exI [of _ t]) (simp add: transaction_commit_def ht_walk [OF assms(2)] hash_table_destroy_all [OF assms(2)])
qed

lemma transaction_commit_map:
  assumes "ht_wf (db_table d)" and "ht_wf (txn_writes tx)" and "\<not> txn_committed tx"
  shows "\<exists>d'. transaction_commit (Some tx) d = Some (SUCCESS, d') \<and> ht_wf (db_table d')
     \<and> db_map d' = db_map d ++ ht_map (txn_writes tx)"
  using transaction_commit_table [OF assms] by force

text \<open>
  Commit is atomic and complete: in one step under the lock the database map becomes the old
  map overridden by the transaction's write set, every buffered write applied and nothing else
  changed; and before the commit the transaction's own reads already return, for every key,
  what the database returns after it.
\<close>

theorem transaction_commit_view:
  assumes "ht_wf (db_table d)" and "ht_wf (txn_writes tx)" and "\<not> txn_committed tx"
  shows "\<exists>d'. transaction_commit (Some tx) d = Some (SUCCESS, d') \<and> ht_wf (db_table d')
     \<and> db_map d' = db_map d ++ ht_map (txn_writes tx)
     \<and> transaction_get (Some tx) d (Some k) want_value want_size =
         database_get (Some d') (Some k) want_value want_size"
proof -
  obtain d' where d': "transaction_commit (Some tx) d = Some (SUCCESS, d')" "ht_wf (db_table d')"
    "db_map d' = db_map d ++ ht_map (txn_writes tx)"
    using transaction_commit_map [OF assms] by blast
  moreover have "transaction_get (Some tx) d (Some k) want_value want_size =
      database_get (Some d') (Some k) want_value want_size"
    using assms d'(2,3)
    by (simp add: transaction_get_def hash_table_get_wf database_get_map map_add_def split: option.split)
  ultimately show ?thesis by blast
qed

definition sample_txn :: transaction_t where
  "sample_txn = \<lparr>txn_id = 1, txn_level = ISOLATION_SERIALIZABLE,
     txn_writes = the (ht_put (hash_table_create 64) ''w'' [4, 2]), txn_committed = False\<rparr>"

lemma sample_txn_wf: "ht_wf (txn_writes sample_txn)" "ht_map (txn_writes sample_txn) = [''w'' \<mapsto> [4, 2]]"
proof -
  obtain t where "ht_put (hash_table_create 64) ''w'' [4, 2] = Some t" "ht_wf t"
    "ht_map t = (ht_map (hash_table_create 64))(''w'' \<mapsto> [4, 2])"
    using ht.put_law [OF hash_table_create_wf(1) [of 64], of "[4, 2]" "''w''"] by (auto simp: value_ok_def)
  then show "ht_wf (txn_writes sample_txn)" "ht_map (txn_writes sample_txn) = [''w'' \<mapsto> [4, 2]]"
    using hash_table_create_wf(2) [of 64] by (simp_all add: sample_txn_def)
qed

theorem transaction_commit_view_witness:
  "\<exists>d'. transaction_commit (Some sample_txn) filled_db = Some (SUCCESS, d') \<and> ht_wf (db_table d')
     \<and> db_map d' = db_map filled_db ++ ht_map (txn_writes sample_txn)
     \<and> transaction_get (Some sample_txn) filled_db (Some ''w'') True True = database_get (Some d') (Some ''w'') True True"
  by (rule transaction_commit_view [OF filled_db_wf(1) sample_txn_wf(1)]) (simp add: sample_txn_def)

text \<open>
  A delete inside a transaction only forgets the transaction's own write: after deleting a
  key in a transaction and committing, the database maps the key to whatever it mapped it to
  before the transaction. A key that is only in the database is reported as not found.
\<close>

theorem transaction_delete_keeps_database:
  assumes "ht_wf (db_table d)" and "ht_wf (txn_writes tx)" and "\<not> txn_committed tx"
  shows "\<exists>tx' d'. transaction_delete (Some tx) (Some k) =
         Some (if ht_map (txn_writes tx) k = None then ERROR_NOT_FOUND else SUCCESS, Some tx')
     \<and> transaction_commit (Some tx') d = Some (SUCCESS, d')
     \<and> db_map d' k = db_map d k"
proof -
  obtain t where t: "hash_table_delete (Some (txn_writes tx)) (Some k) =
       Some (if ht_map (txn_writes tx) k = None then ERROR_NOT_FOUND else SUCCESS, Some t)" "ht_wf t"
    "ht_map t = (ht_map (txn_writes tx))(k := None)"
    using hash_table_delete_wf [OF assms(2)] by blast
  let ?tx = "tx\<lparr>txn_writes := t\<rparr>"
  have "transaction_delete (Some tx) (Some k) =
      Some (if ht_map (txn_writes tx) k = None then ERROR_NOT_FOUND else SUCCESS, Some ?tx)"
    using t(1) by (simp add: transaction_delete_def)
  moreover obtain d' where "transaction_commit (Some ?tx) d = Some (SUCCESS, d')" "db_map d' = db_map d ++ ht_map t"
    using transaction_commit_map [of d ?tx] assms t(2) by auto
  moreover from this have "db_map d' k = db_map d k" using t(3) by (simp add: map_add_def)
  ultimately show ?thesis by blast
qed

theorem transaction_delete_keeps_database_witness:
  "\<exists>tx' d'. transaction_delete (Some sample_txn) (Some ''k'') =
         Some (if ht_map (txn_writes sample_txn) ''k'' = None then ERROR_NOT_FOUND else SUCCESS, Some tx')
     \<and> transaction_commit (Some tx') filled_db = Some (SUCCESS, d')
     \<and> db_map d' ''k'' = db_map filled_db ''k''"
  by (rule transaction_delete_keeps_database [OF filled_db_wf(1) sample_txn_wf(1)]) (simp add: sample_txn_def)

text \<open>
  The statistics are the true ones: \<open>num_keys\<close> is the number of keys in the map and
  \<open>total_size\<close> the sum of the key lengths and value sizes over all entries, each counted once
  (both modulo \<open>2 ^ 64\<close>).
\<close>

theorem database_get_stats_counts:
  assumes "ht_wf (db_table d)"
  shows "\<exists>st'. database_get_stats fs (Some d) (Some st) = Some (SUCCESS, Some st')
     \<and> num_keys st' = of_nat (card (dom (db_map d)))
     \<and> total_size st' = of_nat (\<Sum>k \<in> dom (db_map d). length k + length (the (db_map d k)))
     \<and> num_transactions st' = next_txn_id d - 1"
proof -
  let ?es = "ht_entries (db_table d)" and ?m = "db_map d"
  have sum: "for_each (\<lambda>e total. Some (total + (of_nat (length (he_key e)) + he_value_size e))) es total =
      Some (total + of_nat (\<Sum>e \<leftarrow> es. length (he_key e) + length (he_value e)))"
    if "set es \<subseteq> set ?es" for es :: "hash_entry_t list" and total :: u64
    using that ht_entries_sized [OF assms] by (induction es arbitrary: total) (auto simp: algebra_simps)
  have dist: "distinct (map he_key ?es)" using assms by (rule ht_entries_distinct)
  have dom: "dom ?m = he_key ` set ?es"
    using ht_map_entry [OF assms] by (auto simp: dom_def)
  have val: "the (?m (he_key e)) = he_value e" if "e \<in> set ?es" for e
    using ht_map_entry [OF assms, of "he_key e" "he_value e"] that by auto
  have keys: "ht_size (db_table d) = of_nat (card (dom ?m))"
    using assms distinct_card [OF dist] by (simp add: dom ht_wf_def ht_entries_def del: length_concat set_concat)
  have "(\<Sum>e \<leftarrow> ?es. length (he_key e) + length (he_value e)) =
      (\<Sum>k \<leftarrow> map he_key ?es. length k + length (the (?m k)))"
    using val by (simp add: comp_def cong: map_cong)
  also have "\<dots> = (\<Sum>k \<in> dom ?m. length k + length (the (?m k)))"
    using sum_list_distinct_conv_sum_set [OF dist] by (simp add: dom)
  finally show ?thesis
    using sum [of ?es 0] keys by (simp add: database_get_stats_def ht_walk [OF assms])
qed

theorem database_get_stats_counts_witness:
  "\<exists>st'. database_get_stats Map.empty (Some filled_db)
       (Some \<lparr>num_keys = 0, total_size = 0, wal_size = 0, num_transactions = 0\<rparr>) = Some (SUCCESS, Some st')
     \<and> num_keys st' = of_nat (card (dom (db_map filled_db)))
     \<and> total_size st' = of_nat (\<Sum>k \<in> dom (db_map filled_db). length k + length (the (db_map filled_db k)))
     \<and> num_transactions st' = next_txn_id filled_db - 1"
  by (rule database_get_stats_counts [OF filled_db_wf(1)])

end
