(* ===== verification/Database_Session.thy ===== *)
theory Database_Session
  imports Database_Correct
begin

text \<open>
  Sessions with the database of \<^verbatim>\<open>src/database/database.c\<close>: any sequence of calls on a handle, its
  log file and the transactions that are open, crashes of the process included. The
  specification of a session is a map, the operations in the log, and a map per open
  transaction. From the refinement follow what transactions guarantee and what they do not.
\<close>

section \<open>Calls\<close>

datatype db_call =
    DB_Open int | DB_Close bool bool | DB_Checkpoint bool bool | DB_Crash
  | DB_Put cstr bytes | DB_Delete cstr | DB_Get cstr
  | DB_Begin addr isolation_level_t | DB_TPut addr cstr bytes | DB_TGet addr cstr | DB_TDelete addr cstr
  | DB_Commit addr | DB_Rollback addr

type_synonym db_answer = "error_code_t \<times> bytes option \<times> u64 option"

record db_session =
  ss_db :: database_t
  ss_fs :: filesystem
  ss_txns :: "addr \<rightharpoonup> transaction_t"
  ss_out :: "db_answer list"

text \<open>
  The kernel stores records whole; a crash loses the memory, and the next life of the program
  creates a new handle for the same directory. A handle of a transaction that is not open is
  a dangling pointer.
\<close>

definition answered :: "error_code_t \<Rightarrow> db_session \<Rightarrow> db_session" where
  "answered r s = s\<lparr>ss_out := ss_out s @ [(r, None, None)]\<rparr>"

fun sess_exec :: "(nat \<Rightarrow> nat \<Rightarrow> u8) \<Rightarrow> db_session \<Rightarrow> db_call \<Rightarrow> db_session option" where
  "sess_exec junk s (DB_Open fd) = do {
     (r, db, fs) \<leftarrow> database_open junk fd (ss_fs s) (Some (ss_db s));
     d \<leftarrow> db;
     Some (answered r (s\<lparr>ss_db := d, ss_fs := fs\<rparr>)) }"
| "sess_exec junk s (DB_Close ftruncate_ok lseek_ok) = do {
     (r, db, fs) \<leftarrow> Some (database_close ftruncate_ok lseek_ok (ss_fs s) (Some (ss_db s)));
     d \<leftarrow> db;
     Some (answered r (s\<lparr>ss_db := d, ss_fs := fs\<rparr>)) }"
| "sess_exec junk s (DB_Checkpoint ftruncate_ok lseek_ok) = do {
     (r, fs) \<leftarrow> Some (database_checkpoint ftruncate_ok lseek_ok (ss_fs s) (Some (ss_db s)));
     Some (answered r (s\<lparr>ss_fs := fs\<rparr>)) }"
| "sess_exec junk s DB_Crash = Some (s\<lparr>ss_db := database_create (data_dir (ss_db s)), ss_txns := Map.empty\<rparr>)"
| "sess_exec junk s (DB_Put k v) = do {
     (r, db, fs) \<leftarrow> database_put (ss_fs s) (Some (ss_db s)) (Some k) (Some v) (of_nat (length v)) (length (op_bytes (KPut k v)));
     d \<leftarrow> db;
     Some (answered r (s\<lparr>ss_db := d, ss_fs := fs\<rparr>)) }"
| "sess_exec junk s (DB_Delete k) = do {
     (r, db, fs) \<leftarrow> database_delete (ss_fs s) (Some (ss_db s)) (Some k) (length (op_bytes (KDel k)));
     d \<leftarrow> db;
     Some (answered r (s\<lparr>ss_db := d, ss_fs := fs\<rparr>)) }"
| "sess_exec junk s (DB_Get k) = do {
     out \<leftarrow> database_get (Some (ss_db s)) (Some k) True True;
     Some (s\<lparr>ss_out := ss_out s @ [out]\<rparr>) }"
| "sess_exec junk s (DB_Begin h level) = do {
     (tx, db) \<leftarrow> Some (database_begin_transaction (Some (ss_db s)) level);
     tx \<leftarrow> tx;
     d \<leftarrow> db;
     Some (s\<lparr>ss_db := d, ss_txns := (ss_txns s)(h \<mapsto> tx)\<rparr>) }"
| "sess_exec junk s (DB_TPut h k v) = do {
     tx \<leftarrow> ss_txns s h;
     (r, tx) \<leftarrow> transaction_put (Some tx) (Some k) (Some v) (of_nat (length v));
     tx \<leftarrow> tx;
     Some (answered r (s\<lparr>ss_txns := (ss_txns s)(h \<mapsto> tx)\<rparr>)) }"
| "sess_exec junk s (DB_TGet h k) = do {
     tx \<leftarrow> ss_txns s h;
     out \<leftarrow> transaction_get (Some tx) (ss_db s) (Some k) True True;
     Some (s\<lparr>ss_out := ss_out s @ [out]\<rparr>) }"
| "sess_exec junk s (DB_TDelete h k) = do {
     tx \<leftarrow> ss_txns s h;
     (r, tx) \<leftarrow> transaction_delete (Some tx) (Some k);
     tx \<leftarrow> tx;
     Some (answered r (s\<lparr>ss_txns := (ss_txns s)(h \<mapsto> tx)\<rparr>)) }"
| "sess_exec junk s (DB_Commit h) = do {
     tx \<leftarrow> ss_txns s h;
     (r, d) \<leftarrow> transaction_commit (Some tx) (ss_db s);
     Some (answered r (s\<lparr>ss_db := d, ss_txns := (ss_txns s)(h := None)\<rparr>)) }"
| "sess_exec junk s (DB_Rollback h) = do {
     tx \<leftarrow> ss_txns s h;
     (r, _) \<leftarrow> transaction_rollback (Some tx);
     Some (answered r (s\<lparr>ss_txns := (ss_txns s)(h := None)\<rparr>)) }"

section \<open>Specification\<close>

record db_spec =
  sp_map :: "cstr \<rightharpoonup> bytes"
  sp_log :: "(cstr, bytes) kv_op list"
  sp_open :: bool
  sp_txns :: "addr \<rightharpoonup> (cstr \<rightharpoonup> bytes)"
  sp_out :: "db_answer list"

definition read_answer :: "bytes option \<Rightarrow> db_answer" where
  "read_answer v = (case v of None \<Rightarrow> (ERROR_NOT_FOUND, None, None) | Some v \<Rightarrow> (SUCCESS, Some v, Some (of_nat (length v))))"

definition says :: "error_code_t \<Rightarrow> db_spec \<Rightarrow> db_spec" where
  "says r a = a\<lparr>sp_out := sp_out a @ [(r, None, None)]\<rparr>"

definition logged :: "(cstr, bytes) kv_op \<Rightarrow> db_spec \<Rightarrow> db_spec" where
  "logged x a = a\<lparr>sp_map := apply_op x (sp_map a), sp_log := (if sp_open a then sp_log a @ [x] else sp_log a)\<rparr>"

fun spec_exec :: "db_spec \<Rightarrow> db_call \<Rightarrow> db_spec" where
  "spec_exec a (DB_Open fd) =
     (if sp_open a then says ERROR_INVALID_PARAM a
      else if fd < 0 then says ERROR_IO a
      else says SUCCESS (a\<lparr>sp_map := fold apply_op (sp_log a) (sp_map a), sp_open := True\<rparr>))"
| "spec_exec a (DB_Close ftruncate_ok lseek_ok) =
     (if \<not> sp_open a then says ERROR_INVALID_PARAM a
      else says SUCCESS (a\<lparr>sp_log := if ftruncate_ok then [] else sp_log a, sp_open := False\<rparr>))"
| "spec_exec a (DB_Checkpoint ftruncate_ok lseek_ok) =
     (if \<not> sp_open a then says ERROR_INVALID_PARAM a
      else says (if ftruncate_ok \<and> lseek_ok then SUCCESS else ERROR_IO)
             (a\<lparr>sp_log := if ftruncate_ok then [] else sp_log a\<rparr>))"
| "spec_exec a DB_Crash = a\<lparr>sp_map := Map.empty, sp_open := False, sp_txns := Map.empty\<rparr>"
| "spec_exec a (DB_Put k v) = says SUCCESS (logged (KPut k v) a)"
| "spec_exec a (DB_Delete k) =
     says (if sp_map a k = None then ERROR_NOT_FOUND else SUCCESS) (logged (KDel k) a)"
| "spec_exec a (DB_Get k) = a\<lparr>sp_out := sp_out a @ [read_answer (sp_map a k)]\<rparr>"
| "spec_exec a (DB_Begin h level) = a\<lparr>sp_txns := (sp_txns a)(h \<mapsto> Map.empty)\<rparr>"
| "spec_exec a (DB_TPut h k v) = says SUCCESS (a\<lparr>sp_txns := (sp_txns a)(h \<mapsto> (the (sp_txns a h))(k \<mapsto> v))\<rparr>)"
| "spec_exec a (DB_TGet h k) = a\<lparr>sp_out := sp_out a @ [read_answer ((sp_map a ++ the (sp_txns a h)) k)]\<rparr>"
| "spec_exec a (DB_TDelete h k) =
     says (if the (sp_txns a h) k = None then ERROR_NOT_FOUND else SUCCESS)
       (a\<lparr>sp_txns := (sp_txns a)(h \<mapsto> (the (sp_txns a h))(k := None))\<rparr>)"
| "spec_exec a (DB_Commit h) =
     says SUCCESS (a\<lparr>sp_map := sp_map a ++ the (sp_txns a h), sp_txns := (sp_txns a)(h := None)\<rparr>)"
| "spec_exec a (DB_Rollback h) = says SUCCESS (a\<lparr>sp_txns := (sp_txns a)(h := None)\<rparr>)"

text \<open>What the caller has to respect: argument sizes, and handles that are open or fresh.\<close>

fun call_ok :: "db_spec \<Rightarrow> db_call \<Rightarrow> bool" where
  "call_ok a (DB_Put k v) \<longleftrightarrow> db_op_ok (KPut k v)"
| "call_ok a (DB_Delete k) \<longleftrightarrow> db_op_ok (KDel k)"
| "call_ok a (DB_Begin h level) \<longleftrightarrow> sp_txns a h = None"
| "call_ok a (DB_TPut h k v) \<longleftrightarrow> sp_txns a h \<noteq> None \<and> value_ok v"
| "call_ok a (DB_TGet h k) \<longleftrightarrow> sp_txns a h \<noteq> None"
| "call_ok a (DB_TDelete h k) \<longleftrightarrow> sp_txns a h \<noteq> None"
| "call_ok a (DB_Commit h) \<longleftrightarrow> sp_txns a h \<noteq> None"
| "call_ok a (DB_Rollback h) \<longleftrightarrow> sp_txns a h \<noteq> None"
| "call_ok a call \<longleftrightarrow> True"

section \<open>Refinement\<close>

definition txn_wf :: "transaction_t \<Rightarrow> bool" where
  "txn_wf tx \<longleftrightarrow> ht_wf (txn_writes tx) \<and> \<not> txn_committed tx"

definition session_wf :: "db_session \<Rightarrow> bool" where
  "session_wf s \<longleftrightarrow>
     ht_wf (db_table (ss_db s)) \<and> (0 \<le> wal_fd (ss_db s) \<longleftrightarrow> is_open (ss_db s))
   \<and> (\<forall>tx \<in> ran (ss_txns s). txn_wf tx)
   \<and> (\<exists>xs. list_all log_ok xs \<and> wal_content (ss_fs s) (ss_db s) = concat (map op_bytes xs))"

definition sess_rel :: "db_session \<Rightarrow> db_spec \<Rightarrow> bool" where
  "sess_rel s a \<longleftrightarrow>
     ht_wf (db_table (ss_db s)) \<and> (0 \<le> wal_fd (ss_db s) \<longleftrightarrow> is_open (ss_db s))
   \<and> (\<forall>tx \<in> ran (ss_txns s). txn_wf tx)
   \<and> list_all log_ok (sp_log a) \<and> wal_content (ss_fs s) (ss_db s) = concat (map op_bytes (sp_log a))
   \<and> db_map (ss_db s) = sp_map a \<and> is_open (ss_db s) = sp_open a \<and> ss_out s = sp_out a
   \<and> (\<forall>h. sp_txns a h = map_option (\<lambda>tx. ht_map (txn_writes tx)) (ss_txns s h))"

lemma sess_rel_wf: "sess_rel s a \<Longrightarrow> session_wf s"
  by (auto simp: sess_rel_def session_wf_def)

lemma sess_rel_txn:
  assumes "sess_rel s a" and "sp_txns a h \<noteq> None"
  obtains tx where "ss_txns s h = Some tx" and "txn_wf tx" and "sp_txns a h = Some (ht_map (txn_writes tx))"
proof -
  have "sp_txns a h = map_option (\<lambda>tx. ht_map (txn_writes tx)) (ss_txns s h)"
    using assms(1) by (auto simp: sess_rel_def)
  with assms that show ?thesis by (cases "ss_txns s h") (auto simp: sess_rel_def ran_def)
qed

lemma sess_rel_txn_update:
  assumes "sess_rel s a" and "txn_wf tx" and "ht_map (txn_writes tx) = m"
  shows "sess_rel (s\<lparr>ss_txns := (ss_txns s)(h \<mapsto> tx)\<rparr>) (a\<lparr>sp_txns := (sp_txns a)(h \<mapsto> m)\<rparr>)"
  using assms by (auto simp: sess_rel_def ran_def)

lemma sess_rel_txn_end:
  assumes "sess_rel s a"
  shows "sess_rel (s\<lparr>ss_txns := (ss_txns s)(h := None)\<rparr>) (a\<lparr>sp_txns := (sp_txns a)(h := None)\<rparr>)"
  using assms by (auto simp: sess_rel_def ran_def)

lemma sess_rel_answered: "sess_rel s a \<Longrightarrow> sess_rel (answered r s) (says r a)"
  by (simp add: sess_rel_def answered_def says_def)

lemma sess_rel_read: "sess_rel s a \<Longrightarrow> sess_rel (s\<lparr>ss_out := ss_out s @ [x]\<rparr>) (a\<lparr>sp_out := sp_out a @ [x]\<rparr>)"
  by (simp add: sess_rel_def)

lemma sess_rel_db:
  assumes "sess_rel s a" and "ht_wf t" and "ht_map t = m"
  shows "sess_rel (s\<lparr>ss_db := (ss_db s)\<lparr>db_table := t\<rparr>\<rparr>) (a\<lparr>sp_map := m\<rparr>)"
  using assms wal_content_path [of "(ss_db s)\<lparr>db_table := t\<rparr>" "ss_db s" "ss_fs s"] by (simp add: sess_rel_def)

lemma sess_logged:
  assumes "sess_rel s a" and "log_ok x" and "ht_wf t" and "ht_map t = apply_op x (sp_map a)"
    and "fs = (if sp_open a then wal_write (ss_fs s) (ss_db s) (op_bytes x) (length (op_bytes x)) else ss_fs s)"
  shows "sess_rel (s\<lparr>ss_db := (ss_db s)\<lparr>db_table := t\<rparr>, ss_fs := fs\<rparr>) (logged x a)"
  using assms wal_content_path [of "(ss_db s)\<lparr>db_table := t\<rparr>" "ss_db s"]
  by (simp add: sess_rel_def logged_def)

lemma sess_put:
  assumes "sess_rel s a" and "db_op_ok (KPut k v)"
  shows "\<exists>s'. sess_exec junk s (DB_Put k v) = Some s' \<and> sess_rel s' (spec_exec a (DB_Put k v))"
proof -
  let ?d = "ss_db s" and ?n = "length (op_bytes (KPut k v))"
  have rel: "ht_wf (db_table ?d)" "db_map ?d = sp_map a" "0 \<le> wal_fd ?d \<longleftrightarrow> sp_open a"
    using assms(1) by (simp_all add: sess_rel_def)
  obtain t where put: "database_put (ss_fs s) (Some ?d) (Some k) (Some v) (of_nat (length v)) ?n =
      Some (SUCCESS, Some (?d\<lparr>db_table := t\<rparr>),
        if sp_open a then wal_write (ss_fs s) ?d (op_bytes (KPut k v)) ?n else ss_fs s)"
    and t: "ht_wf t" "ht_map t = (db_map ?d)(k \<mapsto> v)"
    using database_put_any [OF rel(1) assms(2), of "ss_fs s" ?n] rel(3) by auto
  have "sess_rel (s\<lparr>ss_db := ?d\<lparr>db_table := t\<rparr>,
      ss_fs := if sp_open a then wal_write (ss_fs s) ?d (op_bytes (KPut k v)) ?n else ss_fs s\<rparr>) (logged (KPut k v) a)"
    using t rel(2) by (intro sess_logged [OF assms(1) db_op_ok_log [OF assms(2)]]) simp_all
  from sess_rel_answered [OF this] put show ?thesis by simp
qed

lemma sess_delete:
  assumes "sess_rel s a" and "db_op_ok (KDel k)"
  shows "\<exists>s'. sess_exec junk s (DB_Delete k) = Some s' \<and> sess_rel s' (spec_exec a (DB_Delete k))"
proof -
  let ?d = "ss_db s" and ?n = "length (op_bytes (KDel k))"
  let ?fs = "if sp_open a then wal_write (ss_fs s) ?d (op_bytes (KDel k)) ?n else ss_fs s"
  have rel: "ht_wf (db_table ?d)" "db_map ?d = sp_map a" "0 \<le> wal_fd ?d \<longleftrightarrow> sp_open a"
    using assms(1) by (simp_all add: sess_rel_def)
  obtain t where del: "database_delete (ss_fs s) (Some ?d) (Some k) ?n =
      Some (if sp_map a k = None then ERROR_NOT_FOUND else SUCCESS, Some (?d\<lparr>db_table := t\<rparr>), ?fs)"
    and t: "ht_wf t" "ht_map t = (sp_map a)(k := None)"
    using database_delete_any [OF rel(1) assms(2), of "ss_fs s" ?n] rel(2,3) by auto
  have "sess_rel (s\<lparr>ss_db := ?d\<lparr>db_table := t\<rparr>, ss_fs := ?fs\<rparr>) (logged (KDel k) a)"
    using t by (intro sess_logged [OF assms(1) db_op_ok_log [OF assms(2)]]) simp_all
  from sess_rel_answered [OF this] del show ?thesis by simp
qed

lemma sess_open:
  assumes "sess_rel s a"
  shows "\<exists>s'. sess_exec junk s (DB_Open fd) = Some s' \<and> sess_rel s' (spec_exec a (DB_Open fd))"
proof -
  let ?d = "ss_db s"
  note rel = assms [unfolded sess_rel_def]
  consider "sp_open a" | "\<not> sp_open a" "fd < 0" | "\<not> sp_open a" "0 \<le> fd" by linarith
  then show ?thesis
  proof cases
    case 1
    with rel have "database_open junk fd (ss_fs s) (Some ?d) = Some (ERROR_INVALID_PARAM, Some ?d, ss_fs s)"
      by (simp add: database_open_def)
    with 1 sess_rel_answered [OF assms] show ?thesis by simp
  next
    case 2
    then have "database_open junk fd (ss_fs s) (Some ?d) = Some (ERROR_IO, Some (?d\<lparr>wal_fd := fd\<rparr>), ss_fs s)"
      using rel by (simp add: database_open_def)
    moreover have "sess_rel (s\<lparr>ss_db := ?d\<lparr>wal_fd := fd\<rparr>\<rparr>) a"
      using rel 2 wal_content_path [of "?d\<lparr>wal_fd := fd\<rparr>" ?d] by (simp add: sess_rel_def)
    ultimately show ?thesis using 2 sess_rel_answered by simp
  next
    case 3
    let ?fs = "(ss_fs s)(wal_path ?d \<mapsto> wal_content (ss_fs s) ?d)"
    obtain t where op: "database_open junk fd (ss_fs s) (Some ?d) =
        Some (SUCCESS, Some (?d\<lparr>wal_fd := fd, db_table := t, is_open := True\<rparr>), ?fs)"
      and t: "ht_wf t" "ht_map t = fold apply_op (sp_log a) (sp_map a)"
      using database_open_any [of ?d fd "ss_fs s" "sp_log a" "[]" junk] rel 3 by (auto simp: sizeof_wal_entry_def)
    have "wal_content ?fs (?d\<lparr>wal_fd := fd, db_table := t, is_open := True\<rparr>) = wal_content (ss_fs s) ?d"
      by (simp add: wal_content_def)
    then have "sess_rel (s\<lparr>ss_db := ?d\<lparr>wal_fd := fd, db_table := t, is_open := True\<rparr>, ss_fs := ?fs\<rparr>)
        (a\<lparr>sp_map := fold apply_op (sp_log a) (sp_map a), sp_open := True\<rparr>)"
      using rel t 3 by (simp add: sess_rel_def)
    from sess_rel_answered [OF this] op 3 show ?thesis by simp
  qed
qed

lemma sess_close:
  assumes "sess_rel s a"
  shows "\<exists>s'. sess_exec junk s (DB_Close ft ls) = Some s' \<and> sess_rel s' (spec_exec a (DB_Close ft ls))"
proof (cases "sp_open a")
  case True
  let ?d = "ss_db s" and ?fs = "if ft then (ss_fs s)(wal_path (ss_db s) \<mapsto> []) else ss_fs s"
  note rel = assms [unfolded sess_rel_def]
  have op: "database_close ft ls (ss_fs s) (Some ?d) = (SUCCESS, Some (?d\<lparr>wal_fd := -1, is_open := False\<rparr>), ?fs)"
    using rel True by (auto simp: database_close_def database_checkpoint_def Let_def)
  have "wal_content ?fs (?d\<lparr>wal_fd := -1, is_open := False\<rparr>) = (if ft then [] else wal_content (ss_fs s) ?d)"
    by (simp add: wal_content_def)
  then have "sess_rel (s\<lparr>ss_db := ?d\<lparr>wal_fd := -1, is_open := False\<rparr>, ss_fs := ?fs\<rparr>)
      (a\<lparr>sp_log := if ft then [] else sp_log a, sp_open := False\<rparr>)"
    using rel by (simp add: sess_rel_def)
  from sess_rel_answered [OF this] op True show ?thesis by simp
next
  case False
  then have "database_close ft ls (ss_fs s) (Some (ss_db s)) = (ERROR_INVALID_PARAM, Some (ss_db s), ss_fs s)"
    using assms by (simp add: database_close_def sess_rel_def)
  with False sess_rel_answered [OF assms] show ?thesis by simp
qed

lemma sess_checkpoint:
  assumes "sess_rel s a"
  shows "\<exists>s'. sess_exec junk s (DB_Checkpoint ft ls) = Some s' \<and> sess_rel s' (spec_exec a (DB_Checkpoint ft ls))"
proof -
  let ?d = "ss_db s" and ?fs = "if sp_open a \<and> ft then (ss_fs s)(wal_path (ss_db s) \<mapsto> []) else ss_fs s"
  let ?r = "if \<not> sp_open a then ERROR_INVALID_PARAM else if ft \<and> ls then SUCCESS else ERROR_IO"
  note rel = assms [unfolded sess_rel_def]
  have op: "database_checkpoint ft ls (ss_fs s) (Some ?d) = (?r, ?fs)"
    using rel by (auto simp: database_checkpoint_def Let_def)
  have "wal_content ?fs ?d = (if sp_open a \<and> ft then [] else wal_content (ss_fs s) ?d)"
    by (simp add: wal_content_def)
  then have "sess_rel (s\<lparr>ss_fs := ?fs\<rparr>) (a\<lparr>sp_log := if sp_open a \<and> ft then [] else sp_log a\<rparr>)"
    using rel by (simp add: sess_rel_def)
  from sess_rel_answered [OF this, of ?r] op show ?thesis by (auto split: if_splits)
qed

lemma sess_crash:
  assumes "sess_rel s a"
  shows "\<exists>s'. sess_exec junk s DB_Crash = Some s' \<and> sess_rel s' (spec_exec a DB_Crash)"
proof -
  let ?d = "database_create (data_dir (ss_db s))"
  have "wal_path ?d = wal_path (ss_db s)" by (intro wal_path_dir) (simp add: database_create_def)
  then have "wal_content fs ?d = wal_content fs (ss_db s)" for fs by (rule wal_content_path)
  moreover have "ht_wf (db_table ?d)" "db_map ?d = Map.empty" "wal_fd ?d = -1" "\<not> is_open ?d"
    using hash_table_create_wf [of 1024] by (simp_all add: database_create_def)
  ultimately show ?thesis using assms by (simp add: sess_rel_def)
qed

lemma sess_get:
  assumes "sess_rel s a"
  shows "\<exists>s'. sess_exec junk s (DB_Get k) = Some s' \<and> sess_rel s' (spec_exec a (DB_Get k))"
proof -
  have "database_get (Some (ss_db s)) (Some k) True True = Some (read_answer (sp_map a k))"
    using assms database_get_map [of "ss_db s" k True True]
    by (simp add: sess_rel_def read_answer_def split: option.splits)
  with sess_rel_read [OF assms] show ?thesis by simp
qed

lemma sess_begin:
  assumes "sess_rel s a"
  shows "\<exists>s'. sess_exec junk s (DB_Begin h level) = Some s' \<and> sess_rel s' (spec_exec a (DB_Begin h level))"
proof -
  let ?d = "(ss_db s)\<lparr>next_txn_id := next_txn_id (ss_db s) + 1\<rparr>"
  let ?tx = "\<lparr>txn_id = next_txn_id (ss_db s), txn_level = level, txn_writes = hash_table_create 64, txn_committed = False\<rparr>"
  have "sess_rel (s\<lparr>ss_db := ?d\<rparr>) a"
    using assms wal_content_path [of ?d "ss_db s"] by (simp add: sess_rel_def)
  from sess_rel_txn_update [OF this, of ?tx Map.empty h] show ?thesis
    using hash_table_create_wf [of 64] by (simp add: database_begin_transaction_def txn_wf_def)
qed

lemma sess_tput:
  assumes "sess_rel s a" and "sp_txns a h \<noteq> None" and "value_ok v"
  shows "\<exists>s'. sess_exec junk s (DB_TPut h k v) = Some s' \<and> sess_rel s' (spec_exec a (DB_TPut h k v))"
proof -
  obtain tx where tx: "ss_txns s h = Some tx" "txn_wf tx" "sp_txns a h = Some (ht_map (txn_writes tx))"
    using sess_rel_txn [OF assms(1,2)] by blast
  obtain t where t: "hash_table_put (Some (txn_writes tx)) (Some k) v (of_nat (length v)) = Some (SUCCESS, Some t)"
    "ht_wf t" "ht_map t = (ht_map (txn_writes tx))(k \<mapsto> v)"
    using hash_table_put_wf [of "txn_writes tx" "of_nat (length v)" v k] tx(2) value_ok_unat [OF assms(3)]
    by (auto simp: txn_wf_def)
  have "txn_wf (tx\<lparr>txn_writes := t\<rparr>)" using tx(2) t(2) by (simp add: txn_wf_def)
  from sess_rel_answered [OF sess_rel_txn_update [OF assms(1) this, of "(ht_map (txn_writes tx))(k \<mapsto> v)" h]] t tx
  show ?thesis by (simp add: transaction_put_def)
qed

lemma sess_tdelete:
  assumes "sess_rel s a" and "sp_txns a h \<noteq> None"
  shows "\<exists>s'. sess_exec junk s (DB_TDelete h k) = Some s' \<and> sess_rel s' (spec_exec a (DB_TDelete h k))"
proof -
  obtain tx where tx: "ss_txns s h = Some tx" "txn_wf tx" "sp_txns a h = Some (ht_map (txn_writes tx))"
    using sess_rel_txn [OF assms] by blast
  obtain t where t: "hash_table_delete (Some (txn_writes tx)) (Some k) =
      Some (if ht_map (txn_writes tx) k = None then ERROR_NOT_FOUND else SUCCESS, Some t)"
    "ht_wf t" "ht_map t = (ht_map (txn_writes tx))(k := None)"
    using hash_table_delete_wf [of "txn_writes tx" k] tx(2) by (auto simp: txn_wf_def)
  have "txn_wf (tx\<lparr>txn_writes := t\<rparr>)" using tx(2) t(2) by (simp add: txn_wf_def)
  from sess_rel_answered [OF sess_rel_txn_update [OF assms(1) this, of "(ht_map (txn_writes tx))(k := None)" h]] t tx
  show ?thesis by (simp add: transaction_delete_def)
qed

lemma transaction_get_map:
  assumes "ht_wf (db_table d)" and "ht_wf (txn_writes tx)"
  shows "transaction_get (Some tx) d (Some k) True True = Some (read_answer ((db_map d ++ ht_map (txn_writes tx)) k))"
  using assms by (simp add: transaction_get_def hash_table_get_wf database_get_map read_answer_def map_add_def split: option.split)

lemma sess_tget:
  assumes "sess_rel s a" and "sp_txns a h \<noteq> None"
  shows "\<exists>s'. sess_exec junk s (DB_TGet h k) = Some s' \<and> sess_rel s' (spec_exec a (DB_TGet h k))"
proof -
  obtain tx where tx: "ss_txns s h = Some tx" "txn_wf tx" "sp_txns a h = Some (ht_map (txn_writes tx))"
    using sess_rel_txn [OF assms] by blast
  have "transaction_get (Some tx) (ss_db s) (Some k) True True = Some (read_answer ((sp_map a ++ ht_map (txn_writes tx)) k))"
    using assms(1) tx(2) transaction_get_map [of "ss_db s" tx k] by (simp add: sess_rel_def txn_wf_def)
  with sess_rel_read [OF assms(1)] tx show ?thesis by simp
qed

lemma sess_commit:
  assumes "sess_rel s a" and "sp_txns a h \<noteq> None"
  shows "\<exists>s'. sess_exec junk s (DB_Commit h) = Some s' \<and> sess_rel s' (spec_exec a (DB_Commit h))"
proof -
  obtain tx where tx: "ss_txns s h = Some tx" "txn_wf tx" "sp_txns a h = Some (ht_map (txn_writes tx))"
    using sess_rel_txn [OF assms] by blast
  obtain t where "transaction_commit (Some tx) (ss_db s) = Some (SUCCESS, (ss_db s)\<lparr>db_table := t\<rparr>)"
    "ht_wf t" "ht_map t = sp_map a ++ ht_map (txn_writes tx)"
    using transaction_commit_table [of "ss_db s" tx] assms(1) tx(2) by (auto simp: sess_rel_def txn_wf_def)
  with sess_rel_answered [OF sess_rel_txn_end [OF sess_rel_db [OF assms(1)]]] tx show ?thesis by simp
qed

lemma sess_rollback:
  assumes "sess_rel s a" and "sp_txns a h \<noteq> None"
  shows "\<exists>s'. sess_exec junk s (DB_Rollback h) = Some s' \<and> sess_rel s' (spec_exec a (DB_Rollback h))"
proof -
  obtain tx where tx: "ss_txns s h = Some tx" "txn_wf tx" using sess_rel_txn [OF assms] by blast
  then have "transaction_rollback (Some tx) = Some (SUCCESS, ht_entries (txn_writes tx))"
    by (simp add: transaction_rollback_def hash_table_destroy_all txn_wf_def)
  with sess_rel_answered [OF sess_rel_txn_end [OF assms(1)]] tx show ?thesis by simp
qed

lemmas sess_calls = sess_open sess_close sess_checkpoint sess_crash sess_put sess_delete sess_get
  sess_begin sess_tput sess_tget sess_tdelete sess_commit sess_rollback

lemma sess_exec_sim:
  assumes "sess_rel s a" and "call_ok a x"
  shows "\<exists>s'. sess_exec junk s x = Some s' \<and> sess_rel s' (spec_exec a x)"
  using assms(2) by (cases x) (auto simp only: call_ok.simps intro!: sess_calls [OF assms(1)])

interpretation db_session: checked_refinement "sess_exec junk" call_ok spec_exec sess_rel for junk
  by unfold_locales (rule sess_exec_sim)

section \<open>Sessions\<close>

definition sess_start :: "cstr \<Rightarrow> filesystem \<Rightarrow> db_session" where
  "sess_start dir fs = \<lparr>ss_db = database_create dir, ss_fs = fs, ss_txns = Map.empty, ss_out = []\<rparr>"

definition spec_start :: db_spec where
  "spec_start = \<lparr>sp_map = Map.empty, sp_log = [], sp_open = False, sp_txns = Map.empty, sp_out = []\<rparr>"

lemma sess_start_rel:
  assumes "wal_content fs (database_create dir) = []"
  shows "sess_rel (sess_start dir fs) spec_start"
  using assms hash_table_create_wf [of 1024]
  by (simp add: sess_rel_def sess_start_def spec_start_def database_create_def)

text \<open>
  C2: A database session is a map with a log. Every sequence of calls that respects argument sizes
  and open handles (opening, closing, checkpoints, crashes of the process, reads, writes,
  deletes, any number of interleaved transactions), begun on a directory without log, runs
  without undefined behaviour, and every answer it gives, with the table and the log it leaves,
  is the one the specification computes.
\<close>

theorem database_session_refines:
  assumes "wal_content fs (database_create dir) = []" and "checked spec_exec call_ok spec_start calls"
  shows "\<exists>s. run (sess_exec junk) (sess_start dir fs) calls = Some s
     \<and> ss_out s = sp_out (foldl spec_exec spec_start calls)
     \<and> db_map (ss_db s) = sp_map (foldl spec_exec spec_start calls)
     \<and> wal_content (ss_fs s) (ss_db s) = concat (map op_bytes (sp_log (foldl spec_exec spec_start calls)))"
  using db_session.checked_refines [OF sess_start_rel [OF assms(1)] assms(2), of junk] by (auto simp: sess_rel_def)

definition sample_session :: "db_call list" where
  "sample_session =
     [DB_Open 3, DB_Put ''k'' [1], DB_Begin 10 ISOLATION_SERIALIZABLE, DB_TPut 10 ''k'' [2], DB_Get ''k'',
      DB_Commit 10, DB_Get ''k'', DB_Crash, DB_Open 4, DB_Get ''k'']"

lemma sample_session_ok: "checked spec_exec call_ok spec_start sample_session"
  by (simp add: sample_session_def spec_start_def c_string_def value_ok_def logged_def says_def)

lemma sample_session_out:
  "sp_out (foldl spec_exec spec_start sample_session) =
     [(SUCCESS, None, None), (SUCCESS, None, None), (SUCCESS, None, None), (SUCCESS, Some [1], Some 1),
      (SUCCESS, None, None), (SUCCESS, Some [2], Some 1), (SUCCESS, None, None), (SUCCESS, Some [1], Some 1)]"
  by (simp add: sample_session_def spec_start_def logged_def says_def read_answer_def)

lemma no_log: "wal_content Map.empty d = []"
  by (simp add: wal_content_def)

theorem database_session_refines_witness:
  "\<exists>s. run (sess_exec (\<lambda>_ _. 0)) (sess_start ''db'' Map.empty) sample_session = Some s
     \<and> ss_out s = [(SUCCESS, None, None), (SUCCESS, None, None), (SUCCESS, None, None), (SUCCESS, Some [1], Some 1),
         (SUCCESS, None, None), (SUCCESS, Some [2], Some 1), (SUCCESS, None, None), (SUCCESS, Some [1], Some 1)]"
  using database_session_refines [OF no_log sample_session_ok, where junk = "\<lambda>_ _. 0" and dir = "''db''"]
  by (auto simp: sample_session_out)

text \<open>
  C13: Well-formedness is preserved and no call gets stuck. After any valid sequence of calls the
  hash tables of the database and of every open transaction are well formed, the log is a
  sequence of whole records, the descriptor is valid exactly when the database is open, and
  every further valid call is defined.
\<close>

theorem database_session_wf:
  assumes "wal_content fs (database_create dir) = []" and "checked spec_exec call_ok spec_start calls"
    and "call_ok (foldl spec_exec spec_start calls) x"
  shows "\<exists>s s'. run (sess_exec junk) (sess_start dir fs) calls = Some s \<and> session_wf s
     \<and> sess_exec junk s x = Some s' \<and> session_wf s'"
proof -
  obtain s where s: "run (sess_exec junk) (sess_start dir fs) calls = Some s"
    "sess_rel s (foldl spec_exec spec_start calls)"
    using db_session.checked_refines [OF sess_start_rel [OF assms(1)] assms(2)] by blast
  obtain s' where "sess_exec junk s x = Some s'" "sess_rel s' (spec_exec (foldl spec_exec spec_start calls) x)"
    using sess_exec_sim [OF s(2) assms(3)] by blast
  with s sess_rel_wf show ?thesis by blast
qed

section \<open>What transactions give and what they do not\<close>


definition txn_calls :: "addr \<Rightarrow> isolation_level_t \<Rightarrow> (cstr \<times> bytes) list \<Rightarrow> db_call list" where
  "txn_calls h level kvs = DB_Begin h level # map (\<lambda>(k, v). DB_TPut h k v) kvs @ [DB_Commit h]"

definition kv_ok :: "cstr \<times> bytes \<Rightarrow> bool" where
  "kv_ok kv \<longleftrightarrow> db_op_ok (KPut (fst kv) (snd kv))"

abbreviation put_all :: "(cstr \<times> bytes) list \<Rightarrow> (cstr \<rightharpoonup> bytes) \<Rightarrow> (cstr \<rightharpoonup> bytes)" where
  "put_all \<equiv> fold (\<lambda>(k, v) m. m(k \<mapsto> v))"

lemma put_all_add: "m ++ put_all kvs w = put_all kvs (m ++ w)"
  by (induction kvs arbitrary: w) auto

lemma says_simps [simp]:
  "sp_map (says r a) = sp_map a" "sp_log (says r a) = sp_log a" "sp_open (says r a) = sp_open a"
  "sp_txns (says r a) = sp_txns a" "sp_out (says r a) = sp_out a @ [(r, None, None)]"
  by (simp_all add: says_def)



lemma tput_spec:
  "sp_txns a h = Some w \<Longrightarrow> list_all kv_ok kvs \<Longrightarrow>
     checked spec_exec call_ok a (map (\<lambda>(k, v). DB_TPut h k v) kvs)
   \<and> (let a' = foldl spec_exec a (map (\<lambda>(k, v). DB_TPut h k v) kvs) in
       sp_txns a' = (sp_txns a)(h \<mapsto> put_all kvs w) \<and> sp_map a' = sp_map a \<and> sp_log a' = sp_log a \<and> sp_open a' = sp_open a)"
proof (induction kvs arbitrary: a w)
  case (Cons kv kvs)
  obtain k v where kv: "kv = (k, v)" by fastforce
  have "value_ok v" using Cons.prems(2) by (simp add: kv kv_ok_def value_ok_def)
  moreover have "sp_txns (spec_exec a (DB_TPut h k v)) h = Some (w(k \<mapsto> v))" using Cons.prems(1) by simp
  ultimately show ?case using Cons.prems Cons.IH [of "spec_exec a (DB_TPut h k v)" "w(k \<mapsto> v)"]
    by (simp add: kv Let_def del: fun_upd_apply)
qed (auto simp: Let_def)

lemma txn_spec:
  assumes "sp_txns a h = None" and "list_all kv_ok kvs"
  shows "checked spec_exec call_ok a (txn_calls h level kvs)"
    and "sp_map (foldl spec_exec a (txn_calls h level kvs)) = put_all kvs (sp_map a)"
    and "sp_log (foldl spec_exec a (txn_calls h level kvs)) = sp_log a"
    and "sp_open (foldl spec_exec a (txn_calls h level kvs)) = sp_open a"
    and "sp_txns (foldl spec_exec a (txn_calls h level kvs)) = sp_txns a"
  using assms tput_spec [of "a\<lparr>sp_txns := (sp_txns a)(h \<mapsto> Map.empty)\<rparr>" h Map.empty kvs]
  by (simp_all add: txn_calls_def checked_append Let_def put_all_add fun_upd_idem)






text \<open>
  C32: A committed transaction is not durable. Commit changes the table in memory and writes
  nothing to the log: after a crash the database recovered from the log is the same whether the
  transaction was run and committed or never begun.
\<close>

theorem transaction_commit_not_durable:
  assumes "wal_content fs (database_create dir) = []" and "checked spec_exec call_ok spec_start calls"
    and "sp_txns (foldl spec_exec spec_start calls) h = None" and "list_all kv_ok kvs"
  shows "\<exists>s1 s2. run (sess_exec junk) (sess_start dir fs) (calls @ txn_calls h level kvs @ [DB_Crash, DB_Open fd]) = Some s1
     \<and> run (sess_exec junk) (sess_start dir fs) (calls @ [DB_Crash, DB_Open fd]) = Some s2
     \<and> db_map (ss_db s1) = db_map (ss_db s2)"
proof -
  let ?a = "foldl spec_exec spec_start calls"
  note rel = db_session.checked_refines [OF sess_start_rel [OF assms(1)], where junk = junk]
  obtain s1 where s1: "run (sess_exec junk) (sess_start dir fs) (calls @ txn_calls h level kvs @ [DB_Crash, DB_Open fd]) = Some s1"
    "sess_rel s1 (foldl spec_exec spec_start (calls @ txn_calls h level kvs @ [DB_Crash, DB_Open fd]))"
    using rel [of "calls @ txn_calls h level kvs @ [DB_Crash, DB_Open fd]"] assms(2) txn_spec(1) [OF assms(3,4)]
    by (auto simp: checked_append)
  obtain s2 where s2: "run (sess_exec junk) (sess_start dir fs) (calls @ [DB_Crash, DB_Open fd]) = Some s2"
    "sess_rel s2 (foldl spec_exec spec_start (calls @ [DB_Crash, DB_Open fd]))"
    using rel [of "calls @ [DB_Crash, DB_Open fd]"] assms(2) by (auto simp: checked_append)
  show ?thesis using s1 s2 txn_spec(3) [OF assms(3,4), of level] by (simp add: sess_rel_def)
qed

text \<open>
  C34: The isolation level is ignored. In a transaction begun as serializable, two reads of the same
  key, with nothing written by the transaction itself, give different answers when another
  transaction commits in between: the second read sees the other transaction's value.
\<close>

theorem transaction_reads_not_repeatable:
  assumes "wal_content fs (database_create dir) = []" and "checked spec_exec call_ok spec_start calls"
    and "a = foldl spec_exec spec_start calls" and "sp_txns a h = None" and "sp_txns a h' = None" and "h \<noteq> h'"
    and "value_ok v"
  shows "\<exists>s. run (sess_exec junk) (sess_start dir fs)
         (calls @ [DB_Begin h ISOLATION_SERIALIZABLE, DB_TGet h k, DB_Begin h' ISOLATION_SERIALIZABLE,
                   DB_TPut h' k v, DB_Commit h', DB_TGet h k]) = Some s
     \<and> ss_out s = sp_out a @ [read_answer (sp_map a k), (SUCCESS, None, None), (SUCCESS, None, None), read_answer (Some v)]"
proof -
  let ?xs = "[DB_Begin h ISOLATION_SERIALIZABLE, DB_TGet h k, DB_Begin h' ISOLATION_SERIALIZABLE,
                   DB_TPut h' k v, DB_Commit h', DB_TGet h k]"
  have "checked spec_exec call_ok a ?xs" using assms(4-7) by simp
  then have "checked spec_exec call_ok spec_start (calls @ ?xs)" using assms(2,3) by (simp add: checked_append)
  from db_session.checked_refines [OF sess_start_rel [OF assms(1)] this, of junk] show ?thesis
    using assms(3,6) by (auto simp: sess_rel_def)
qed

section \<open>Instances\<close>

theorem database_session_wf_witness:
  "\<exists>s s'. run (sess_exec (\<lambda>_ _. 0)) (sess_start ''db'' Map.empty) sample_session = Some s \<and> session_wf s
     \<and> sess_exec (\<lambda>_ _. 0) s (DB_Delete ''k'') = Some s' \<and> session_wf s'"
  by (rule database_session_wf [OF no_log sample_session_ok]) (simp add: c_string_def)

lemma sample_session_txns: "sp_txns (foldl spec_exec spec_start sample_session) = Map.empty"
  by (simp add: sample_session_def spec_start_def logged_def says_def)

lemma sample_pairs_ok: "list_all kv_ok [(''x'', [1]), (''y'', [2]), (''x'', [3])]"
  by (simp add: kv_ok_def c_string_def)



theorem transaction_commit_not_durable_witness:
  "\<exists>s1 s2. run (sess_exec (\<lambda>_ _. 0)) (sess_start ''db'' Map.empty)
         (sample_session @ txn_calls 20 ISOLATION_SERIALIZABLE [(''x'', [1]), (''y'', [2]), (''x'', [3])] @ [DB_Crash, DB_Open 5]) = Some s1
     \<and> run (sess_exec (\<lambda>_ _. 0)) (sess_start ''db'' Map.empty) (sample_session @ [DB_Crash, DB_Open 5]) = Some s2
     \<and> db_map (ss_db s1) = db_map (ss_db s2)"
  by (rule transaction_commit_not_durable [OF no_log sample_session_ok _ sample_pairs_ok]) (simp add: sample_session_txns)

theorem transaction_reads_not_repeatable_witness:
  "\<exists>s. run (sess_exec (\<lambda>_ _. 0)) (sess_start ''db'' Map.empty)
         (sample_session @ [DB_Begin 20 ISOLATION_SERIALIZABLE, DB_TGet 20 ''k'', DB_Begin 21 ISOLATION_SERIALIZABLE,
            DB_TPut 21 ''k'' [9], DB_Commit 21, DB_TGet 20 ''k'']) = Some s
     \<and> ss_out s = sp_out (foldl spec_exec spec_start sample_session)
         @ [read_answer (sp_map (foldl spec_exec spec_start sample_session) ''k''), (SUCCESS, None, None),
            (SUCCESS, None, None), read_answer (Some [9])]"
  by (rule transaction_reads_not_repeatable [OF no_log sample_session_ok refl])
    (simp_all add: sample_session_txns value_ok_def)

end
