(* ===== verification/C_Format.thy ===== *)
theory C_Format
  imports Common
begin

text \<open>
  The parts of \<open>printf\<close> and \<open>scanf\<close> formatting the sources use: unsigned and signed decimal numbers and
  \<open>snprintf\<close>, which stores at most one character less than the size of its buffer and returns
  the length the full text has. A printed number can be read back, so printing is injective.
\<close>

section \<open>Decimal numbers\<close>

definition digit_char :: "nat \<Rightarrow> char" where
  "digit_char d = char_of (48 + d)"

fun dec :: "nat \<Rightarrow> string" where
  "dec n = (if n < 10 then [digit_char n] else dec (n div 10) @ [digit_char (n mod 10)])"

declare dec.simps [simp del]

definition dec_int :: "int \<Rightarrow> string" where
  "dec_int i = (if i < 0 then CHR 0x2D # dec (nat (- i)) else dec (nat i))"

definition is_digit :: "char \<Rightarrow> bool" where
  "is_digit c \<longleftrightarrow> 48 \<le> (of_char c :: nat) \<and> (of_char c :: nat) \<le> 57"

definition undec :: "string \<Rightarrow> nat" where
  "undec s = foldl (\<lambda>a c. 10 * a + (of_char c - 48)) 0 s"

lemma of_char_digit: "d < 10 \<Longrightarrow> (of_char (digit_char d) :: nat) = 48 + d"
  by (simp add: digit_char_def)

lemma undec_dec [simp]: "undec (dec n) = n"
proof (induction n rule: dec.induct)
  case (1 n)
  show ?case
  proof (cases "n < 10")
    case True
    then show ?thesis by (subst dec.simps) (simp add: undec_def of_char_digit)
  next
    case False
    then have "undec (dec (n div 10)) = n div 10" by (rule 1)
    with False show ?thesis by (subst dec.simps) (simp add: undec_def of_char_digit)
  qed
qed

lemma dec_inj [simp]: "dec m = dec n \<longleftrightarrow> m = n"
  by (metis undec_dec)

lemma dec_digits: "\<forall>c \<in> set (dec n). is_digit c"
proof (induction n rule: dec.induct)
  case (1 n)
  then show ?case by (subst dec.simps) (auto simp: is_digit_def of_char_digit)
qed

lemma dec_not_Nil [simp]: "dec n \<noteq> []"
  by (subst dec.simps) simp

lemma length_dec: "n < 10 ^ Suc k \<Longrightarrow> length (dec n) \<le> Suc k"
proof (induction k arbitrary: n)
  case 0
  then show ?case by (subst dec.simps) simp
next
  case (Suc k)
  then have "n div 10 < 10 ^ Suc k" by (simp add: div_less_iff_less_mult mult.commute)
  from Suc.IH [OF this] show ?case by (subst dec.simps) simp
qed

lemma length_dec_u64: "length (dec (unat (w :: u64))) \<le> 20"
proof -
  have "unat w < 10 ^ Suc 19" using unat_u64_less [of w] by simp
  from length_dec [OF this] show ?thesis by simp
qed

text \<open>Two numbers separated by a character that is no digit can both be read back.\<close>

lemma split_at_first:
  "c \<notin> set xs \<Longrightarrow> c \<notin> set ys \<Longrightarrow> xs @ c # us = ys @ c # vs \<longleftrightarrow> xs = ys \<and> us = vs"
proof (induction xs arbitrary: ys)
  case Nil
  then show ?case by (cases ys) auto
next
  case (Cons x xs)
  then show ?case by (cases ys) auto
qed

lemma dec_separated:
  assumes "\<not> is_digit c"
  shows "dec a @ c # us = dec b @ c # vs \<longleftrightarrow> a = b \<and> us = vs"
  using assms dec_digits by (subst split_at_first) auto

section \<open>Formatting into a buffer\<close>

definition snprintf_buf :: "nat \<Rightarrow> string \<Rightarrow> string" where
  "snprintf_buf sz s = take (sz - 1) s"

lemma snprintf_buf_fits: "length s < sz \<Longrightarrow> snprintf_buf sz s = s"
  by (simp add: snprintf_buf_def)

lemma length_snprintf_buf: "0 < sz \<Longrightarrow> length (snprintf_buf sz s) < sz"
  by (simp add: snprintf_buf_def)

section \<open>Scanning\<close>

text \<open>
  The conversions of \<open>sscanf\<close>: a scan set with a maximal width, which must match at least one
  character, a literal character, and \<open>%lu\<close>, which skips white space, takes an optional sign
  and at least one digit, and saturates at \<open>ULONG_MAX\<close>. \<open>None\<close> is a matching failure.
\<close>

definition is_space :: "char \<Rightarrow> bool" where
  "is_space c \<longleftrightarrow> (of_char c :: nat) \<in> {9, 10, 11, 12, 13, 32}"

definition scan_set :: "nat \<Rightarrow> (char \<Rightarrow> bool) \<Rightarrow> string \<Rightarrow> (string \<times> string) option" where
  "scan_set width P s =
     (let t = takeWhile P (take width s) in if t = [] then None else Some (t, drop (length t) s))"

fun scan_lit :: "char \<Rightarrow> string \<Rightarrow> string option" where
  "scan_lit c [] = None"
| "scan_lit c (x # xs) = (if x = c then Some xs else None)"

definition strtoul_value :: "bool \<Rightarrow> string \<Rightarrow> u64" where
  "strtoul_value neg digits =
     (let n = undec digits in if n \<ge> 2 ^ 64 then -1 else if neg then - of_nat n else of_nat n)"

definition scan_lu :: "string \<Rightarrow> (u64 \<times> string) option" where
  "scan_lu s =
     (let s1 = dropWhile is_space s;
          neg = (s1 \<noteq> [] \<and> hd s1 = CHR ''-'');
          s2 = (if s1 \<noteq> [] \<and> (hd s1 = CHR ''-'' \<or> hd s1 = CHR ''+'') then tl s1 else s1);
          digits = takeWhile is_digit s2
      in if digits = [] then None else Some (strtoul_value neg digits, drop (length digits) s2))"

lemma scan_set_word:
  assumes "t \<noteq> []" and "length t \<le> width" and "\<forall>c \<in> set t. P c" and "\<not> P d"
  shows "scan_set width P (t @ d # rest) = Some (t, d # rest)"
proof -
  have "takeWhile P (take width (t @ d # rest)) = t"
    using assms by (cases "width - length t") (auto simp: takeWhile_append)
  with assms(1) show ?thesis by (simp add: scan_set_def)
qed

lemma dec_hd_digit: "is_digit (hd (dec n))"
  using dec_digits by (metis dec_not_Nil list.set_sel(1))

lemma digit_no_sign: "is_digit c \<Longrightarrow> \<not> is_space c \<and> c \<noteq> CHR ''-'' \<and> c \<noteq> CHR ''+''"
  by (auto simp: is_digit_def is_space_def)

lemma takeWhile_dec: "rest = [] \<or> \<not> is_digit (hd rest) \<Longrightarrow> takeWhile is_digit (dec n @ rest) = dec n"
  using dec_digits [of n] by (cases rest) (auto simp: takeWhile_append)

lemma scan_lu_dec:
  fixes w :: u64
  assumes "rest = [] \<or> \<not> is_digit (hd rest)"
  shows "scan_lu (dec (unat w) @ rest) = Some (w, rest)"
proof -
  obtain c cs where c: "dec (unat w) = c # cs" by (cases "dec (unat w)") auto
  then have "is_digit c" using dec_hd_digit [of "unat w"] by simp
  then have sign: "\<not> is_space c" "c \<noteq> CHR ''-''" "c \<noteq> CHR ''+''" using digit_no_sign by auto
  have "takeWhile is_digit (c # cs @ rest) = dec (unat w)"
    using takeWhile_dec [OF assms, of "unat w"] c by simp
  moreover have "strtoul_value False (dec (unat w)) = w"
    using unat_u64_less [of w] by (simp add: strtoul_value_def)
  ultimately show ?thesis
    using sign by (simp add: scan_lu_def c Let_def)
qed

end
