(* ===== verification/Mqueue.thy ===== *)
theory Mqueue
  imports C_Format
begin

text \<open>
  \<^verbatim>\<open>src/mqueue/mqueue.c\<close>, \<^verbatim>\<open>include/mqueue.h\<close>: the message queue. The nodes of the queue are
  linked through \<open>next\<close> and live in a heap, because a consumer thread holds a node it has
  dequeued, outside the queue, and may link it in again. A message belongs to its node and a
  consumer to the list of its queue, so these are values. The critical sections of
  \<open>consumer_thread\<close> are the steps of a consumer; the steps of several consumers and of the
  publishers interleave (\<open>Mqueue_Correct\<close>). \<open>None\<close> is undefined behaviour.
\<close>

section \<open>Data\<close>

datatype delivery_guarantee_t = DELIVERY_AT_MOST_ONCE | DELIVERY_AT_LEAST_ONCE | DELIVERY_EXACTLY_ONCE

datatype ordering_t = ORDERING_NONE | ORDERING_FIFO | ORDERING_PRIORITY

record message_t =
  msg_id :: cstr
  msg_topic :: cstr
  msg_payload :: bytes
  msg_payload_size :: u64
  msg_timestamp :: u64
  msg_priority :: int
  msg_retry_count :: int
  msg_max_retries :: int

record queue_node_t =
  qn_message :: message_t
  qn_next :: "addr option"

record consumer_t =
  cn_topic :: cstr
  cn_active :: bool

record mqueue_t =
  mq_heap :: "queue_node_t heap"
  mq_name :: cstr
  mq_ordering :: ordering_t
  mq_guarantee :: delivery_guarantee_t
  mq_max_retries :: int
  mq_head :: "addr option"
  mq_tail :: "addr option"
  mq_size :: u64
  mq_consumers :: "(addr \<times> consumer_t) list"
  mq_consumer_count :: u64
  mq_total_published :: u64
  mq_total_consumed :: u64
  mq_total_rejected :: u64
  mq_total_retries :: u64
  mq_running :: bool

record mqueue_stats_t =
  st_total_published :: u64
  st_total_consumed :: u64
  st_total_rejected :: u64
  st_total_retries :: u64
  st_queue_size :: u64
  st_consumer_count :: u64

section \<open>Messages\<close>

text \<open>\<open>counter\<close> is the function's static variable; the clock is read again for the text.\<close>

definition MAX_MESSAGE_ID :: nat where
  "MAX_MESSAGE_ID = 64"

definition generate_message_id :: "u64 \<Rightarrow> u64 \<Rightarrow> cstr \<times> u64" where
  "generate_message_id counter now =
     (snprintf_buf MAX_MESSAGE_ID (''msg-'' @ dec (unat now) @ ''-'' @ dec (unat counter)), counter + 1)"

definition message_create ::
  "cstr \<Rightarrow> bytes \<Rightarrow> u64 \<Rightarrow> int \<Rightarrow> u64 \<Rightarrow> u64 \<Rightarrow> u64 \<Rightarrow> (message_t \<times> u64) option" where
  "message_create topic payload payload_size priority counter now_id now = do {
     (i, counter) \<leftarrow> Some (generate_message_id counter now_id);
     p \<leftarrow> memcpy_from payload payload_size;
     Some (\<lparr>msg_id = i, msg_topic = topic, msg_payload = p, msg_payload_size = payload_size,
            msg_timestamp = now, msg_priority = priority, msg_retry_count = 0, msg_max_retries = 3\<rparr>,
           counter)
   }"

section \<open>Queue of nodes\<close>

text \<open>The search of \<open>enqueue_message\<close>: the last node of at least the priority, and the one behind it.\<close>

partial_function (option) enqueue_search ::
  "addr option \<Rightarrow> addr option \<Rightarrow> queue_node_t heap \<Rightarrow> int \<Rightarrow> (addr option \<times> addr option) option" where
  "enqueue_search current prev h priority =
     (case current of
        None \<Rightarrow> Some (prev, None)
      | Some a \<Rightarrow> do {
          n \<leftarrow> h a;
          if msg_priority (qn_message n) \<ge> priority
          then enqueue_search (qn_next n) (Some a) h priority
          else Some (prev, Some a) })"

definition enqueue_message :: "mqueue_t \<Rightarrow> addr \<Rightarrow> mqueue_t option" where
  "enqueue_message q node = do {
     n \<leftarrow> mq_heap q node;
     q \<leftarrow> (if mq_ordering q = ORDERING_PRIORITY
           then do {
             (prev, current) \<leftarrow> enqueue_search (mq_head q) None (mq_heap q) (msg_priority (qn_message n));
             h \<leftarrow> heap_mod node (\<lambda>n. n\<lparr>qn_next := current\<rparr>) (mq_heap q);
             q \<leftarrow> (case prev of
                     Some p \<Rightarrow> do {
                       h \<leftarrow> heap_mod p (\<lambda>n. n\<lparr>qn_next := Some node\<rparr>) h;
                       Some (q\<lparr>mq_heap := h\<rparr>) }
                   | None \<Rightarrow> Some (q\<lparr>mq_heap := h, mq_head := Some node\<rparr>));
             n \<leftarrow> mq_heap q node;
             Some (if qn_next n = None then q\<lparr>mq_tail := Some node\<rparr> else q) }
           else do {
             h \<leftarrow> heap_mod node (\<lambda>n. n\<lparr>qn_next := None\<rparr>) (mq_heap q);
             q \<leftarrow> (case mq_tail q of
                     Some t \<Rightarrow> do {
                       h \<leftarrow> heap_mod t (\<lambda>n. n\<lparr>qn_next := Some node\<rparr>) h;
                       Some (q\<lparr>mq_heap := h\<rparr>) }
                   | None \<Rightarrow> Some (q\<lparr>mq_heap := h, mq_head := Some node\<rparr>));
             Some (q\<lparr>mq_tail := Some node\<rparr>) });
     Some (q\<lparr>mq_size := mq_size q + 1\<rparr>)
   }"

definition dequeue_message :: "mqueue_t \<Rightarrow> (addr option \<times> mqueue_t) option" where
  "dequeue_message q =
     (case mq_head q of
        None \<Rightarrow> Some (None, q)
      | Some node \<Rightarrow> do {
          n \<leftarrow> mq_heap q node;
          q \<leftarrow> Some (q\<lparr>mq_head := qn_next n\<rparr>);
          q \<leftarrow> Some (if mq_head q = None then q\<lparr>mq_tail := None\<rparr> else q);
          Some (Some node, q\<lparr>mq_size := mq_size q - 1\<rparr>) })"

section \<open>Consumer threads\<close>

text \<open>
  Where a consumer thread is: at the head of its loop (or waiting on the condition there),
  holding a dequeued node, after the handler returned, or ended. One step runs to the next
  release of the lock; waiting on an empty queue changes nothing.
\<close>

datatype consumer_pc = C_Loop | C_Holding addr | C_Handled addr | C_Ended

definition consumer_loop :: "mqueue_t \<Rightarrow> consumer_t \<Rightarrow> (consumer_pc \<times> mqueue_t) option" where
  "consumer_loop q c =
     (if \<not> cn_active c then Some (C_Ended, q)
      else if mq_size q = 0 then Some (C_Loop, q)
      else do {
        (node, q) \<leftarrow> dequeue_message q;
        Some (case node of None \<Rightarrow> C_Loop | Some a \<Rightarrow> C_Holding a, q) })"

text \<open>The topic check: the message given to the handler, or the node queued again.\<close>

definition consumer_dispatch ::
  "mqueue_t \<Rightarrow> consumer_t \<Rightarrow> addr \<Rightarrow> (consumer_pc \<times> mqueue_t \<times> message_t option) option" where
  "consumer_dispatch q c node = do {
     n \<leftarrow> mq_heap q node;
     if c_strcmp (msg_topic (qn_message n)) (cn_topic c) = 0
     then Some (C_Handled node, q, Some (qn_message n))
     else do {
       q \<leftarrow> enqueue_message q node;
       Some (C_Loop, q, None) }
   }"

definition consumer_finish :: "mqueue_t \<Rightarrow> addr \<Rightarrow> (consumer_pc \<times> mqueue_t) option" where
  "consumer_finish q node = do {
     n \<leftarrow> mq_heap q node;
     Some (C_Loop, q\<lparr>mq_total_consumed := mq_total_consumed q + 1, mq_heap := (mq_heap q)(node := None)\<rparr>)
   }"

section \<open>Interface\<close>

definition mqueue_create :: "cstr \<Rightarrow> ordering_t \<Rightarrow> mqueue_t" where
  "mqueue_create name mode =
     \<lparr>mq_heap = Map.empty, mq_name = name, mq_ordering = mode,
      mq_guarantee = DELIVERY_AT_LEAST_ONCE, mq_max_retries = 3, mq_head = None, mq_tail = None,
      mq_size = 0, mq_consumers = [], mq_consumer_count = 0, mq_total_published = 0,
      mq_total_consumed = 0, mq_total_rejected = 0, mq_total_retries = 0, mq_running = True\<rparr>"

text \<open>\<open>node\<close> is the address \<open>calloc\<close> returns for the new node.\<close>

definition mqueue_publish_with_priority ::
  "mqueue_t option \<Rightarrow> cstr option \<Rightarrow> bytes option \<Rightarrow> u64 \<Rightarrow> int \<Rightarrow> u64 \<Rightarrow> u64 \<Rightarrow> u64 \<Rightarrow> addr \<Rightarrow>
     (error_code_t \<times> mqueue_t option \<times> u64) option" where
  "mqueue_publish_with_priority queue topic payload payload_size priority counter now_id now node =
     (case (queue, topic, payload) of
        (Some q, Some t, Some p) \<Rightarrow>
          if payload_size = 0 then Some (ERROR_INVALID_PARAM, queue, counter)
          else do {
            (msg, counter) \<leftarrow> message_create t p payload_size priority counter now_id now;
            msg \<leftarrow> Some (msg\<lparr>msg_max_retries := mq_max_retries q\<rparr>);
            q \<leftarrow> enqueue_message
                   (q\<lparr>mq_heap := (mq_heap q)(node \<mapsto> \<lparr>qn_message = msg, qn_next = None\<rparr>)\<rparr>) node;
            Some (SUCCESS, Some (q\<lparr>mq_total_published := mq_total_published q + 1\<rparr>), counter) }
      | _ \<Rightarrow> Some (ERROR_INVALID_PARAM, queue, counter))"

definition mqueue_publish ::
  "mqueue_t option \<Rightarrow> cstr option \<Rightarrow> bytes option \<Rightarrow> u64 \<Rightarrow> u64 \<Rightarrow> u64 \<Rightarrow> u64 \<Rightarrow> addr \<Rightarrow>
     (error_code_t \<times> mqueue_t option \<times> u64) option" where
  "mqueue_publish queue topic payload payload_size counter now_id now node =
     mqueue_publish_with_priority queue topic payload payload_size 0 counter now_id now node"

text \<open>\<open>handler\<close> is whether the handler is non-NULL, \<open>created\<close> whether \<open>pthread_create\<close> succeeds.\<close>

definition mqueue_subscribe ::
  "mqueue_t option \<Rightarrow> cstr option \<Rightarrow> bool \<Rightarrow> bool \<Rightarrow> addr \<Rightarrow> addr option \<times> mqueue_t option" where
  "mqueue_subscribe queue topic handler created consumer =
     (case (queue, topic) of
        (Some q, Some t) \<Rightarrow>
          if \<not> handler then (None, queue)
          else if \<not> created then (None, queue)
          else (Some consumer,
                Some (q\<lparr>mq_consumers := (consumer, \<lparr>cn_topic = t, cn_active = True\<rparr>) # mq_consumers q,
                        mq_consumer_count := mq_consumer_count q + 1\<rparr>))
      | _ \<Rightarrow> (None, queue))"

text \<open>
  The two critical sections of \<open>mqueue_unsubscribe\<close>: the request to stop and, after
  \<open>pthread_join\<close> has waited for the thread to end, the removal from the list.
\<close>

definition unsubscribe_request :: "mqueue_t \<Rightarrow> addr \<Rightarrow> mqueue_t" where
  "unsubscribe_request q consumer =
     q\<lparr>mq_consumers := map (\<lambda>(a, c). (a, if a = consumer then c\<lparr>cn_active := False\<rparr> else c)) (mq_consumers q)\<rparr>"

fun unsubscribe_loop :: "addr \<Rightarrow> (addr \<times> consumer_t) list \<Rightarrow> (addr \<times> consumer_t) list option" where
  "unsubscribe_loop consumer [] = None"
| "unsubscribe_loop consumer ((a, c) # next) =
     (if a = consumer then Some next else map_option ((#) (a, c)) (unsubscribe_loop consumer next))"

definition unsubscribe_remove :: "mqueue_t \<Rightarrow> addr \<Rightarrow> mqueue_t" where
  "unsubscribe_remove q consumer =
     (case unsubscribe_loop consumer (mq_consumers q) of
        None \<Rightarrow> q
      | Some cs \<Rightarrow> q\<lparr>mq_consumers := cs, mq_consumer_count := mq_consumer_count q - 1\<rparr>)"

definition mqueue_unsubscribe :: "mqueue_t \<Rightarrow> addr option \<Rightarrow> error_code_t \<times> mqueue_t" where
  "mqueue_unsubscribe q consumer =
     (case consumer of
        None \<Rightarrow> (ERROR_INVALID_PARAM, q)
      | Some a \<Rightarrow> (SUCCESS, unsubscribe_remove (unsubscribe_request q a) a))"

definition mqueue_acknowledge :: "mqueue_t option \<Rightarrow> cstr option \<Rightarrow> error_code_t" where
  "mqueue_acknowledge queue message_id = SUCCESS"

definition mqueue_reject ::
  "mqueue_t option \<Rightarrow> cstr option \<Rightarrow> bool \<Rightarrow> error_code_t \<times> mqueue_t option" where
  "mqueue_reject queue message_id requeue =
     (case (queue, message_id) of
        (Some q, Some _) \<Rightarrow> (SUCCESS, Some (q\<lparr>mq_total_rejected := mq_total_rejected q + 1\<rparr>))
      | _ \<Rightarrow> (ERROR_INVALID_PARAM, queue))"

definition mqueue_set_delivery_guarantee ::
  "mqueue_t option \<Rightarrow> delivery_guarantee_t \<Rightarrow> error_code_t \<times> mqueue_t option" where
  "mqueue_set_delivery_guarantee queue guarantee =
     (case queue of
        None \<Rightarrow> (ERROR_INVALID_PARAM, None)
      | Some q \<Rightarrow> (SUCCESS, Some (q\<lparr>mq_guarantee := guarantee\<rparr>)))"

definition mqueue_set_max_retries :: "mqueue_t option \<Rightarrow> int \<Rightarrow> error_code_t \<times> mqueue_t option" where
  "mqueue_set_max_retries queue max_retries =
     (case queue of
        None \<Rightarrow> (ERROR_INVALID_PARAM, None)
      | Some q \<Rightarrow> (SUCCESS, Some (q\<lparr>mq_max_retries := max_retries\<rparr>)))"

definition mqueue_size :: "mqueue_t option \<Rightarrow> u64" where
  "mqueue_size queue = (case queue of None \<Rightarrow> 0 | Some q \<Rightarrow> mq_size q)"

partial_function (option) mqueue_clear_loop ::
  "addr option \<Rightarrow> queue_node_t heap \<Rightarrow> queue_node_t heap option" where
  "mqueue_clear_loop current h =
     (case current of
        None \<Rightarrow> Some h
      | Some a \<Rightarrow> do { n \<leftarrow> h a; mqueue_clear_loop (qn_next n) (h(a := None)) })"

definition mqueue_clear :: "mqueue_t option \<Rightarrow> mqueue_t option option" where
  "mqueue_clear queue =
     (case queue of
        None \<Rightarrow> Some None
      | Some q \<Rightarrow> do {
          h \<leftarrow> mqueue_clear_loop (mq_head q) (mq_heap q);
          Some (Some (q\<lparr>mq_heap := h, mq_head := None, mq_tail := None, mq_size := 0\<rparr>)) })"

text \<open>\<open>mqueue_destroy\<close> returns the nodes that are still allocated after the queue is freed.\<close>

definition mqueue_destroy :: "mqueue_t option \<Rightarrow> queue_node_t heap option" where
  "mqueue_destroy queue =
     (case queue of
        None \<Rightarrow> Some Map.empty
      | Some q \<Rightarrow> do {
          q \<leftarrow> Some (q\<lparr>mq_running := False\<rparr>);
          q \<leftarrow> Some (fold (\<lambda>a q. snd (mqueue_unsubscribe q (Some a))) (map fst (mq_consumers q)) q);
          q \<leftarrow> mqueue_clear (Some q);
          q \<leftarrow> q;
          Some (mq_heap q) })"

definition mqueue_get_stats ::
  "mqueue_t option \<Rightarrow> mqueue_stats_t option \<Rightarrow> error_code_t \<times> mqueue_stats_t option" where
  "mqueue_get_stats queue stats =
     (case (queue, stats) of
        (Some q, Some _) \<Rightarrow>
          (SUCCESS, Some \<lparr>st_total_published = mq_total_published q, st_total_consumed = mq_total_consumed q,
             st_total_rejected = mq_total_rejected q, st_total_retries = mq_total_retries q,
             st_queue_size = mq_size q, st_consumer_count = mq_consumer_count q\<rparr>)
      | _ \<Rightarrow> (ERROR_INVALID_PARAM, stats))"

declare enqueue_search.simps [code] mqueue_clear_loop.simps [code]

end
