(* ===== verification/Mqueue_Correct.thy ===== *)
theory Mqueue_Correct
  imports Mqueue "HOL-Library.Multiset"
begin

text \<open>
  Correctness of the message queue. The linked list of nodes implements a list of messages:
  enqueue appends, or inserts behind the last message of at least the same priority, dequeue
  takes the first. Sequences of operations follow that specification by an interpretation of the
  locale \<open>refinement\<close>.
\<close>

section \<open>Shape of the queue\<close>

definition msg_at :: "queue_node_t heap \<Rightarrow> addr \<Rightarrow> message_t" where
  "msg_at h a = qn_message (the (h a))"

definition msg_view :: "queue_node_t heap \<Rightarrow> addr \<rightharpoonup> message_t" where
  "msg_view h a = map_option qn_message (h a)"

definition mq_shape :: "mqueue_t \<Rightarrow> addr list \<Rightarrow> bool" where
  "mq_shape q as \<longleftrightarrow>
     chain (fld qn_next (mq_heap q)) (mq_head q) as \<and> distinct as \<and> set as \<subseteq> dom (mq_heap q)
   \<and> mq_tail q = (if as = [] then None else Some (last as)) \<and> mq_size q = of_nat (length as)"

lemma msg_at_view: "msg_view h' = msg_view h \<Longrightarrow> a \<in> dom h \<Longrightarrow> msg_at h' a = msg_at h a"
proof -
  assume "msg_view h' = msg_view h" and "a \<in> dom h"
  then have "msg_view h' a = msg_view h a" "h a \<noteq> None" by auto
  then show ?thesis by (cases "h a"; cases "h' a") (auto simp: msg_view_def msg_at_def)
qed

lemma msg_view_dom:
  assumes "msg_view h' = msg_view h"
  shows "dom h' = dom h"
proof -
  have "h' a = None \<longleftrightarrow> h a = None" for a
    using fun_cong [OF assms, of a] by (cases "h a"; cases "h' a") (auto simp: msg_view_def)
  then show ?thesis by (simp add: dom_def)
qed

definition enq_spec :: "ordering_t \<Rightarrow> message_t \<Rightarrow> message_t list \<Rightarrow> message_t list" where
  "enq_spec mode m l =
     (if mode = ORDERING_PRIORITY
      then takeWhile (\<lambda>x. msg_priority x \<ge> msg_priority m) l @ m #
           dropWhile (\<lambda>x. msg_priority x \<ge> msg_priority m) l
      else l @ [m])"

text \<open>The pointer updates that link a node between \<open>xs\<close> and \<open>ys\<close>.\<close>

lemma link_shape:
  assumes shape: "mq_shape q (xs @ ys)" and n: "mq_heap q a = Some n" and a: "a \<notin> set (xs @ ys)"
    and h1: "h1 = (mq_heap q)(a \<mapsto> n\<lparr>qn_next := list_head ys\<rparr>)"
    and h2: "h2 = (if xs = [] then h1 else h1(last xs \<mapsto> (the (h1 (last xs)))\<lparr>qn_next := Some a\<rparr>))"
  shows "mq_shape (q\<lparr>mq_heap := h2, mq_head := if xs = [] then Some a else mq_head q,
           mq_tail := if ys = [] then Some a else mq_tail q, mq_size := mq_size q + 1\<rparr>) (xs @ a # ys)"
    and "msg_view h2 = msg_view (mq_heap q)"
proof -
  let ?h = "mq_heap q"
  have s: "chain (fld qn_next ?h) (mq_head q) (xs @ ys)" "distinct (xs @ ys)" "set (xs @ ys) \<subseteq> dom ?h"
    "mq_tail q = (if xs @ ys = [] then None else Some (last (xs @ ys)))"
    "mq_size q = of_nat (length (xs @ ys))"
    using shape by (simp_all add: mq_shape_def)
  have l: "\<exists>e. ?h (last xs) = Some e \<and> last xs \<noteq> a" if "xs \<noteq> []"
  proof -
    have "last xs \<in> set xs" using that by simp
    with s(3) a show ?thesis by auto
  qed
  have f: "fld qn_next h2 = (if xs = [] then (fld qn_next ?h)(a := list_head ys)
      else ((fld qn_next ?h)(a := list_head ys))(last xs := Some a))"
    using l by (auto simp: h2 h1 heap_simps)
  show "msg_view h2 = msg_view ?h"
    using l n by (auto simp: h2 h1 msg_view_def fun_eq_iff)
  then have "dom h2 = dom ?h" by (rule msg_view_dom)
  moreover have "chain (fld qn_next h2) (if xs = [] then Some a else mq_head q) (xs @ a # ys)"
    unfolding f by (rule chain_insert [OF s(1,2) a])
  ultimately show "mq_shape (q\<lparr>mq_heap := h2, mq_head := if xs = [] then Some a else mq_head q,
      mq_tail := if ys = [] then Some a else mq_tail q, mq_size := mq_size q + 1\<rparr>) (xs @ a # ys)"
    using s(2-5) a n by (auto simp: mq_shape_def)
qed

lemma enqueue_search_chain:
  "chain (fld qn_next h) p as \<Longrightarrow> set as \<subseteq> dom h \<Longrightarrow>
     enqueue_search p prev h pr =
       Some (let xs = takeWhile (\<lambda>a. msg_priority (msg_at h a) \<ge> pr) as in
             (if xs = [] then prev else Some (last xs),
              list_head (dropWhile (\<lambda>a. msg_priority (msg_at h a) \<ge> pr) as)))"
proof (induction as arbitrary: p prev)
  case Nil
  then show ?case by (subst enqueue_search.simps) simp
next
  case (Cons a as)
  then obtain n where "h a = Some n" by auto
  with Cons show ?case
    by (subst enqueue_search.simps) (simp add: fld_Some msg_at_def Let_def)
qed

lemma takeWhile_dropWhile_map:
  "(\<And>a. a \<in> set as \<Longrightarrow> P (f a) = Q a) \<Longrightarrow>
     takeWhile P (map f as) = map f (takeWhile Q as) \<and> dropWhile P (map f as) = map f (dropWhile Q as)"
  by (induction as) auto

lemma enqueue_links:
  assumes shape: "mq_shape q as" and n: "mq_heap q a = Some n" and a: "a \<notin> set as"
  obtains xs ys where "as = xs @ ys"
    and "map (msg_at (mq_heap q)) xs @ qn_message n # map (msg_at (mq_heap q)) ys =
          enq_spec (mq_ordering q) (qn_message n) (map (msg_at (mq_heap q)) as)"
    and "enqueue_message q a =
          Some (q\<lparr>mq_heap := (let h1 = (mq_heap q)(a \<mapsto> n\<lparr>qn_next := list_head ys\<rparr>) in
                  if xs = [] then h1 else h1(last xs \<mapsto> (the (h1 (last xs)))\<lparr>qn_next := Some a\<rparr>)),
                mq_head := if xs = [] then Some a else mq_head q,
                mq_tail := if ys = [] then Some a else mq_tail q, mq_size := mq_size q + 1\<rparr>)"
proof (cases "mq_ordering q = ORDERING_PRIORITY")
  case True
  let ?P = "\<lambda>x. msg_priority (msg_at (mq_heap q) x) \<ge> msg_priority (qn_message n)"
  define xs ys where "xs = takeWhile ?P as" and "ys = dropWhile ?P as"
  have as: "as = xs @ ys" by (simp add: xs_def ys_def)
  have "enqueue_search (mq_head q) None (mq_heap q) (msg_priority (qn_message n)) =
      Some (if xs = [] then None else Some (last xs), list_head ys)"
    using shape by (subst enqueue_search_chain) (auto simp: mq_shape_def xs_def ys_def Let_def)
  moreover have "\<exists>e. mq_heap q (last xs) = Some e \<and> last xs \<noteq> a" if "xs \<noteq> []"
  proof -
    have "last xs \<in> set as" using that as by simp
    with shape a show ?thesis by (auto simp: mq_shape_def)
  qed
  ultimately have "enqueue_message q a =
      Some (q\<lparr>mq_heap := (let h1 = (mq_heap q)(a \<mapsto> n\<lparr>qn_next := list_head ys\<rparr>) in
          if xs = [] then h1 else h1(last xs \<mapsto> (the (h1 (last xs)))\<lparr>qn_next := Some a\<rparr>)),
        mq_head := if xs = [] then Some a else mq_head q,
        mq_tail := if ys = [] then Some a else mq_tail q, mq_size := mq_size q + 1\<rparr>)"
    using True n by (cases "xs = []"; cases "ys = []") (auto simp: enqueue_message_def Let_def)
  moreover have "map (msg_at (mq_heap q)) xs @ qn_message n # map (msg_at (mq_heap q)) ys =
      enq_spec (mq_ordering q) (qn_message n) (map (msg_at (mq_heap q)) as)"
    using True takeWhile_dropWhile_map [of as "\<lambda>x. msg_priority x \<ge> msg_priority (qn_message n)"
        "msg_at (mq_heap q)" ?P]
    by (simp add: enq_spec_def xs_def ys_def)
  ultimately show ?thesis using that as by blast
next
  case False
  have "\<exists>e. mq_heap q (last as) = Some e \<and> last as \<noteq> a" if "as \<noteq> []"
  proof -
    have "last as \<in> set as" using that by simp
    with shape a show ?thesis by (auto simp: mq_shape_def)
  qed
  with False n shape have "enqueue_message q a =
      Some (q\<lparr>mq_heap := (let h1 = (mq_heap q)(a \<mapsto> n\<lparr>qn_next := list_head []\<rparr>) in
          if as = [] then h1 else h1(last as \<mapsto> (the (h1 (last as)))\<lparr>qn_next := Some a\<rparr>)),
        mq_head := if as = [] then Some a else mq_head q, mq_tail := Some a, mq_size := mq_size q + 1\<rparr>)"
    by (cases "as = []") (auto simp: enqueue_message_def Let_def mq_shape_def)
  with False show ?thesis using that [of as "[]"] by (simp add: enq_spec_def)
qed

lemma enqueue_message_shape:
  assumes shape: "mq_shape q as" and n: "mq_heap q a = Some n" and a: "a \<notin> set as"
  shows "\<exists>h hp tp as'. enqueue_message q a =
         Some (q\<lparr>mq_heap := h, mq_head := hp, mq_tail := tp, mq_size := mq_size q + 1\<rparr>)
     \<and> mq_shape (q\<lparr>mq_heap := h, mq_head := hp, mq_tail := tp, mq_size := mq_size q + 1\<rparr>) as'
     \<and> set as' = insert a (set as) \<and> msg_view h = msg_view (mq_heap q)
     \<and> map (msg_at h) as' = enq_spec (mq_ordering q) (qn_message n) (map (msg_at (mq_heap q)) as)"
proof -
  obtain xs ys where as: "as = xs @ ys"
    and spec: "map (msg_at (mq_heap q)) xs @ qn_message n # map (msg_at (mq_heap q)) ys =
          enq_spec (mq_ordering q) (qn_message n) (map (msg_at (mq_heap q)) as)"
    and enq: "enqueue_message q a =
          Some (q\<lparr>mq_heap := (let h1 = (mq_heap q)(a \<mapsto> n\<lparr>qn_next := list_head ys\<rparr>) in
                  if xs = [] then h1 else h1(last xs \<mapsto> (the (h1 (last xs)))\<lparr>qn_next := Some a\<rparr>)),
                mq_head := if xs = [] then Some a else mq_head q,
                mq_tail := if ys = [] then Some a else mq_tail q, mq_size := mq_size q + 1\<rparr>)"
    by (rule enqueue_links [OF assms])
  define h where "h = (let h1 = (mq_heap q)(a \<mapsto> n\<lparr>qn_next := list_head ys\<rparr>) in
      if xs = [] then h1 else h1(last xs \<mapsto> (the (h1 (last xs)))\<lparr>qn_next := Some a\<rparr>))"
  have sh: "mq_shape (q\<lparr>mq_heap := h, mq_head := if xs = [] then Some a else mq_head q,
        mq_tail := if ys = [] then Some a else mq_tail q, mq_size := mq_size q + 1\<rparr>) (xs @ a # ys)"
    and v: "msg_view h = msg_view (mq_heap q)"
    using link_shape [OF shape [unfolded as] n a [unfolded as] refl] unfolding h_def Let_def by blast+
  have "msg_at h x = msg_at (mq_heap q) x" if "x \<in> set (xs @ a # ys)" for x
    using that shape n as by (intro msg_at_view [OF v]) (auto simp: mq_shape_def)
  then have "map (msg_at h) (xs @ a # ys) =
      map (msg_at (mq_heap q)) xs @ qn_message n # map (msg_at (mq_heap q)) ys"
    using n by (simp add: msg_at_def)
  moreover have "set (xs @ a # ys) = insert a (set as)" using as by auto
  ultimately show ?thesis using enq sh v spec unfolding h_def [symmetric] by metis
qed

lemma dequeue_message_empty: "mq_shape q [] \<Longrightarrow> dequeue_message q = Some (None, q)"
  by (simp add: dequeue_message_def mq_shape_def)

lemma dequeue_message_shape:
  assumes "mq_shape q (a # as)"
  shows "\<exists>hp tp. dequeue_message q = Some (Some a, q\<lparr>mq_head := hp, mq_tail := tp, mq_size := mq_size q - 1\<rparr>)
     \<and> mq_shape (q\<lparr>mq_head := hp, mq_tail := tp, mq_size := mq_size q - 1\<rparr>) as"
proof -
  obtain n where n: "mq_heap q a = Some n" using assms by (auto simp: mq_shape_def)
  then have c: "chain (fld qn_next (mq_heap q)) (qn_next n) as"
    using assms by (simp add: mq_shape_def fld_Some)
  show ?thesis
  proof (cases as)
    case Nil
    with assms n c show ?thesis
      by (auto simp: mq_shape_def dequeue_message_def intro!: exI [of _ None])
  next
    case (Cons b bs)
    with assms n c show ?thesis
      by (auto simp: mq_shape_def dequeue_message_def intro!: exI [of _ "Some b"])
  qed
qed

lemma mq_shape_frame:
  "mq_shape (q\<lparr>mq_total_published := n\<rparr>) as = mq_shape q as"
  "mq_shape (q\<lparr>mq_total_consumed := n\<rparr>) as = mq_shape q as"
  "mq_shape (q\<lparr>mq_consumers := cs\<rparr>) as = mq_shape q as"
  "mq_shape (q\<lparr>mq_consumer_count := n\<rparr>) as = mq_shape q as"
  by (simp_all add: mq_shape_def)

lemma chain_node_free:
  "a \<notin> set as \<Longrightarrow> chain (fld qn_next (h(a := None))) p as = chain (fld qn_next h) p as"
  "a \<notin> set as \<Longrightarrow> chain (fld qn_next (h(a \<mapsto> n))) p as = chain (fld qn_next h) p as"
  by (auto simp: fld_def intro!: chain_cong)

lemma mq_shape_free: "mq_shape q as \<Longrightarrow> a \<notin> set as \<Longrightarrow> mq_shape (q\<lparr>mq_heap := (mq_heap q)(a := None)\<rparr>) as"
  by (auto simp: mq_shape_def chain_node_free simp del: fun_upd_apply)

lemma mq_shape_alloc: "mq_shape q as \<Longrightarrow> a \<notin> set as \<Longrightarrow> mq_shape (q\<lparr>mq_heap := (mq_heap q)(a \<mapsto> n)\<rparr>) as"
  by (auto simp: mq_shape_def chain_node_free simp del: fun_upd_apply)

section \<open>Publishing\<close>

definition new_message ::
  "cstr \<Rightarrow> bytes \<Rightarrow> u64 \<Rightarrow> int \<Rightarrow> u64 \<Rightarrow> u64 \<Rightarrow> u64 \<Rightarrow> int \<Rightarrow> message_t" where
  "new_message topic payload payload_size priority counter now_id now max_retries =
     \<lparr>msg_id = fst (generate_message_id counter now_id), msg_topic = topic,
      msg_payload = take (unat payload_size) payload, msg_payload_size = payload_size,
      msg_timestamp = now, msg_priority = priority, msg_retry_count = 0, msg_max_retries = max_retries\<rparr>"

lemma publish_shape:
  assumes shape: "mq_shape q as" and fresh: "mq_heap q node = None"
    and sz: "0 < payload_size" "unat payload_size \<le> length p"
    and m: "m = new_message t p payload_size priority counter now_id now (mq_max_retries q)"
  shows "\<exists>h hp tp as' q'. q' = q\<lparr>mq_heap := h, mq_head := hp, mq_tail := tp, mq_size := mq_size q + 1,
             mq_total_published := mq_total_published q + 1\<rparr>
     \<and> mqueue_publish_with_priority (Some q) (Some t) (Some p) payload_size priority counter now_id now node =
         Some (SUCCESS, Some q', counter + 1)
     \<and> mq_shape q' as' \<and> set as' = insert node (set as)
     \<and> msg_view h = (msg_view (mq_heap q))(node \<mapsto> m)
     \<and> map (msg_at h) as' = enq_spec (mq_ordering q) m (map (msg_at (mq_heap q)) as)"
proof -
  let ?q = "q\<lparr>mq_heap := (mq_heap q)(node \<mapsto> \<lparr>qn_message = m, qn_next = None\<rparr>)\<rparr>"
  have node: "node \<notin> set as" using shape fresh by (auto simp: mq_shape_def)
  have "mq_shape ?q as" using mq_shape_alloc [OF shape node] .
  moreover have "mq_heap ?q node = Some \<lparr>qn_message = m, qn_next = None\<rparr>" by simp
  ultimately obtain h hp tp as' where
    enq: "enqueue_message ?q node = Some (?q\<lparr>mq_heap := h, mq_head := hp, mq_tail := tp, mq_size := mq_size ?q + 1\<rparr>)"
    and s': "mq_shape (?q\<lparr>mq_heap := h, mq_head := hp, mq_tail := tp, mq_size := mq_size ?q + 1\<rparr>) as'"
    and as': "set as' = insert node (set as)" and v: "msg_view h = msg_view (mq_heap ?q)"
    and spec: "map (msg_at h) as' = enq_spec (mq_ordering ?q) m (map (msg_at (mq_heap ?q)) as)"
    using enqueue_message_shape [of ?q as node] node by fastforce
  have old: "map (msg_at (mq_heap ?q)) as = map (msg_at (mq_heap q)) as"
    using node by (auto simp: msg_at_def)
  have "msg_view (mq_heap ?q) = (msg_view (mq_heap q))(node \<mapsto> m)"
    by (auto simp: msg_view_def fun_eq_iff)
  then have v': "msg_view h = (msg_view (mq_heap q))(node \<mapsto> m)" unfolding v .
  have "message_create t p payload_size priority counter now_id now =
      Some (m\<lparr>msg_max_retries := 3\<rparr>, counter + 1)"
    using sz(2) by (simp add: message_create_def generate_message_id_def new_message_def m)
  moreover have "m\<lparr>msg_max_retries := mq_max_retries q\<rparr> = m" by (simp add: m new_message_def)
  moreover have "payload_size \<noteq> 0" using sz(1) by auto
  ultimately have "mqueue_publish_with_priority (Some q) (Some t) (Some p) payload_size priority counter now_id now node =
      Some (SUCCESS, Some (q\<lparr>mq_heap := h, mq_head := hp, mq_tail := tp, mq_size := mq_size q + 1,
        mq_total_published := mq_total_published q + 1\<rparr>), counter + 1)"
    using enq by (simp add: mqueue_publish_with_priority_def)
  moreover have "mq_shape (q\<lparr>mq_heap := h, mq_head := hp, mq_tail := tp, mq_size := mq_size q + 1,
      mq_total_published := mq_total_published q + 1\<rparr>) as'"
    using s' by (simp add: mq_shape_frame)
  moreover have "map (msg_at h) as' = enq_spec (mq_ordering q) m (map (msg_at (mq_heap q)) as)"
    using spec unfolding old by simp
  ultimately show ?thesis using as' v' by blast
qed

section \<open>Order of delivery\<close>

abbreviation urgency :: "message_t \<Rightarrow> int" where
  "urgency m \<equiv> - msg_priority m"

lemma mset_enq_spec [simp]: "mset (enq_spec mode m l) = add_mset m (mset l)"
proof -
  have "mset (takeWhile P l) + mset (dropWhile P l) = mset l" for P
    by (metis mset_append takeWhile_dropWhile_id)
  then show ?thesis by (simp add: enq_spec_def)
qed

lemma priority_split:
  assumes "sorted (map urgency l)"
  shows "\<forall>x \<in> set (dropWhile (\<lambda>x. msg_priority x \<ge> p) l). msg_priority x < p"
  using assms
proof (induction l)
  case Nil
  then show ?case by simp
next
  case (Cons a l)
  then have "\<forall>x \<in> set l. msg_priority x \<le> msg_priority a" "sorted (map urgency l)" by simp_all
  with Cons.IH show ?case by (cases "p \<le> msg_priority a") auto
qed

lemma enq_spec_sorted:
  assumes "sorted (map urgency l)"
  shows "sorted (map urgency (enq_spec ORDERING_PRIORITY m l))"
proof -
  let ?P = "\<lambda>x. msg_priority x \<ge> msg_priority m"
  define xs ys where "xs = takeWhile ?P l" and "ys = dropWhile ?P l"
  have l: "l = xs @ ys" by (simp add: xs_def ys_def)
  have "\<forall>x \<in> set xs. urgency x \<le> urgency m" by (auto simp: xs_def dest: set_takeWhileD)
  moreover have "\<forall>y \<in> set ys. urgency m \<le> urgency y"
    using priority_split [OF assms, of "msg_priority m"] by (auto simp: ys_def less_imp_le)
  moreover have "sorted (map urgency xs)" "sorted (map urgency ys)"
    using assms unfolding l by (simp_all add: sorted_append)
  ultimately have "sorted (map urgency (xs @ m # ys))"
    by (simp add: sorted_append) (meson order_trans)
  then show ?thesis by (simp add: enq_spec_def xs_def ys_def)
qed

lemma enq_spec_stable:
  assumes "sorted (map urgency l)"
  shows "filter (\<lambda>x. msg_priority x = p) (enq_spec ORDERING_PRIORITY m l) =
     filter (\<lambda>x. msg_priority x = p) l @ (if msg_priority m = p then [m] else [])"
proof -
  let ?P = "\<lambda>x. msg_priority x \<ge> msg_priority m" and ?F = "filter (\<lambda>x. msg_priority x = p)"
  have l: "?F l = ?F (takeWhile ?P l) @ ?F (dropWhile ?P l)"
    by (metis filter_append takeWhile_dropWhile_id)
  have "?F (dropWhile ?P l) = []" if "msg_priority m = p"
    using priority_split [OF assms, of p] that by (auto simp: filter_empty_conv)
  with l show ?thesis by (simp add: enq_spec_def)
qed

lemma fold_enq_stable:
  "sorted (map urgency l) \<Longrightarrow>
     sorted (map urgency (fold (enq_spec ORDERING_PRIORITY) ms l))
   \<and> mset (fold (enq_spec ORDERING_PRIORITY) ms l) = mset l + mset ms
   \<and> (\<forall>p. filter (\<lambda>x. msg_priority x = p) (fold (enq_spec ORDERING_PRIORITY) ms l) =
          filter (\<lambda>x. msg_priority x = p) l @ filter (\<lambda>x. msg_priority x = p) ms)"
  by (induction ms arbitrary: l) (simp_all add: enq_spec_sorted enq_spec_stable)

lemma fold_enq_priority: "fold (enq_spec ORDERING_PRIORITY) ms [] = sort_key urgency ms"
proof (rule properties_for_sort_key [symmetric])
  fix k
  have "(\<lambda>x. urgency k = urgency x) = (\<lambda>x. msg_priority x = msg_priority k)" by auto
  then show "filter (\<lambda>x. urgency k = urgency x) (fold (enq_spec ORDERING_PRIORITY) ms []) =
      filter (\<lambda>x. urgency k = urgency x) ms"
    using fold_enq_stable [of "[]" ms] by simp
qed (use fold_enq_stable [of "[]" ms] in simp_all)

lemma fold_enq_fifo: "mode \<noteq> ORDERING_PRIORITY \<Longrightarrow> fold (enq_spec mode) ms l = l @ ms"
  by (induction ms arbitrary: l) (simp_all add: enq_spec_def)

section \<open>Sequences of publishes and dequeues\<close>

datatype mq_op =
    MQ_Publish cstr bytes u64 int u64 u64 u64 addr
  | MQ_Take

text \<open>A take is what a consumer does with a node whose topic matches: dequeue it, read it, free it.\<close>

fun mq_exec :: "mqueue_t \<times> message_t list \<Rightarrow> mq_op \<Rightarrow> (mqueue_t \<times> message_t list) option" where
  "mq_exec (q, out) (MQ_Publish t p payload_size priority counter now_id now node) =
     (case mqueue_publish_with_priority (Some q) (Some t) (Some p) payload_size priority counter now_id now node of
        Some (_, Some q', _) \<Rightarrow> Some (q', out) | _ \<Rightarrow> None)"
| "mq_exec (q, out) MQ_Take =
     (case dequeue_message q of
        None \<Rightarrow> None
      | Some (None, q') \<Rightarrow> Some (q', out)
      | Some (Some a, q') \<Rightarrow>
          (case mq_heap q' a of
             None \<Rightarrow> None
           | Some n \<Rightarrow> Some (q'\<lparr>mq_heap := (mq_heap q')(a := None)\<rparr>, out @ [qn_message n])))"

fun mq_pre :: "mqueue_t \<times> message_t list \<Rightarrow> mq_op \<Rightarrow> bool" where
  "mq_pre (q, out) (MQ_Publish t p payload_size priority counter now_id now node) \<longleftrightarrow>
     0 < payload_size \<and> unat payload_size \<le> length p \<and> mq_heap q node = None"
| "mq_pre (q, out) MQ_Take \<longleftrightarrow> True"

fun amq_exec ::
  "ordering_t \<Rightarrow> int \<Rightarrow> message_t list \<times> message_t list \<Rightarrow> mq_op \<Rightarrow> message_t list \<times> message_t list" where
  "amq_exec mode mr (l, out) (MQ_Publish t p payload_size priority counter now_id now node) =
     (enq_spec mode (new_message t p payload_size priority counter now_id now mr) l, out)"
| "amq_exec mode mr (l, out) MQ_Take = (case l of [] \<Rightarrow> (l, out) | m # l' \<Rightarrow> (l', out @ [m]))"

definition mq_rel ::
  "ordering_t \<Rightarrow> int \<Rightarrow> mqueue_t \<times> message_t list \<Rightarrow> message_t list \<times> message_t list \<Rightarrow> bool" where
  "mq_rel mode mr s a \<longleftrightarrow>
     snd s = snd a \<and> mq_ordering (fst s) = mode \<and> mq_max_retries (fst s) = mr
   \<and> (\<exists>as. mq_shape (fst s) as \<and> dom (mq_heap (fst s)) = set as \<and> fst a = map (msg_at (mq_heap (fst s))) as)"

lemma mq_publish_sim:
  assumes "mq_rel mode mr (q, out) (l, out)"
    and "mq_pre (q, out) (MQ_Publish t p payload_size priority counter now_id now node)"
  shows "\<exists>q'. mqueue_publish_with_priority (Some q) (Some t) (Some p) payload_size priority counter now_id now node =
         Some (SUCCESS, Some q', counter + 1)
     \<and> mq_rel mode mr (q', out) (enq_spec mode (new_message t p payload_size priority counter now_id now mr) l, out)"
proof -
  from assms(1) obtain as where as: "mq_shape q as" "dom (mq_heap q) = set as"
    "l = map (msg_at (mq_heap q)) as" and q: "mq_ordering q = mode" "mq_max_retries q = mr"
    by (auto simp: mq_rel_def)
  let ?m = "new_message t p payload_size priority counter now_id now mr"
  obtain h hp tp as' q' where q': "q' = q\<lparr>mq_heap := h, mq_head := hp, mq_tail := tp, mq_size := mq_size q + 1,
        mq_total_published := mq_total_published q + 1\<rparr>"
    and pub: "mqueue_publish_with_priority (Some q) (Some t) (Some p) payload_size priority counter now_id now node =
         Some (SUCCESS, Some q', counter + 1)"
    and as': "mq_shape q' as'" "set as' = insert node (set as)"
    and v: "msg_view h = (msg_view (mq_heap q))(node \<mapsto> ?m)"
    and spec: "map (msg_at h) as' = enq_spec mode ?m l"
    using publish_shape [OF as(1), of node payload_size p ?m t priority counter now_id now] assms(2) q as(3) by auto
  have "dom (msg_view g) = dom g" for g by (auto simp: msg_view_def)
  then have "dom h = insert node (dom (mq_heap q))" by (metis v dom_fun_upd option.distinct(1))
  then have "dom (mq_heap q') = set as'" using as(2) as'(2) by (simp add: q')
  moreover have "enq_spec mode ?m l = map (msg_at (mq_heap q')) as'" using spec by (simp add: q')
  ultimately have "mq_rel mode mr (q', out) (enq_spec mode ?m l, out)"
    using as'(1) q by (auto simp: mq_rel_def q')
  with pub show ?thesis by blast
qed

lemma mq_take_sim:
  assumes "mq_rel mode mr (q, out) (l, out)"
  shows "\<exists>s'. mq_exec (q, out) MQ_Take = Some s' \<and> mq_rel mode mr s' (amq_exec mode mr (l, out) MQ_Take)"
proof -
  from assms obtain as where as: "mq_shape q as" "dom (mq_heap q) = set as"
    "l = map (msg_at (mq_heap q)) as" and q: "mq_ordering q = mode" "mq_max_retries q = mr"
    by (auto simp: mq_rel_def)
  show ?thesis
  proof (cases as)
    case Nil
    with as assms show ?thesis by (simp add: dequeue_message_empty)
  next
    case (Cons a bs)
    with as(1) obtain hp tp where
      deq: "dequeue_message q = Some (Some a, q\<lparr>mq_head := hp, mq_tail := tp, mq_size := mq_size q - 1\<rparr>)"
      and s: "mq_shape (q\<lparr>mq_head := hp, mq_tail := tp, mq_size := mq_size q - 1\<rparr>) bs"
      using dequeue_message_shape by blast
    obtain n where n: "mq_heap q a = Some n" using as(2) Cons by auto
    have a: "a \<notin> set bs" using as(1) Cons by (simp add: mq_shape_def)
    let ?q = "q\<lparr>mq_head := hp, mq_tail := tp, mq_size := mq_size q - 1, mq_heap := (mq_heap q)(a := None)\<rparr>"
    have "mq_shape ?q bs" using mq_shape_free [OF s a] by simp
    moreover have "map (msg_at (mq_heap q)) bs = map (msg_at (mq_heap ?q)) bs"
      using a by (auto simp: msg_at_def)
    moreover have "dom (mq_heap ?q) = set bs" using as(2) Cons a by auto
    ultimately have "mq_rel mode mr (?q, out @ [qn_message n]) (map (msg_at (mq_heap q)) bs, out @ [qn_message n])"
      using q by (auto simp: mq_rel_def)
    then show ?thesis using deq n Cons as(3) by (simp add: msg_at_def)
  qed
qed

lemma mq_exec_sim:
  assumes "mq_rel mode mr s a" and "mq_pre s x"
  shows "\<exists>s'. mq_exec s x = Some s' \<and> mq_rel mode mr s' (amq_exec mode mr a x)"
proof -
  obtain q out l where s: "s = (q, out)" "a = (l, out)" using assms(1) by (cases s; cases a) (auto simp: mq_rel_def)
  show ?thesis
  proof (cases x)
    case (MQ_Publish t p payload_size priority counter now_id now node)
    with assms s mq_publish_sim [of mode mr q out l t p payload_size priority counter now_id now node]
    show ?thesis by auto
  next
    case MQ_Take
    with assms(1) mq_take_sim s show ?thesis by auto
  qed
qed

interpretation mq_ref: refinement mq_exec mq_pre "amq_exec mode mr" "mq_rel mode mr" for mode mr
  by unfold_locales (rule mq_exec_sim)

lemma mqueue_create_rel: "mq_rel mode 3 (mqueue_create name mode, []) ([], [])"
  by (simp add: mq_rel_def mqueue_create_def mq_shape_def)

text \<open>
  C20: Any sequence of publishes (with a payload of the announced size and a fresh node) and
  dequeues runs without undefined behaviour, its search loop terminating, and the linked list
  it leaves holds exactly the messages the list specification computes, in the same order,
  with the same messages taken; the size field is their number.
\<close>

theorem mqueue_sequence_refines:
  assumes "run_ok mq_exec mq_pre (mqueue_create name mode, []) ops"
  shows "\<exists>q out. run mq_exec (mqueue_create name mode, []) ops = Some (q, out)
     \<and> mq_rel mode 3 (q, out) (foldl (amq_exec mode 3) ([], []) ops)
     \<and> mqueue_size (Some q) = of_nat (length (fst (foldl (amq_exec mode 3) ([], []) ops)))"
proof -
  obtain s where "run mq_exec (mqueue_create name mode, []) ops = Some s"
    "mq_rel mode 3 s (foldl (amq_exec mode 3) ([], []) ops)"
    using mq_ref.run_refines [OF mqueue_create_rel assms] by blast
  then show ?thesis by (cases s) (auto simp: mq_rel_def mqueue_size_def mq_shape_def)
qed

definition sample_pubs :: "mq_op list" where
  "sample_pubs =
     [MQ_Publish ''t'' [1] 1 5 0 10 10 1, MQ_Publish ''t'' [2] 1 9 1 11 11 2,
      MQ_Publish ''u'' [3] 1 5 2 12 12 3]"

lemma sample_pubs_ok:
  "run_ok mq_exec mq_pre (mqueue_create ''q'' ORDERING_PRIORITY, []) (sample_pubs @ replicate 3 MQ_Take)"
  by code_simp

theorem mqueue_sequence_refines_witness:
  "\<exists>q out. run mq_exec (mqueue_create ''q'' ORDERING_PRIORITY, []) (sample_pubs @ replicate 3 MQ_Take) = Some (q, out)
     \<and> mq_rel ORDERING_PRIORITY 3 (q, out)
         (foldl (amq_exec ORDERING_PRIORITY 3) ([], []) (sample_pubs @ replicate 3 MQ_Take))
     \<and> mqueue_size (Some q) =
         of_nat (length (fst (foldl (amq_exec ORDERING_PRIORITY 3) ([], []) (sample_pubs @ replicate 3 MQ_Take))))"
  by (rule mqueue_sequence_refines [OF sample_pubs_ok])

fun op_messages :: "int \<Rightarrow> mq_op \<Rightarrow> message_t list" where
  "op_messages mr (MQ_Publish t p payload_size priority counter now_id now node) =
     [new_message t p payload_size priority counter now_id now mr]"
| "op_messages mr MQ_Take = []"

lemma amq_publish_all:
  "list_all (\<lambda>x. x \<noteq> MQ_Take) xs \<Longrightarrow>
     foldl (amq_exec mode mr) (l, out) xs = (fold (enq_spec mode) (concat (map (op_messages mr) xs)) l, out)"
proof (induction xs arbitrary: l)
  case (Cons x xs)
  then show ?case by (cases x) auto
qed simp

lemma length_op_messages:
  "list_all (\<lambda>x. x \<noteq> MQ_Take) xs \<Longrightarrow> length (concat (map (op_messages mr) xs)) = length xs"
proof (induction xs)
  case (Cons x xs)
  then show ?case by (cases x) auto
qed simp

lemma amq_take_all:
  "length l = n \<Longrightarrow> foldl (amq_exec mode mr) (l, out) (replicate n MQ_Take) = ([], out @ l)"
proof (induction n arbitrary: l out)
  case (Suc n)
  then show ?case by (cases l) auto
qed simp

lemma length_fold_enq: "length (fold (enq_spec mode) ms l) = length l + length ms"
proof (induction ms arbitrary: l)
  case (Cons m ms)
  have "length (enq_spec mode m l) = Suc (length l)" by (metis mset_enq_spec size_add_mset size_mset)
  with Cons show ?case by simp
qed simp

text \<open>
  C14: Delivery order. Publishing any messages into an empty queue and taking them all out again
  gives, for priority ordering, the stable sort of the messages by descending priority (equal
  priorities in publication order) and otherwise the publication order; afterwards no node is
  allocated and the queue is empty.
\<close>

theorem mqueue_drain_order:
  assumes "list_all (\<lambda>x. x \<noteq> MQ_Take) pubs"
    and "run_ok mq_exec mq_pre (mqueue_create name mode, []) (pubs @ replicate (length pubs) MQ_Take)"
  shows "\<exists>q. run mq_exec (mqueue_create name mode, []) (pubs @ replicate (length pubs) MQ_Take) =
       Some (q, if mode = ORDERING_PRIORITY then sort_key urgency (concat (map (op_messages 3) pubs))
                else concat (map (op_messages 3) pubs))
     \<and> mq_heap q = Map.empty \<and> mqueue_size (Some q) = 0"
proof -
  let ?ms = "concat (map (op_messages 3) pubs)"
  have "length (fold (enq_spec mode) ?ms []) = length pubs"
    using length_op_messages [OF assms(1)] by (simp add: length_fold_enq)
  then have "foldl (amq_exec mode 3) ([], []) (pubs @ replicate (length pubs) MQ_Take) =
      ([], fold (enq_spec mode) ?ms [])"
    using amq_publish_all [OF assms(1)] amq_take_all by simp
  with mq_ref.run_refines [OF mqueue_create_rel assms(2)] obtain q out where
    run: "run mq_exec (mqueue_create name mode, []) (pubs @ replicate (length pubs) MQ_Take) = Some (q, out)"
    and rel: "mq_rel mode 3 (q, out) ([], fold (enq_spec mode) ?ms [])"
    by fastforce
  have "out = (if mode = ORDERING_PRIORITY then sort_key urgency ?ms else ?ms)"
    using rel by (auto simp: mq_rel_def fold_enq_priority fold_enq_fifo)
  moreover have "mq_heap q = Map.empty" "mq_size q = 0" using rel by (auto simp: mq_rel_def mq_shape_def)
  ultimately show ?thesis using run by (auto simp: mqueue_size_def)
qed

theorem mqueue_drain_order_witness:
  "\<exists>q. run mq_exec (mqueue_create ''q'' ORDERING_PRIORITY, []) (sample_pubs @ replicate (length sample_pubs) MQ_Take) =
       Some (q, if ORDERING_PRIORITY = ORDERING_PRIORITY
                then sort_key urgency (concat (map (op_messages 3) sample_pubs))
                else concat (map (op_messages 3) sample_pubs))
     \<and> mq_heap q = Map.empty \<and> mqueue_size (Some q) = 0"
proof (rule mqueue_drain_order)
  show "list_all (\<lambda>x. x \<noteq> MQ_Take) sample_pubs" by (simp add: sample_pubs_def)
  show "run_ok mq_exec mq_pre (mqueue_create ''q'' ORDERING_PRIORITY, [])
      (sample_pubs @ replicate (length sample_pubs) MQ_Take)"
    using sample_pubs_ok by (simp add: sample_pubs_def numeral_3_eq_3)
qed

end
