(* ===== verification/Mqueue_System.thy ===== *)
theory Mqueue_System
  imports Mqueue_Correct
begin

text \<open>
  Publishers and consumer threads of \<^verbatim>\<open>src/mqueue/mqueue.c\<close> running concurrently. Every critical
  section is one step of \<open>mq_step\<close>; steps of different threads interleave freely. The lists of
  published, delivered and discarded messages are observations, not state of the program. The
  invariant says that the queue and the nodes held by threads partition the allocated nodes,
  and that the messages balance.
\<close>

section \<open>States and steps\<close>

record mq_sys =
  sys_queue :: mqueue_t
  sys_pc :: "addr \<Rightarrow> consumer_pc"
  sys_counter :: u64
  sys_published :: "message_t list"
  sys_delivered :: "(cstr \<times> message_t) list"
  sys_discarded :: "message_t list"

definition sys_init :: "cstr \<Rightarrow> ordering_t \<Rightarrow> mq_sys" where
  "sys_init name mode =
     \<lparr>sys_queue = mqueue_create name mode, sys_pc = (\<lambda>_. C_Ended), sys_counter = 0,
      sys_published = [], sys_delivered = [], sys_discarded = []\<rparr>"

inductive mq_step :: "mq_sys \<Rightarrow> mq_sys \<Rightarrow> bool" where
  publish:
    "mqueue_publish_with_priority (Some (sys_queue s)) (Some t) (Some p) payload_size priority (sys_counter s)
       now_id now node = Some (SUCCESS, Some q', counter') \<Longrightarrow>
     0 < payload_size \<Longrightarrow> unat payload_size \<le> length p \<Longrightarrow> mq_heap (sys_queue s) node = None \<Longrightarrow>
     mq_step s (s\<lparr>sys_queue := q', sys_counter := counter',
       sys_published := sys_published s @ [msg_at (mq_heap q') node]\<rparr>)"
| loop:
    "map_of (mq_consumers (sys_queue s)) c = Some cn \<Longrightarrow> sys_pc s c = C_Loop \<Longrightarrow>
     consumer_loop (sys_queue s) cn = Some (pc', q') \<Longrightarrow>
     mq_step s (s\<lparr>sys_queue := q', sys_pc := (sys_pc s)(c := pc')\<rparr>)"
| dispatch:
    "map_of (mq_consumers (sys_queue s)) c = Some cn \<Longrightarrow> sys_pc s c = C_Holding node \<Longrightarrow>
     consumer_dispatch (sys_queue s) cn node = Some (pc', q', handled) \<Longrightarrow>
     mq_step s (s\<lparr>sys_queue := q', sys_pc := (sys_pc s)(c := pc'),
       sys_delivered := sys_delivered s @ (case handled of None \<Rightarrow> [] | Some m \<Rightarrow> [(cn_topic cn, m)])\<rparr>)"
| finish:
    "sys_pc s c = C_Handled node \<Longrightarrow> consumer_finish (sys_queue s) node = Some (pc', q') \<Longrightarrow>
     mq_step s (s\<lparr>sys_queue := q', sys_pc := (sys_pc s)(c := pc')\<rparr>)"
| subscribe:
    "mqueue_subscribe (Some (sys_queue s)) (Some t) True True c = (Some c, Some q') \<Longrightarrow>
     sys_pc s c = C_Ended \<Longrightarrow>
     mq_step s (s\<lparr>sys_queue := q', sys_pc := (sys_pc s)(c := C_Loop)\<rparr>)"
| unsubscribe_request:
    "mq_step s (s\<lparr>sys_queue := unsubscribe_request (sys_queue s) c\<rparr>)"
| unsubscribe_remove:
    "sys_pc s c = C_Ended \<Longrightarrow> mq_step s (s\<lparr>sys_queue := unsubscribe_remove (sys_queue s) c\<rparr>)"
| clear:
    "mqueue_clear (Some (sys_queue s)) = Some (Some q') \<Longrightarrow> chain (fld qn_next (mq_heap (sys_queue s))) (mq_head (sys_queue s)) as \<Longrightarrow>
     mq_step s (s\<lparr>sys_queue := q',
       sys_discarded := sys_discarded s @ map (msg_at (mq_heap (sys_queue s))) as\<rparr>)"

section \<open>Invariant\<close>

fun node_of :: "consumer_pc \<Rightarrow> addr option" where
  "node_of (C_Holding a) = Some a"
| "node_of (C_Handled a) = Some a"
| "node_of C_Loop = None"
| "node_of C_Ended = None"

definition held :: "(addr \<Rightarrow> consumer_pc) \<Rightarrow> addr set" where
  "held pc = {a. \<exists>c. node_of (pc c) = Some a}"

definition holding :: "(addr \<Rightarrow> consumer_pc) \<Rightarrow> addr set" where
  "holding pc = {a. \<exists>c. pc c = C_Holding a}"

definition exclusive :: "(addr \<Rightarrow> consumer_pc) \<Rightarrow> bool" where
  "exclusive pc \<longleftrightarrow> (\<forall>c c' a. node_of (pc c) = Some a \<longrightarrow> node_of (pc c') = Some a \<longrightarrow> c = c')"

definition in_flight :: "mq_sys \<Rightarrow> message_t multiset" where
  "in_flight s = image_mset (msg_at (mq_heap (sys_queue s))) (mset_set (holding (sys_pc s)))"

definition sys_inv :: "mq_sys \<Rightarrow> addr list \<Rightarrow> bool" where
  "sys_inv s as \<longleftrightarrow>
     mq_shape (sys_queue s) as \<and> finite (holding (sys_pc s)) \<and> exclusive (sys_pc s)
   \<and> held (sys_pc s) \<inter> set as = {} \<and> dom (mq_heap (sys_queue s)) = set as \<union> held (sys_pc s)
   \<and> mset (sys_published s) =
       mset (map (msg_at (mq_heap (sys_queue s))) as) + in_flight s
       + mset (map snd (sys_delivered s)) + mset (sys_discarded s)
   \<and> (\<forall>d \<in> set (sys_delivered s). msg_topic (snd d) = fst d)"

lemma holding_subset: "holding pc \<subseteq> held pc"
proof
  fix a assume "a \<in> holding pc"
  then obtain c where "pc c = C_Holding a" by (auto simp: holding_def)
  then have "node_of (pc c) = Some a" by simp
  then show "a \<in> held pc" by (auto simp: held_def)
qed

lemma holding_upd: "holding (pc(c := p)) = {a. p = C_Holding a} \<union> {a. \<exists>c'. c' \<noteq> c \<and> pc c' = C_Holding a}"
  by (auto simp: holding_def)

lemma held_upd: "held (pc(c := p)) = {a. node_of p = Some a} \<union> {a. \<exists>c'. c' \<noteq> c \<and> node_of (pc c') = Some a}"
  by (auto simp: held_def)

lemma pc_idle:
  assumes "node_of (pc c) = None"
  shows "holding (pc(c := p)) = {a. p = C_Holding a} \<union> holding pc"
    and "held (pc(c := p)) = {a. node_of p = Some a} \<union> held pc"
proof -
  have "(\<exists>c'. c' \<noteq> c \<and> pc c' = C_Holding a) \<longleftrightarrow> (\<exists>c'. pc c' = C_Holding a)" for a
    by (metis assms node_of.simps(1) option.distinct(1))
  then show "holding (pc(c := p)) = {a. p = C_Holding a} \<union> holding pc"
    unfolding holding_upd by (simp add: holding_def)
  have "(\<exists>c'. c' \<noteq> c \<and> node_of (pc c') = Some a) \<longleftrightarrow> (\<exists>c'. node_of (pc c') = Some a)" for a
    by (metis assms option.distinct(1))
  then show "held (pc(c := p)) = {a. node_of p = Some a} \<union> held pc"
    unfolding held_upd by (simp add: held_def)
qed

lemma pc_release:
  assumes "exclusive pc" and "node_of (pc c) = Some a"
  shows "holding (pc(c := p)) = {x. p = C_Holding x} \<union> (holding pc - {a})"
    and "held (pc(c := p)) = {x. node_of p = Some x} \<union> (held pc - {a})"
proof -
  have other: "node_of (pc c') = Some a \<Longrightarrow> c' = c" for c'
    using assms unfolding exclusive_def by blast
  have "(\<exists>c'. c' \<noteq> c \<and> pc c' = C_Holding x) \<longleftrightarrow> (\<exists>c'. pc c' = C_Holding x) \<and> x \<noteq> a" for x
    by (metis assms(2) node_of.simps(1) option.inject other)
  then show "holding (pc(c := p)) = {x. p = C_Holding x} \<union> (holding pc - {a})"
    unfolding holding_upd by (auto simp: holding_def)
  have "(\<exists>c'. c' \<noteq> c \<and> node_of (pc c') = Some x) \<longleftrightarrow> (\<exists>c'. node_of (pc c') = Some x) \<and> x \<noteq> a" for x
    by (metis assms(2) option.inject other)
  then show "held (pc(c := p)) = {x. node_of p = Some x} \<union> (held pc - {a})"
    unfolding held_upd by (auto simp: held_def)
qed

lemma exclusive_update:
  assumes "exclusive pc" and "\<And>a. node_of p = Some a \<Longrightarrow> a \<notin> held pc \<or> node_of (pc c) = Some a"
  shows "exclusive (pc(c := p))"
proof -
  have new: "c' = c" if "node_of p = Some a" "node_of (pc c') = Some a" for c' a
    using assms(1) assms(2) [OF that(1)] that(2) unfolding exclusive_def held_def by blast
  show ?thesis
    unfolding exclusive_def
  proof (intro allI impI)
    fix d d' a
    assume "node_of ((pc(c := p)) d) = Some a" "node_of ((pc(c := p)) d') = Some a"
    then show "d = d'"
      using assms(1) new unfolding exclusive_def by (cases "d = c"; cases "d' = c") auto
  qed
qed

lemma msg_at_cong: "msg_view h' a = msg_view h a \<Longrightarrow> a \<in> dom h \<Longrightarrow> msg_at h' a = msg_at h a"
  by (cases "h' a") (auto simp: msg_view_def msg_at_def)

lemma sys_invE:
  assumes "sys_inv s as"
  obtains "mq_shape (sys_queue s) as" and "finite (holding (sys_pc s))" and "exclusive (sys_pc s)"
    and "held (sys_pc s) \<inter> set as = {}" and "dom (mq_heap (sys_queue s)) = set as \<union> held (sys_pc s)"
    and "mset (sys_published s) = mset (map (msg_at (mq_heap (sys_queue s))) as) + in_flight s
       + mset (map snd (sys_delivered s)) + mset (sys_discarded s)"
    and "\<forall>d \<in> set (sys_delivered s). msg_topic (snd d) = fst d"
  using assms by (simp add: sys_inv_def)

lemma in_flight_cong:
  assumes "finite (holding pc)"
    and "\<And>a. a \<in> holding pc \<Longrightarrow> msg_at h' a = msg_at h a"
  shows "image_mset (msg_at h') (mset_set (holding pc)) = image_mset (msg_at h) (mset_set (holding pc))"
  using assms by (intro image_mset_cong) simp

lemma inv_publish:
  assumes inv: "sys_inv s as" and fresh: "mq_heap (sys_queue s) node = None"
    and sz: "0 < payload_size" "unat payload_size \<le> length p"
    and pub: "mqueue_publish_with_priority (Some (sys_queue s)) (Some t) (Some p) payload_size priority
       (sys_counter s) now_id now node = Some (SUCCESS, Some q', counter')"
  shows "\<exists>as'. sys_inv (s\<lparr>sys_queue := q', sys_counter := counter',
       sys_published := sys_published s @ [msg_at (mq_heap q') node]\<rparr>) as'"
  using inv
proof (rule sys_invE)
  let ?q = "sys_queue s"
  let ?m = "new_message t p payload_size priority (sys_counter s) now_id now (mq_max_retries ?q)"
  assume I: "mq_shape ?q as" "finite (holding (sys_pc s))" "exclusive (sys_pc s)"
    "held (sys_pc s) \<inter> set as = {}" "dom (mq_heap ?q) = set as \<union> held (sys_pc s)"
    and bal: "mset (sys_published s) = mset (map (msg_at (mq_heap ?q)) as) + in_flight s
       + mset (map snd (sys_delivered s)) + mset (sys_discarded s)"
    and top: "\<forall>d \<in> set (sys_delivered s). msg_topic (snd d) = fst d"
  obtain h as' where h: "mq_heap q' = h" and s': "mq_shape q' as'" and as': "set as' = insert node (set as)"
    and v: "msg_view h = (msg_view (mq_heap ?q))(node \<mapsto> ?m)"
    and spec: "map (msg_at h) as' = enq_spec (mq_ordering ?q) ?m (map (msg_at (mq_heap ?q)) as)"
    using publish_shape [OF I(1) fresh sz refl, of t priority "sys_counter s" now_id now] pub by auto
  have node: "node \<notin> held (sys_pc s)" "node \<notin> set as" using fresh I(5) by auto
  have mn: "msg_at h node = ?m"
    using fun_cong [OF v, of node] by (auto simp: msg_view_def msg_at_def)
  have dv: "dom (msg_view g) = dom g" for g by (auto simp: msg_view_def)
  have "dom h = insert node (dom (mq_heap ?q))" using dv [of h] dv [of "mq_heap ?q"] v by simp
  moreover have "image_mset (msg_at h) (mset_set (holding (sys_pc s))) = in_flight s"
    unfolding in_flight_def using I(5) node(1) holding_subset [of "sys_pc s"] v
    by (intro in_flight_cong [OF I(2)] msg_at_cong) auto
  ultimately have "sys_inv (s\<lparr>sys_queue := q', sys_counter := counter',
       sys_published := sys_published s @ [msg_at (mq_heap q') node]\<rparr>) as'"
    using I s' as' node bal top mn arg_cong [OF spec, of mset]
    by (auto simp: sys_inv_def h in_flight_def)
  then show ?thesis by blast
qed

lemma consumer_loop_cases:
  assumes "mq_shape q as" and "consumer_loop q cn = Some (pc', q')"
  obtains "node_of pc' = None" "q' = q"
  | a bs hp tp where "as = a # bs" "pc' = C_Holding a"
      "q' = q\<lparr>mq_head := hp, mq_tail := tp, mq_size := mq_size q - 1\<rparr>" "mq_shape q' bs"
proof (cases "cn_active cn \<and> mq_size q \<noteq> 0")
  case False
  with assms(2) show ?thesis by (intro that(1)) (auto simp: consumer_loop_def split: if_splits)
next
  case True
  with assms(1) obtain a bs where as: "as = a # bs" by (cases as) (auto simp: mq_shape_def)
  from dequeue_message_shape [OF assms(1) [unfolded this]] obtain hp tp where
    "dequeue_message q = Some (Some a, q\<lparr>mq_head := hp, mq_tail := tp, mq_size := mq_size q - 1\<rparr>)"
    "mq_shape (q\<lparr>mq_head := hp, mq_tail := tp, mq_size := mq_size q - 1\<rparr>) bs"
    by blast
  with True assms(2) as show ?thesis
    by (intro that(2) [of a bs tp hp]) (auto simp: consumer_loop_def)
qed

lemma inv_loop:
  assumes inv: "sys_inv s as" and pc: "sys_pc s c = C_Loop"
    and loop: "consumer_loop (sys_queue s) cn = Some (pc', q')"
  shows "\<exists>as'. sys_inv (s\<lparr>sys_queue := q', sys_pc := (sys_pc s)(c := pc')\<rparr>) as'"
proof -
  let ?q = "sys_queue s" and ?pc = "(sys_pc s)(c := pc')"
  have idle: "node_of (sys_pc s c) = None" using pc by simp
  have shape: "mq_shape ?q as" using inv by (simp add: sys_inv_def)
  show ?thesis
  proof (rule consumer_loop_cases [OF shape loop])
    assume none: "node_of pc' = None" and q': "q' = ?q"
    from none have "pc' \<noteq> C_Holding a" for a by auto
    with none have "holding ?pc = holding (sys_pc s)" "held ?pc = held (sys_pc s)"
      by (simp_all add: pc_idle [of "sys_pc s" c, OF idle])
    moreover have "exclusive ?pc" using inv none by (intro exclusive_update) (auto simp: sys_inv_def)
    ultimately have "sys_inv (s\<lparr>sys_queue := q', sys_pc := ?pc\<rparr>) as"
      using inv q' by (simp add: sys_inv_def in_flight_def)
    then show ?thesis by blast
  next
    fix a bs hp tp
    assume as: "as = a # bs" and pc': "pc' = C_Holding a"
      and q': "q' = ?q\<lparr>mq_head := hp, mq_tail := tp, mq_size := mq_size ?q - 1\<rparr>" and s': "mq_shape q' bs"
    have ho: "holding ?pc = insert a (holding (sys_pc s))" "held ?pc = insert a (held (sys_pc s))"
      by (simp_all add: pc_idle [of "sys_pc s" c, OF idle] pc')
    have a: "a \<notin> held (sys_pc s)" "a \<notin> set bs"
      using inv as by (auto simp: sys_inv_def mq_shape_def)
    then have "a \<notin> holding (sys_pc s)" using holding_subset by blast
    moreover have "exclusive ?pc"
      using inv a by (intro exclusive_update) (auto simp: sys_inv_def pc')
    ultimately have "sys_inv (s\<lparr>sys_queue := q', sys_pc := ?pc\<rparr>) bs"
      using inv s' a unfolding sys_inv_def in_flight_def
      by (simp add: ho q' as)
    then show ?thesis by blast
  qed
qed

lemma in_flight_release:
  assumes "finite (holding pc)" and "a \<in> holding pc"
  shows "image_mset f (mset_set (holding pc)) = add_mset (f a) (image_mset f (mset_set (holding pc - {a})))"
  using assms by (simp add: mset_set.remove)

lemma holding_node:
  assumes "sys_inv s as" and "sys_pc s c = C_Holding a"
  shows "a \<in> holding (sys_pc s)" and "a \<in> held (sys_pc s)" and "node_of (sys_pc s c) = Some a"
    and "a \<notin> set as" and "\<exists>n. mq_heap (sys_queue s) a = Some n"
proof -
  show h: "a \<in> holding (sys_pc s)" "node_of (sys_pc s c) = Some a"
    using assms(2) by (auto simp: holding_def)
  show "a \<in> held (sys_pc s)" using h(1) holding_subset by blast
  with assms(1) show "a \<notin> set as" "\<exists>n. mq_heap (sys_queue s) a = Some n"
    by (auto simp: sys_inv_def)
qed

lemma inv_deliver:
  assumes inv: "sys_inv s as" and pc: "sys_pc s c = C_Holding a"
    and n: "mq_heap (sys_queue s) a = Some n" "msg_topic (qn_message n) = topic"
  shows "sys_inv (s\<lparr>sys_pc := (sys_pc s)(c := C_Handled a),
       sys_delivered := sys_delivered s @ [(topic, qn_message n)]\<rparr>) as"
proof -
  let ?pc = "(sys_pc s)(c := C_Handled a)"
  note node = holding_node [OF inv pc]
  have ex: "exclusive (sys_pc s)" "finite (holding (sys_pc s))" using inv by (simp_all add: sys_inv_def)
  have ho: "holding ?pc = holding (sys_pc s) - {a}" "held ?pc = held (sys_pc s)"
    using pc_release [OF ex(1) node(3), of "C_Handled a"] node(2) by auto
  have "exclusive ?pc" using ex(1) node(3) by (intro exclusive_update) auto
  moreover have "qn_message n = msg_at (mq_heap (sys_queue s)) a" using n by (simp add: msg_at_def)
  ultimately show ?thesis
    using inv ho n(2) in_flight_release [OF ex(2) node(1)]
    by (auto simp: sys_inv_def in_flight_def)
qed

lemma inv_requeue:
  assumes inv: "sys_inv s as" and pc: "sys_pc s c = C_Holding a"
    and enq: "enqueue_message (sys_queue s) a = Some q'"
  shows "\<exists>as'. sys_inv (s\<lparr>sys_queue := q', sys_pc := (sys_pc s)(c := C_Loop)\<rparr>) as'"
proof -
  let ?pc = "(sys_pc s)(c := C_Loop)" and ?q = "sys_queue s"
  note node = holding_node [OF inv pc]
  obtain n where n: "mq_heap ?q a = Some n" using node(5) by blast
  have I: "mq_shape ?q as" "finite (holding (sys_pc s))" "exclusive (sys_pc s)"
    "held (sys_pc s) \<inter> set as = {}" "dom (mq_heap ?q) = set as \<union> held (sys_pc s)"
    using inv by (simp_all add: sys_inv_def)
  obtain h as' where h: "mq_heap q' = h" and s': "mq_shape q' as'" and as': "set as' = insert a (set as)"
    and v: "msg_view h = msg_view (mq_heap ?q)"
    and spec: "map (msg_at h) as' = enq_spec (mq_ordering ?q) (qn_message n) (map (msg_at (mq_heap ?q)) as)"
    using enqueue_message_shape [OF I(1) n node(4)] enq by auto
  have ho: "holding ?pc = holding (sys_pc s) - {a}" "held ?pc = held (sys_pc s) - {a}"
    using pc_release [OF I(3) node(3), of C_Loop] by auto
  have "exclusive ?pc" using I(3) by (intro exclusive_update) auto
  moreover have "dom h = set as' \<union> held ?pc" using msg_view_dom [OF v] I(5) as' node(2) ho(2) by auto
  moreover have "image_mset (msg_at h) (mset_set (holding ?pc)) =
      image_mset (msg_at (mq_heap ?q)) (mset_set (holding ?pc))"
    using I(5) holding_subset [of "sys_pc s"] ho(1) I(2)
    by (intro in_flight_cong msg_at_view [OF v]) auto
  moreover have "qn_message n = msg_at (mq_heap ?q) a" using n by (simp add: msg_at_def)
  ultimately have "sys_inv (s\<lparr>sys_queue := q', sys_pc := ?pc\<rparr>) as'"
    using inv s' as' I(4) ho in_flight_release [OF I(2) node(1)] arg_cong [OF spec, of mset]
    by (auto simp: sys_inv_def in_flight_def h)
  then show ?thesis by blast
qed

lemma inv_dispatch:
  assumes inv: "sys_inv s as" and pc: "sys_pc s c = C_Holding node"
    and d: "consumer_dispatch (sys_queue s) cn node = Some (pc', q', handled)"
  shows "\<exists>as'. sys_inv (s\<lparr>sys_queue := q', sys_pc := (sys_pc s)(c := pc'),
       sys_delivered := sys_delivered s @ (case handled of None \<Rightarrow> [] | Some m \<Rightarrow> [(cn_topic cn, m)])\<rparr>) as'"
proof -
  obtain n where n: "mq_heap (sys_queue s) node = Some n" using holding_node(5) [OF inv pc] by blast
  show ?thesis
  proof (cases "msg_topic (qn_message n) = cn_topic cn")
    case True
    with d n have "q' = sys_queue s" "pc' = C_Handled node" "handled = Some (qn_message n)"
      by (auto simp: consumer_dispatch_def)
    with inv_deliver [OF inv pc n True] show ?thesis by auto
  next
    case False
    with d n have "enqueue_message (sys_queue s) node = Some q'" "pc' = C_Loop" "handled = None"
      by (auto simp: consumer_dispatch_def split: Option.bind_splits)
    with inv_requeue [OF inv pc] show ?thesis by auto
  qed
qed

lemma handled_node:
  assumes "sys_inv s as" and "sys_pc s c = C_Handled a"
  shows "a \<notin> holding (sys_pc s)" and "a \<in> held (sys_pc s)" and "node_of (sys_pc s c) = Some a"
    and "a \<notin> set as" and "\<exists>n. mq_heap (sys_queue s) a = Some n"
proof -
  show node: "node_of (sys_pc s c) = Some a" using assms(2) by simp
  then show h: "a \<in> held (sys_pc s)" unfolding held_def by blast
  show "a \<notin> holding (sys_pc s)"
  proof
    assume "a \<in> holding (sys_pc s)"
    then obtain c' where c': "sys_pc s c' = C_Holding a" by (auto simp: holding_def)
    then have "node_of (sys_pc s c') = Some a" by simp
    with node assms(1) have "c' = c" unfolding sys_inv_def exclusive_def by blast
    with c' assms(2) show False by simp
  qed
  show "a \<notin> set as" "\<exists>n. mq_heap (sys_queue s) a = Some n" using assms(1) h by (auto simp: sys_inv_def)
qed

lemma inv_finish:
  assumes inv: "sys_inv s as" and pc: "sys_pc s c = C_Handled node"
    and f: "consumer_finish (sys_queue s) node = Some (pc', q')"
  shows "\<exists>as'. sys_inv (s\<lparr>sys_queue := q', sys_pc := (sys_pc s)(c := pc')\<rparr>) as'"
proof -
  let ?pc = "(sys_pc s)(c := C_Loop)" and ?q = "sys_queue s"
  let ?h = "(mq_heap ?q)(node := None)"
  note nd = handled_node [OF inv pc]
  have I: "mq_shape ?q as" "finite (holding (sys_pc s))" "exclusive (sys_pc s)"
    using inv by (simp_all add: sys_inv_def)
  have q': "q' = ?q\<lparr>mq_total_consumed := mq_total_consumed ?q + 1, mq_heap := ?h\<rparr>" "pc' = C_Loop"
    using f nd(5) by (auto simp: consumer_finish_def)
  have s': "mq_shape q' as"
    using mq_shape_free [of "?q\<lparr>mq_total_consumed := mq_total_consumed ?q + 1\<rparr>" as node] I(1) nd(4)
    by (simp add: q' mq_shape_frame)
  have ho: "holding ?pc = holding (sys_pc s)" "held ?pc = held (sys_pc s) - {node}"
    using pc_release [OF I(3) nd(3), of C_Loop] nd(1) by auto
  have "exclusive ?pc" using I(3) by (intro exclusive_update) auto
  moreover have eq: "msg_at ?h a = msg_at (mq_heap ?q) a" if "a \<noteq> node" for a using that by (simp add: msg_at_def)
  have "image_mset (msg_at ?h) (mset_set (holding (sys_pc s))) = in_flight s"
    unfolding in_flight_def using nd(1) by (intro in_flight_cong [OF I(2)] eq) auto
  moreover have "image_mset (msg_at ?h) (mset as) = image_mset (msg_at (mq_heap ?q)) (mset as)"
    using nd(4) by (intro image_mset_cong eq) auto
  ultimately have "sys_inv (s\<lparr>sys_queue := q', sys_pc := ?pc\<rparr>) as"
    using inv s' ho nd(4) by (auto simp: sys_inv_def in_flight_def q'(1))
  then show ?thesis using q'(2) by blast
qed

lemma inv_queue_frame:
  assumes "sys_inv s as" and "mq_shape q' as" and "mq_heap q' = mq_heap (sys_queue s)"
  shows "sys_inv (s\<lparr>sys_queue := q'\<rparr>) as"
  using assms by (simp add: sys_inv_def in_flight_def)

lemma inv_wake:
  assumes "sys_inv s as" and "sys_pc s c = C_Ended"
  shows "sys_inv (s\<lparr>sys_pc := (sys_pc s)(c := C_Loop)\<rparr>) as"
proof -
  have idle: "node_of (sys_pc s c) = None" using assms(2) by simp
  have "holding ((sys_pc s)(c := C_Loop)) = holding (sys_pc s)" "held ((sys_pc s)(c := C_Loop)) = held (sys_pc s)"
    by (simp_all add: pc_idle [of "sys_pc s" c, OF idle])
  moreover have "exclusive ((sys_pc s)(c := C_Loop))"
    using assms(1) by (intro exclusive_update) (auto simp: sys_inv_def)
  ultimately show ?thesis using assms(1) by (simp add: sys_inv_def in_flight_def)
qed

interpretation mq_release: list_release qn_next mqueue_clear_loop
  by unfold_locales (subst mqueue_clear_loop.simps, simp split: option.split)

lemma inv_clear:
  assumes inv: "sys_inv s as" and cl: "mqueue_clear (Some (sys_queue s)) = Some (Some q')"
  shows "sys_inv (s\<lparr>sys_queue := q', sys_discarded := sys_discarded s @ map (msg_at (mq_heap (sys_queue s))) as\<rparr>) []"
proof -
  let ?q = "sys_queue s"
  let ?h = "\<lambda>a. if a \<in> set as then None else mq_heap ?q a"
  have I: "mq_shape ?q as" "finite (holding (sys_pc s))" "held (sys_pc s) \<inter> set as = {}"
    "dom (mq_heap ?q) = set as \<union> held (sys_pc s)"
    using inv by (simp_all add: sys_inv_def)
  have "mqueue_clear_loop (mq_head ?q) (mq_heap ?q) = Some ?h"
    using I(1) by (intro mq_release.free_loop_chain) (auto simp: mq_shape_def)
  with cl have q': "q' = ?q\<lparr>mq_heap := ?h, mq_head := None, mq_tail := None, mq_size := 0\<rparr>"
    by (simp add: mqueue_clear_def)
  have "image_mset (msg_at ?h) (mset_set (holding (sys_pc s))) = in_flight s"
    unfolding in_flight_def using I(2,3) holding_subset [of "sys_pc s"]
    by (intro in_flight_cong) (auto simp: msg_at_def)
  moreover have "dom ?h = dom (mq_heap ?q) - set as" by (auto split: if_splits)
  then have "dom ?h = held (sys_pc s)" using I(3,4) by blast
  ultimately show ?thesis
    using inv by (auto simp: sys_inv_def q' in_flight_def mq_shape_def)
qed

section \<open>Reachable states\<close>

lemma inv_step: "mq_step s s' \<Longrightarrow> \<exists>as. sys_inv s as \<Longrightarrow> \<exists>as. sys_inv s' as"
proof (induction rule: mq_step.induct)
  case (publish s t p payload_size priority now_id now node q' counter')
  then show ?case using inv_publish by blast
next
  case (loop s c cn pc' q')
  then show ?case using inv_loop by blast
next
  case (dispatch s c cn node pc' q' handled)
  then show ?case using inv_dispatch by blast
next
  case (finish s c node pc' q')
  then show ?case using inv_finish by blast
next
  case (subscribe s t c q')
  then obtain as where inv: "sys_inv s as" by blast
  have q': "q' = (sys_queue s)\<lparr>mq_consumers := (c, \<lparr>cn_topic = t, cn_active = True\<rparr>) # mq_consumers (sys_queue s),
      mq_consumer_count := mq_consumer_count (sys_queue s) + 1\<rparr>"
    using subscribe by (simp add: mqueue_subscribe_def)
  have "mq_shape (sys_queue s) as" using inv by (simp add: sys_inv_def)
  then have "sys_inv (s\<lparr>sys_queue := q'\<rparr>) as"
    by (intro inv_queue_frame [OF inv]) (simp_all add: q' mq_shape_frame)
  then have "sys_inv (s\<lparr>sys_queue := q'\<rparr>\<lparr>sys_pc := (sys_pc (s\<lparr>sys_queue := q'\<rparr>))(c := C_Loop)\<rparr>) as"
    using subscribe by (intro inv_wake) simp_all
  then show ?case by auto
next
  case (unsubscribe_request s c)
  then obtain as where inv: "sys_inv s as" by blast
  then have "mq_shape (sys_queue s) as" by (simp add: sys_inv_def)
  with inv_queue_frame [OF inv, of "unsubscribe_request (sys_queue s) c"] show ?case
    by (auto simp: unsubscribe_request_def mq_shape_frame)
next
  case (unsubscribe_remove s c)
  then obtain as where inv: "sys_inv s as" by blast
  then have "mq_shape (sys_queue s) as" by (simp add: sys_inv_def)
  with inv_queue_frame [OF inv, of "unsubscribe_remove (sys_queue s) c"] show ?case
    by (auto simp: unsubscribe_remove_def mq_shape_frame split: option.splits)
next
  case (clear s q' as)
  then obtain as' where inv: "sys_inv s as'" by blast
  then have "as' = as" using clear chain_unique by (auto simp: sys_inv_def mq_shape_def)
  with inv_clear [OF inv] clear show ?case by blast
qed

lemma inv_init: "sys_inv (sys_init name mode) []"
  by (auto simp: sys_inv_def sys_init_def mqueue_create_def mq_shape_def holding_def held_def exclusive_def in_flight_def)

interpretation mq_sys: invariant_system
  "\<lambda>s. \<exists>name mode. s = sys_init name mode" mq_step "\<lambda>s. \<exists>as. sys_inv s as"
  by unfold_locales (use inv_init inv_step in blast)+

lemma inv_reachable:
  assumes "mq_step\<^sup>*\<^sup>* (sys_init name mode) s"
  shows "\<exists>as. sys_inv s as"
  by (rule mq_sys.invar_reachable [OF _ assms]) blast

text \<open>
  C3: No message is lost, duplicated or misdirected, whatever the interleaving of publishers,
  consumers and administration: in every reachable state the published messages are exactly
  (as a multiset) those waiting in the queue, those a consumer thread is holding, those that
  were given to a handler and those discarded by clear; and every delivered message has the
  topic of the consumer it was delivered to.
\<close>

theorem mqueue_conservation:
  assumes "mq_step\<^sup>*\<^sup>* (sys_init name mode) s"
  shows "\<exists>as. mq_shape (sys_queue s) as
     \<and> mset (sys_published s) = mset (map (msg_at (mq_heap (sys_queue s))) as) + in_flight s
         + mset (map snd (sys_delivered s)) + mset (sys_discarded s)
     \<and> list_all (\<lambda>(topic, m). msg_topic m = topic) (sys_delivered s)"
proof -
  obtain as where "sys_inv s as" using inv_reachable [OF assms] by blast
  then show ?thesis by (intro exI [of _ as]) (auto simp: sys_inv_def list_all_iff)
qed

definition trace_msg :: message_t where
  "trace_msg = new_message ''t'' [1] 1 0 0 5 6 3"

definition trace_q1 :: mqueue_t where
  "trace_q1 = (mqueue_create ''q'' ORDERING_FIFO)\<lparr>
     mq_heap := [1 \<mapsto> \<lparr>qn_message = trace_msg, qn_next = None\<rparr>],
     mq_head := Some 1, mq_tail := Some 1, mq_size := 1, mq_total_published := 1\<rparr>"

definition trace_q2 :: mqueue_t where
  "trace_q2 = trace_q1\<lparr>mq_consumers := [(7, \<lparr>cn_topic = ''t'', cn_active = True\<rparr>)], mq_consumer_count := 1\<rparr>"

definition trace_q3 :: mqueue_t where
  "trace_q3 = trace_q2\<lparr>mq_head := None, mq_tail := None, mq_size := 0\<rparr>"

definition trace_end :: mq_sys where
  "trace_end = \<lparr>sys_queue = trace_q3, sys_pc = (\<lambda>_. C_Ended)(7 := C_Handled 1), sys_counter = 1,
     sys_published = [trace_msg], sys_delivered = [(''t'', trace_msg)], sys_discarded = []\<rparr>"

lemma trace_reachable: "mq_step\<^sup>*\<^sup>* (sys_init ''q'' ORDERING_FIFO) trace_end"
proof -
  let ?s0 = "sys_init ''q'' ORDERING_FIFO"
  let ?s1 = "?s0\<lparr>sys_queue := trace_q1, sys_counter := 1, sys_published := sys_published ?s0 @ [msg_at (mq_heap trace_q1) 1]\<rparr>"
  let ?s2 = "?s1\<lparr>sys_queue := trace_q2, sys_pc := (sys_pc ?s1)(7 := C_Loop)\<rparr>"
  let ?s3 = "?s2\<lparr>sys_queue := trace_q3, sys_pc := (sys_pc ?s2)(7 := C_Holding 1)\<rparr>"
  let ?s4 = "?s3\<lparr>sys_queue := trace_q3, sys_pc := (sys_pc ?s3)(7 := C_Handled 1),
    sys_delivered := sys_delivered ?s3 @ (case Some trace_msg of None \<Rightarrow> [] | Some m \<Rightarrow> [(cn_topic \<lparr>cn_topic = ''t'', cn_active = True\<rparr>, m)])\<rparr>"
  have s1: "mq_step ?s0 ?s1"
    by (rule mq_step.publish [where t = "''t''" and p = "[1]" and payload_size = 1 and priority = 0
          and now_id = 5 and now = 6])
      (simp_all add: sys_init_def mqueue_create_def trace_q1_def trace_msg_def new_message_def
        mqueue_publish_with_priority_def message_create_def generate_message_id_def enqueue_message_def)
  have s2: "mq_step ?s1 ?s2"
    by (rule mq_step.subscribe [where t = "''t''"])
      (simp_all add: mqueue_subscribe_def trace_q2_def trace_q1_def mqueue_create_def sys_init_def)
  have s3: "mq_step ?s2 ?s3"
    by (rule mq_step.loop [where cn = "\<lparr>cn_topic = ''t'', cn_active = True\<rparr>"])
      (simp_all add: consumer_loop_def dequeue_message_def trace_q3_def trace_q2_def trace_q1_def mqueue_create_def)
  have s4: "mq_step ?s3 ?s4"
    by (rule mq_step.dispatch [where node = 1])
      (simp_all add: consumer_dispatch_def trace_q3_def trace_q2_def trace_q1_def trace_msg_def new_message_def)
  from s1 have "mq_step\<^sup>*\<^sup>* ?s0 ?s1" by (rule r_into_rtranclp)
  from this s2 have "mq_step\<^sup>*\<^sup>* ?s0 ?s2" by (rule rtranclp.rtrancl_into_rtrancl)
  from this s3 have "mq_step\<^sup>*\<^sup>* ?s0 ?s3" by (rule rtranclp.rtrancl_into_rtrancl)
  from this s4 have "mq_step\<^sup>*\<^sup>* ?s0 ?s4" by (rule rtranclp.rtrancl_into_rtrancl)
  moreover have "?s4 = trace_end"
    by (simp add: trace_end_def sys_init_def msg_at_def trace_q1_def)
  ultimately show ?thesis by simp
qed

theorem mqueue_conservation_witness:
  "sys_delivered trace_end = [(''t'', trace_msg)]
   \<and> (\<exists>as. mq_shape (sys_queue trace_end) as
     \<and> mset (sys_published trace_end) = mset (map (msg_at (mq_heap (sys_queue trace_end))) as) + in_flight trace_end
         + mset (map snd (sys_delivered trace_end)) + mset (sys_discarded trace_end)
     \<and> list_all (\<lambda>(topic, m). msg_topic m = topic) (sys_delivered trace_end))"
  using mqueue_conservation [OF trace_reachable] by (simp add: trace_end_def)

lemma loop_defined: "sys_inv s as \<Longrightarrow> consumer_loop (sys_queue s) cn \<noteq> None"
proof (cases as)
  case Nil
  moreover assume "sys_inv s as"
  ultimately show ?thesis by (auto simp: consumer_loop_def mq_shape_def sys_inv_def)
next
  case (Cons a bs)
  moreover assume "sys_inv s as"
  ultimately show ?thesis
    using dequeue_message_shape [of "sys_queue s" a bs] by (auto simp: consumer_loop_def sys_inv_def)
qed

lemma dispatch_defined:
  assumes "sys_inv s as" and "sys_pc s c = C_Holding node"
  shows "consumer_dispatch (sys_queue s) cn node \<noteq> None"
  using holding_node [OF assms] enqueue_message_shape [of "sys_queue s" as node] assms(1)
  by (auto simp: consumer_dispatch_def sys_inv_def)

lemma finish_defined:
  "sys_inv s as \<Longrightarrow> sys_pc s c = C_Handled node \<Longrightarrow> consumer_finish (sys_queue s) node \<noteq> None"
  using handled_node [of s as c node] by (auto simp: consumer_finish_def)

lemma publish_defined:
  assumes "sys_inv s as" and "unat payload_size \<le> length p" and "mq_heap (sys_queue s) node = None"
  shows "mqueue_publish_with_priority (Some (sys_queue s)) (Some t) (Some p) payload_size priority (sys_counter s)
    now_id now node \<noteq> None"
proof (cases "payload_size = 0")
  case True
  then show ?thesis by (simp add: mqueue_publish_with_priority_def)
next
  case False
  have "mq_shape (sys_queue s) as" using assms(1) by (simp add: sys_inv_def)
  from publish_shape [OF this assms(3) _ assms(2) refl, of t priority "sys_counter s" now_id now] False
  show ?thesis by (auto simp: word_gt_0)
qed

text \<open>
  C21: No consumer thread ever touches a freed or dangling node: in every reachable state the
  next step of every subscribed consumer is defined, wherever the thread is, and so are clearing
  the queue and publishing a payload of at most the size of its buffer in a newly allocated node.
\<close>

theorem mqueue_no_dangling:
  assumes "mq_step\<^sup>*\<^sup>* (sys_init name mode) s"
  shows "(sys_pc s c = C_Loop \<longrightarrow> consumer_loop (sys_queue s) cn \<noteq> None)
     \<and> (sys_pc s c = C_Holding node \<longrightarrow> consumer_dispatch (sys_queue s) cn node \<noteq> None)
     \<and> (sys_pc s c = C_Handled node \<longrightarrow> consumer_finish (sys_queue s) node \<noteq> None)
     \<and> mqueue_clear (Some (sys_queue s)) \<noteq> None
     \<and> (unat payload_size \<le> length p \<and> mq_heap (sys_queue s) new = None \<longrightarrow>
          mqueue_publish_with_priority (Some (sys_queue s)) (Some t) (Some p) payload_size priority (sys_counter s)
            now_id now new \<noteq> None)"
proof -
  obtain as where inv: "sys_inv s as" using inv_reachable [OF assms] by blast
  have "mqueue_clear (Some (sys_queue s)) \<noteq> None"
    using inv mq_release.free_loop_chain [of "mq_heap (sys_queue s)" "mq_head (sys_queue s)" as]
    by (auto simp: mqueue_clear_def mq_shape_def sys_inv_def)
  with loop_defined [OF inv] dispatch_defined [OF inv] finish_defined [OF inv] publish_defined [OF inv]
  show ?thesis by blast
qed

theorem mqueue_no_dangling_witness:
  "consumer_finish (sys_queue trace_end) 1 \<noteq> None \<and> mqueue_clear (Some (sys_queue trace_end)) \<noteq> None
   \<and> mqueue_publish_with_priority (Some (sys_queue trace_end)) (Some ''t'') (Some [1]) 1 0 (sys_counter trace_end) 5 6 9 \<noteq> None"
  using mqueue_no_dangling [OF trace_reachable, of 7 _ 1 1 "[1]" 9 "''t''" 0 5 6]
  by (simp add: trace_end_def trace_q3_def trace_q2_def trace_q1_def mqueue_create_def)

end
