(* ===== verification/Mqueue_Liveness.thy ===== *)
theory Mqueue_Liveness
  imports Mqueue_System
begin

text \<open>
  Progress of the consumer threads of \<^verbatim>\<open>src/mqueue/mqueue.c\<close>. A consumer that runs alone is a
  deterministic program: \<open>thread_step\<close> is its next critical section, \<open>thread_run\<close> a number of
  them. In a queue without priorities a pass over the queue delivers every message of its
  topic; in a priority queue a message of another topic at the head blocks it for ever; and
  putting back a message of another topic lets later messages overtake it.
\<close>

section \<open>One thread running\<close>

definition thread_step :: "addr \<Rightarrow> mq_sys \<Rightarrow> mq_sys option" where
  "thread_step c s =
     (case map_of (mq_consumers (sys_queue s)) c of
        None \<Rightarrow> None
      | Some cn \<Rightarrow>
          (case sys_pc s c of
             C_Loop \<Rightarrow> do {
               (pc', q') \<leftarrow> consumer_loop (sys_queue s) cn;
               Some (s\<lparr>sys_queue := q', sys_pc := (sys_pc s)(c := pc')\<rparr>) }
           | C_Holding node \<Rightarrow> do {
               (pc', q', handled) \<leftarrow> consumer_dispatch (sys_queue s) cn node;
               Some (s\<lparr>sys_queue := q', sys_pc := (sys_pc s)(c := pc'),
                 sys_delivered := sys_delivered s @ (case handled of None \<Rightarrow> [] | Some m \<Rightarrow> [(cn_topic cn, m)])\<rparr>) }
           | C_Handled node \<Rightarrow> do {
               (pc', q') \<leftarrow> consumer_finish (sys_queue s) node;
               Some (s\<lparr>sys_queue := q', sys_pc := (sys_pc s)(c := pc')\<rparr>) }
           | C_Ended \<Rightarrow> None))"

primrec thread_run :: "addr \<Rightarrow> nat \<Rightarrow> mq_sys \<Rightarrow> mq_sys option" where
  "thread_run c 0 s = Some s"
| "thread_run c (Suc n) s = do { s \<leftarrow> thread_step c s; thread_run c n s }"

lemma thread_run_add: "thread_run c (m + n) s = do { s \<leftarrow> thread_run c m s; thread_run c n s }"
  by (induction m arbitrary: s) (auto split: Option.bind_splits)

lemma thread_step_sound: "thread_step c s = Some s' \<Longrightarrow> mq_step s s'"
  by (auto simp: thread_step_def split: option.splits consumer_pc.splits Option.bind_splits
      intro: mq_step.loop mq_step.finish dest: mq_step.dispatch)

lemma thread_run_sound: "thread_run c n s = Some s' \<Longrightarrow> mq_step\<^sup>*\<^sup>* s s'"
proof (induction n arbitrary: s)
  case (Suc n)
  then obtain s1 where "thread_step c s = Some s1" "thread_run c n s1 = Some s'"
    by (auto split: Option.bind_splits)
  then have "mq_step s s1" "mq_step\<^sup>*\<^sup>* s1 s'" using Suc.IH thread_step_sound by blast+
  then show ?case by (rule converse_rtranclp_into_rtranclp)
qed simp

lemma thread_step_heap: "thread_step c s = Some s' \<Longrightarrow> sys_pc s c = C_Loop \<Longrightarrow> mq_heap (sys_queue s') = mq_heap (sys_queue s)"
  by (auto simp: thread_step_def consumer_loop_def dequeue_message_def split: option.splits Option.bind_splits if_splits)

section \<open>The queue as a list of messages\<close>

definition mq_holds :: "mq_sys \<Rightarrow> message_t list \<Rightarrow> bool" where
  "mq_holds s l \<longleftrightarrow> (\<exists>as. sys_inv s as \<and> l = map (msg_at (mq_heap (sys_queue s))) as)"

lemma mq_holds_intro:
  assumes "\<exists>as. sys_inv s' as" and "mq_shape (sys_queue s') as'" and "map (msg_at (mq_heap (sys_queue s'))) as' = l"
  shows "mq_holds s' l"
proof -
  obtain as where as: "sys_inv s' as" using assms(1) by blast
  then have "as = as'" using assms(2) chain_unique by (auto simp: sys_inv_def mq_shape_def)
  with as assms(3) show ?thesis by (auto simp: mq_holds_def)
qed

lemma mq_holds_reachable:
  assumes "mq_step\<^sup>*\<^sup>* (sys_init name mode) s"
  shows "\<exists>l. mq_holds s l"
  using inv_reachable [OF assms] by (auto simp: mq_holds_def)

text \<open>What the steps of a consumer leave alone.\<close>

definition mq_frame :: "mq_sys \<Rightarrow> mq_sys \<Rightarrow> bool" where
  "mq_frame s s' \<longleftrightarrow>
     mq_consumers (sys_queue s') = mq_consumers (sys_queue s) \<and> mq_ordering (sys_queue s') = mq_ordering (sys_queue s)
   \<and> mq_max_retries (sys_queue s') = mq_max_retries (sys_queue s)
   \<and> sys_published s' = sys_published s \<and> sys_counter s' = sys_counter s"

lemma mq_frame_refl [simp]: "mq_frame s s"
  by (simp add: mq_frame_def)

lemma mq_frame_trans [trans]: "mq_frame s s' \<Longrightarrow> mq_frame s' s'' \<Longrightarrow> mq_frame s s''"
  by (simp add: mq_frame_def)

lemma step_take:
  assumes "mq_holds s (m # l)" and "length (m # l) < 2 ^ 64"
    and "map_of (mq_consumers (sys_queue s)) c = Some cn" and "cn_active cn" and "sys_pc s c = C_Loop"
  shows "\<exists>a s'. thread_step c s = Some s' \<and> sys_pc s' c = C_Holding a \<and> msg_at (mq_heap (sys_queue s')) a = m
     \<and> mq_holds s' l \<and> mq_frame s s' \<and> sys_delivered s' = sys_delivered s"
proof -
  obtain a as where inv: "sys_inv s (a # as)" and m: "m = msg_at (mq_heap (sys_queue s)) a"
    and l: "l = map (msg_at (mq_heap (sys_queue s))) as"
    using assms(1) by (auto simp: mq_holds_def)
  let ?q = "sys_queue s"
  have shape: "mq_shape ?q (a # as)" using inv by (simp add: sys_inv_def)
  then have "mq_size ?q \<noteq> 0" using assms(2) unat_of_nat_u64 [of "length (m # l)"] l by (auto simp: mq_shape_def)
  moreover obtain hp tp where d: "dequeue_message ?q = Some (Some a, ?q\<lparr>mq_head := hp, mq_tail := tp, mq_size := mq_size ?q - 1\<rparr>)"
    and s': "mq_shape (?q\<lparr>mq_head := hp, mq_tail := tp, mq_size := mq_size ?q - 1\<rparr>) as"
    using dequeue_message_shape [OF shape] by blast
  ultimately have step: "thread_step c s = Some (s\<lparr>sys_queue := ?q\<lparr>mq_head := hp, mq_tail := tp, mq_size := mq_size ?q - 1\<rparr>,
      sys_pc := (sys_pc s)(c := C_Holding a)\<rparr>)" (is "_ = Some ?s")
    using assms(3-5) by (simp add: thread_step_def consumer_loop_def)
  have "mq_holds ?s l"
    using inv_step [OF thread_step_sound [OF step]] inv s' by (intro mq_holds_intro) (auto simp: l)
  with step show ?thesis by (auto simp: mq_frame_def m)
qed

lemma step_put_back:
  assumes "mq_holds s l" and "map_of (mq_consumers (sys_queue s)) c = Some cn" and "sys_pc s c = C_Holding a"
    and "msg_at (mq_heap (sys_queue s)) a = m" and "msg_topic m \<noteq> cn_topic cn"
  shows "\<exists>s'. thread_step c s = Some s' \<and> sys_pc s' c = C_Loop
     \<and> mq_holds s' (enq_spec (mq_ordering (sys_queue s)) m l) \<and> mq_frame s s' \<and> sys_delivered s' = sys_delivered s"
proof -
  obtain as where inv: "sys_inv s as" and l: "l = map (msg_at (mq_heap (sys_queue s))) as"
    using assms(1) by (auto simp: mq_holds_def)
  let ?q = "sys_queue s"
  have shape: "mq_shape ?q as" using inv by (simp add: sys_inv_def)
  note node = holding_node [OF inv assms(3)]
  obtain n where n: "mq_heap ?q a = Some n" using node(5) by blast
  then have m: "qn_message n = m" using assms(4) by (simp add: msg_at_def)
  obtain h hp tp as' q' where q': "q' = ?q\<lparr>mq_heap := h, mq_head := hp, mq_tail := tp, mq_size := mq_size ?q + 1\<rparr>"
    and e: "enqueue_message ?q a = Some q'" "mq_shape q' as'"
    and spec: "map (msg_at h) as' = enq_spec (mq_ordering ?q) m l"
    using enqueue_message_shape [OF shape n node(4)] m l by auto
  have step: "thread_step c s = Some (s\<lparr>sys_queue := q', sys_pc := (sys_pc s)(c := C_Loop)\<rparr>)" (is "_ = Some ?s")
    using assms(2,3,5) n m e(1) by (simp add: thread_step_def consumer_dispatch_def)
  have "mq_holds ?s (enq_spec (mq_ordering ?q) m l)"
    using inv_step [OF thread_step_sound [OF step]] inv e(2) spec by (intro mq_holds_intro) (auto simp: q')
  with step show ?thesis by (auto simp: mq_frame_def q')
qed

lemma step_deliver:
  assumes "mq_holds s l" and "map_of (mq_consumers (sys_queue s)) c = Some cn" and "sys_pc s c = C_Holding a"
    and "msg_at (mq_heap (sys_queue s)) a = m" and "msg_topic m = cn_topic cn"
  shows "\<exists>s'. thread_step c s = Some s' \<and> sys_pc s' c = C_Handled a
     \<and> mq_holds s' l \<and> mq_frame s s' \<and> sys_delivered s' = sys_delivered s @ [(cn_topic cn, m)]"
proof -
  obtain as where inv: "sys_inv s as" and l: "l = map (msg_at (mq_heap (sys_queue s))) as"
    using assms(1) by (auto simp: mq_holds_def)
  obtain n where n: "mq_heap (sys_queue s) a = Some n" using holding_node(5) [OF inv assms(3)] by blast
  then have m: "qn_message n = m" using assms(4) by (simp add: msg_at_def)
  have step: "thread_step c s = Some (s\<lparr>sys_pc := (sys_pc s)(c := C_Handled a),
      sys_delivered := sys_delivered s @ [(cn_topic cn, m)]\<rparr>)" (is "_ = Some ?s")
    using assms(2,3,5) n m by (simp add: thread_step_def consumer_dispatch_def)
  have "mq_holds ?s l"
    using inv_step [OF thread_step_sound [OF step]] inv by (intro mq_holds_intro) (auto simp: l sys_inv_def)
  with step show ?thesis by (auto simp: mq_frame_def)
qed

lemma step_finish:
  assumes "mq_holds s l" and "map_of (mq_consumers (sys_queue s)) c = Some cn" and "sys_pc s c = C_Handled a"
  shows "\<exists>s'. thread_step c s = Some s' \<and> sys_pc s' c = C_Loop
     \<and> mq_holds s' l \<and> mq_frame s s' \<and> sys_delivered s' = sys_delivered s"
proof -
  obtain as where inv: "sys_inv s as" and l: "l = map (msg_at (mq_heap (sys_queue s))) as"
    using assms(1) by (auto simp: mq_holds_def)
  let ?q = "sys_queue s"
  let ?q' = "?q\<lparr>mq_total_consumed := mq_total_consumed ?q + 1, mq_heap := (mq_heap ?q)(a := None)\<rparr>"
  note node = handled_node [OF inv assms(3)]
  have step: "thread_step c s = Some (s\<lparr>sys_queue := ?q', sys_pc := (sys_pc s)(c := C_Loop)\<rparr>)" (is "_ = Some ?s")
    using assms(2,3) node(5) by (auto simp: thread_step_def consumer_finish_def)
  have "mq_shape ?q' as"
    using mq_shape_free [of "?q\<lparr>mq_total_consumed := mq_total_consumed ?q + 1\<rparr>" as a] inv node(4)
    by (simp add: mq_shape_frame sys_inv_def)
  moreover have "map (msg_at (mq_heap ?q')) as = l" using node(4) by (auto simp: l msg_at_def)
  ultimately have "mq_holds ?s l"
    using inv_step [OF thread_step_sound [OF step]] inv by (intro mq_holds_intro) auto
  with step show ?thesis by (auto simp: mq_frame_def)
qed

text \<open>One turn of the loop: the head is delivered and freed, or queued again.\<close>

lemma thread_turn:
  assumes "mq_holds s (m # l)" and "length (m # l) < 2 ^ 64"
    and cn: "map_of (mq_consumers (sys_queue s)) c = Some cn" and "cn_active cn" and "sys_pc s c = C_Loop"
  shows "\<exists>n s'. n \<le> 3 \<and> thread_run c n s = Some s' \<and> sys_pc s' c = C_Loop \<and> mq_frame s s'
     \<and> (if msg_topic m = cn_topic cn
        then mq_holds s' l \<and> sys_delivered s' = sys_delivered s @ [(cn_topic cn, m)]
        else mq_holds s' (enq_spec (mq_ordering (sys_queue s)) m l) \<and> sys_delivered s' = sys_delivered s)"
proof -
  obtain a s1 where s1: "thread_step c s = Some s1" "sys_pc s1 c = C_Holding a"
    "msg_at (mq_heap (sys_queue s1)) a = m" "mq_holds s1 l" "mq_frame s s1" "sys_delivered s1 = sys_delivered s"
    using step_take [OF assms] by blast
  have cn1: "map_of (mq_consumers (sys_queue s1)) c = Some cn" using cn s1(5) by (simp add: mq_frame_def)
  show ?thesis
  proof (cases "msg_topic m = cn_topic cn")
    case True
    from step_deliver [OF s1(4) cn1 s1(2,3) True] obtain s2 where s2: "thread_step c s1 = Some s2"
      "sys_pc s2 c = C_Handled a" "mq_holds s2 l" "mq_frame s1 s2"
      "sys_delivered s2 = sys_delivered s1 @ [(cn_topic cn, m)]" by blast
    then have "map_of (mq_consumers (sys_queue s2)) c = Some cn" using cn1 by (simp add: mq_frame_def)
    from step_finish [OF s2(3) this s2(2)] obtain s3 where s3: "thread_step c s2 = Some s3" "sys_pc s3 c = C_Loop"
      "mq_holds s3 l" "mq_frame s2 s3" "sys_delivered s3 = sys_delivered s2" by blast
    have "thread_run c 3 s = Some s3" using s1(1) s2(1) s3(1) by (simp add: numeral_3_eq_3)
    with True s1(5,6) s2(4,5) s3 mq_frame_trans show ?thesis by (intro exI [of _ 3] exI [of _ s3]) auto
  next
    case False
    from step_put_back [OF s1(4) cn1 s1(2,3) False] obtain s2 where s2: "thread_step c s1 = Some s2"
      "sys_pc s2 c = C_Loop" "mq_holds s2 (enq_spec (mq_ordering (sys_queue s1)) m l)" "mq_frame s1 s2"
      "sys_delivered s2 = sys_delivered s1" by blast
    have "thread_run c 2 s = Some s2" using s1(1) s2(1) by (simp add: numeral_2_eq_2)
    with False s1(5,6) s2 mq_frame_trans show ?thesis
      by (intro exI [of _ 2] exI [of _ s2]) (auto simp: mq_frame_def)
  qed
qed

section \<open>Delivery\<close>

lemma thread_pass:
  assumes "mq_holds s (xs @ ys)" and "length (xs @ ys) < 2 ^ 64"
    and "map_of (mq_consumers (sys_queue s)) c = Some cn" and "cn_active cn" and "sys_pc s c = C_Loop"
    and "mq_ordering (sys_queue s) \<noteq> ORDERING_PRIORITY"
  shows "\<exists>n s'. n \<le> 3 * length xs \<and> thread_run c n s = Some s'
     \<and> mq_holds s' (ys @ filter (\<lambda>m. msg_topic m \<noteq> cn_topic cn) xs)
     \<and> sys_delivered s' = sys_delivered s @ map (Pair (cn_topic cn)) (filter (\<lambda>m. msg_topic m = cn_topic cn) xs)"
  using assms
proof (induction xs arbitrary: s ys)
  case Nil
  then show ?case by (intro exI [of _ 0] exI [of _ s]) simp
next
  case (Cons m xs)
  let ?t = "cn_topic cn"
  let ?ys = "if msg_topic m = ?t then ys else ys @ [m]"
  obtain n1 s1 where n1: "n1 \<le> 3" "thread_run c n1 s = Some s1" "sys_pc s1 c = C_Loop" "mq_frame s s1"
    and out: "if msg_topic m = ?t
        then mq_holds s1 (xs @ ys) \<and> sys_delivered s1 = sys_delivered s @ [(?t, m)]
        else mq_holds s1 (enq_spec (mq_ordering (sys_queue s)) m (xs @ ys)) \<and> sys_delivered s1 = sys_delivered s"
    using thread_turn [of s m "xs @ ys" c cn] Cons.prems by auto
  have "mq_holds s1 (xs @ ?ys)" using out Cons.prems(6) by (auto simp: enq_spec_def split: if_splits)
  moreover have "length (xs @ ?ys) < 2 ^ 64" using Cons.prems(2) by auto
  ultimately obtain n2 s2 where n2: "n2 \<le> 3 * length xs" "thread_run c n2 s1 = Some s2"
    "mq_holds s2 (?ys @ filter (\<lambda>m. msg_topic m \<noteq> ?t) xs)"
    "sys_delivered s2 = sys_delivered s1 @ map (Pair ?t) (filter (\<lambda>m. msg_topic m = ?t) xs)"
    using Cons.IH [of s1 ?ys] Cons.prems(3-6) n1(3,4) by (auto simp: mq_frame_def)
  have "thread_run c (n1 + n2) s = Some s2" using n1(2) n2(2) by (simp add: thread_run_add)
  with n1(1) n2 out show ?case
    by (intro exI [of _ "n1 + n2"] exI [of _ s2]) (auto split: if_splits)
qed

text \<open>
  C10: Delivery is live. In any reachable state of a queue without priorities, an active consumer
  at the head of its loop that runs by itself needs at most three critical sections per queued
  message to hand every queued message of its topic to its handler, in queue order; the messages
  of other topics are left in the queue in their order. The queue has fewer than \<open>2 ^ 64\<close> messages.
\<close>

theorem mqueue_consumer_delivers:
  assumes "mq_step\<^sup>*\<^sup>* (sys_init name mode) s" and "mq_ordering (sys_queue s) \<noteq> ORDERING_PRIORITY"
    and "mq_shape (sys_queue s) as" and "length as < 2 ^ 64"
    and "map_of (mq_consumers (sys_queue s)) c = Some cn" and "cn_active cn" and "sys_pc s c = C_Loop"
  shows "\<exists>n s' as'. n \<le> 3 * length as \<and> thread_run c n s = Some s' \<and> mq_step\<^sup>*\<^sup>* s s'
     \<and> sys_delivered s' = sys_delivered s @ map (Pair (cn_topic cn))
         (filter (\<lambda>m. msg_topic m = cn_topic cn) (map (msg_at (mq_heap (sys_queue s))) as))
     \<and> mq_shape (sys_queue s') as'
     \<and> map (msg_at (mq_heap (sys_queue s'))) as' =
         filter (\<lambda>m. msg_topic m \<noteq> cn_topic cn) (map (msg_at (mq_heap (sys_queue s))) as)"
proof -
  let ?l = "map (msg_at (mq_heap (sys_queue s))) as"
  have "mq_holds s (?l @ [])" using inv_reachable [OF assms(1)] assms(3) by (intro mq_holds_intro) auto
  from thread_pass [OF this _ assms(5-7,2)] assms(4) obtain n s' where
    "n \<le> 3 * length as" "thread_run c n s = Some s'"
    "mq_holds s' (filter (\<lambda>m. msg_topic m \<noteq> cn_topic cn) ?l)"
    "sys_delivered s' = sys_delivered s @ map (Pair (cn_topic cn)) (filter (\<lambda>m. msg_topic m = cn_topic cn) ?l)"
    by auto
  then show ?thesis
    using thread_run_sound by (auto simp: mq_holds_def sys_inv_def intro!: exI [of _ n])
qed

section \<open>Starvation\<close>

lemma thread_cycle:
  assumes "mq_holds s (m # l)" and "length (m # l) < 2 ^ 64"
    and "map_of (mq_consumers (sys_queue s)) c = Some cn" and "cn_active cn" and "sys_pc s c = C_Loop"
    and "mq_ordering (sys_queue s) = ORDERING_PRIORITY" and "msg_topic m \<noteq> cn_topic cn"
    and "\<forall>x \<in> set l. msg_priority x < msg_priority m"
  shows "\<exists>s'. thread_run c n s = Some s' \<and> sys_delivered s' = sys_delivered s"
  using assms
proof (induction n arbitrary: s rule: less_induct)
  case (less n)
  obtain a s1 where s1: "thread_step c s = Some s1" "sys_pc s1 c = C_Holding a"
    "msg_at (mq_heap (sys_queue s1)) a = m" "mq_holds s1 l" "mq_frame s s1" "sys_delivered s1 = sys_delivered s"
    using step_take [OF less.prems(1-5)] by blast
  have "map_of (mq_consumers (sys_queue s1)) c = Some cn" using less.prems(3) s1(5) by (simp add: mq_frame_def)
  from step_put_back [OF s1(4) this s1(2,3) less.prems(7)] obtain s2 where s2: "thread_step c s1 = Some s2"
    "sys_pc s2 c = C_Loop" "mq_holds s2 (enq_spec (mq_ordering (sys_queue s1)) m l)" "mq_frame s1 s2"
    "sys_delivered s2 = sys_delivered s1" by blast
  have "enq_spec ORDERING_PRIORITY m l = m # l"
    using less.prems(8) by (cases l) (auto simp: enq_spec_def not_le)
  then have again: "mq_holds s2 (m # l)" using s1(5) s2(3) less.prems(6) by (simp add: mq_frame_def)
  show ?case
  proof (cases "n < 2")
    case True
    then have "n = 0 \<or> n = Suc 0" by auto
    with s1 show ?thesis by auto
  next
    case False
    then obtain k where n: "n = Suc (Suc k)" by (metis Suc_pred not_less_eq numeral_2_eq_2 old.nat.exhaust zero_less_Suc)
    have fr: "mq_frame s s2" using s1(5) s2(4) by (rule mq_frame_trans)
    obtain s' where "thread_run c k s2 = Some s'" "sys_delivered s' = sys_delivered s2"
      using less.IH [of k s2] less.prems s2(2) again fr n by (auto simp: mq_frame_def)
    with n s1(1,6) s2(1,5) show ?thesis by simp
  qed
qed

text \<open>
  C31: A consumer of a priority queue can starve behind a message that is not for it. When the head
  of the queue has another topic and a higher priority than everything behind it, the consumer
  takes it, puts it back at the head and takes it again: however many steps it runs, it delivers
  nothing, although messages of its topic wait in the queue.
\<close>

theorem mqueue_priority_starvation:
  assumes "mq_step\<^sup>*\<^sup>* (sys_init name mode) s" and "mq_ordering (sys_queue s) = ORDERING_PRIORITY"
    and "mq_shape (sys_queue s) (a # as)" and "length (a # as) < 2 ^ 64"
    and "map_of (mq_consumers (sys_queue s)) c = Some cn" and "cn_active cn" and "sys_pc s c = C_Loop"
    and "msg_topic (msg_at (mq_heap (sys_queue s)) a) \<noteq> cn_topic cn"
    and "\<forall>b \<in> set as. msg_priority (msg_at (mq_heap (sys_queue s)) b) < msg_priority (msg_at (mq_heap (sys_queue s)) a)"
  shows "\<exists>s'. thread_run c n s = Some s' \<and> sys_delivered s' = sys_delivered s"
proof -
  let ?f = "msg_at (mq_heap (sys_queue s))"
  have "mq_holds s (?f a # map ?f as)"
    using inv_reachable [OF assms(1)] assms(3) by (intro mq_holds_intro) auto
  from thread_cycle [OF this _ assms(5-7,2,8)] assms(4,9) show ?thesis by simp
qed

section \<open>Overtaking\<close>

lemma publish_holds:
  assumes "mq_holds s l" and "mq_heap (sys_queue s) node = None" and "0 < payload_size" and "unat payload_size \<le> length p"
    and m: "m = new_message t p payload_size priority (sys_counter s) now_id now (mq_max_retries (sys_queue s))"
  shows "\<exists>q' s'. mqueue_publish_with_priority (Some (sys_queue s)) (Some t) (Some p) payload_size priority (sys_counter s)
         now_id now node = Some (SUCCESS, Some q', sys_counter s + 1)
     \<and> s' = s\<lparr>sys_queue := q', sys_counter := sys_counter s + 1,
         sys_published := sys_published s @ [msg_at (mq_heap q') node]\<rparr>
     \<and> mq_holds s' (enq_spec (mq_ordering (sys_queue s)) m l) \<and> msg_at (mq_heap q') node = m
     \<and> mq_consumers q' = mq_consumers (sys_queue s) \<and> mq_ordering q' = mq_ordering (sys_queue s)
     \<and> (\<forall>b. mq_heap (sys_queue s) b \<noteq> None \<longrightarrow> msg_at (mq_heap q') b = msg_at (mq_heap (sys_queue s)) b)"
proof -
  let ?q = "sys_queue s"
  obtain as where inv: "sys_inv s as" and l: "l = map (msg_at (mq_heap ?q)) as"
    using assms(1) by (auto simp: mq_holds_def)
  have shape: "mq_shape ?q as" using inv by (simp add: sys_inv_def)
  obtain h hp tp as' q' where q': "q' = ?q\<lparr>mq_heap := h, mq_head := hp, mq_tail := tp, mq_size := mq_size ?q + 1,
        mq_total_published := mq_total_published ?q + 1\<rparr>"
    and pub: "mqueue_publish_with_priority (Some ?q) (Some t) (Some p) payload_size priority (sys_counter s) now_id now node =
        Some (SUCCESS, Some q', sys_counter s + 1)"
    and s': "mq_shape q' as'" and v: "msg_view h = (msg_view (mq_heap ?q))(node \<mapsto> m)"
    and spec: "map (msg_at h) as' = enq_spec (mq_ordering ?q) m l"
    using publish_shape [OF shape assms(2-4) m] l by auto
  let ?s = "s\<lparr>sys_queue := q', sys_counter := sys_counter s + 1, sys_published := sys_published s @ [msg_at (mq_heap q') node]\<rparr>"
  have "mq_step s ?s" by (rule mq_step.publish [OF pub assms(3,4,2)])
  then have "mq_holds ?s (enq_spec (mq_ordering ?q) m l)"
    using inv_step inv s' spec by (intro mq_holds_intro) (auto simp: q')
  moreover have "msg_at h node = m" using fun_cong [OF v, of node] by (auto simp: msg_view_def msg_at_def)
  moreover have "msg_at h b = msg_at (mq_heap ?q) b" if "mq_heap ?q b \<noteq> None" for b
    using that assms(2) v by (intro msg_at_cong) auto
  ultimately show ?thesis using pub by (intro exI [of _ q'] exI [of _ ?s]) (simp add: q')
qed

lemma step_publish:
  assumes "mq_holds s l" and "mq_heap (sys_queue s) node = None" and "0 < payload_size" and "unat payload_size \<le> length p"
    and "m = new_message t p payload_size priority (sys_counter s) now_id now (mq_max_retries (sys_queue s))"
  shows "\<exists>s'. mq_step s s' \<and> mq_holds s' (enq_spec (mq_ordering (sys_queue s)) m l) \<and> sys_pc s' = sys_pc s
     \<and> sys_published s' = sys_published s @ [m]
     \<and> mq_consumers (sys_queue s') = mq_consumers (sys_queue s) \<and> mq_ordering (sys_queue s') = mq_ordering (sys_queue s)
     \<and> (\<forall>b. mq_heap (sys_queue s) b \<noteq> None \<longrightarrow> msg_at (mq_heap (sys_queue s')) b = msg_at (mq_heap (sys_queue s)) b)"
proof -
  obtain q' s' where pub: "mqueue_publish_with_priority (Some (sys_queue s)) (Some t) (Some p) payload_size priority
      (sys_counter s) now_id now node = Some (SUCCESS, Some q', sys_counter s + 1)"
    and s': "s' = s\<lparr>sys_queue := q', sys_counter := sys_counter s + 1,
      sys_published := sys_published s @ [msg_at (mq_heap q') node]\<rparr>"
    and facts: "mq_holds s' (enq_spec (mq_ordering (sys_queue s)) m l)" "msg_at (mq_heap q') node = m"
      "mq_consumers q' = mq_consumers (sys_queue s)" "mq_ordering q' = mq_ordering (sys_queue s)"
      "\<forall>b. mq_heap (sys_queue s) b \<noteq> None \<longrightarrow> msg_at (mq_heap q') b = msg_at (mq_heap (sys_queue s)) b"
    using publish_holds [OF assms] by blast
  have "mq_step s s'" unfolding s' by (rule mq_step.publish [OF pub assms(3,4,2)])
  with facts show ?thesis by (intro exI [of _ s']) (auto simp: s')
qed

text \<open>
  First-in first-out order is lost when topics are mixed. While a consumer holds a message of
  another topic, before it puts it back, a publisher can append: in every reachable state of a
  FIFO queue whose head is not for some idle consumer, and for every new message, there is an
  interleaving after which the new message stands in the queue before the old head.
\<close>

theorem mqueue_fifo_overtaken:
  assumes "mq_step\<^sup>*\<^sup>* (sys_init name mode) s" and "mq_ordering (sys_queue s) = ORDERING_FIFO"
    and "mq_shape (sys_queue s) (a # as)" and "length (a # as) < 2 ^ 64"
    and "map_of (mq_consumers (sys_queue s)) c = Some cn" and "cn_active cn" and "sys_pc s c = C_Loop"
    and "msg_topic (msg_at (mq_heap (sys_queue s)) a) \<noteq> cn_topic cn"
    and "mq_heap (sys_queue s) node = None" and "0 < payload_size" and "unat payload_size \<le> length p"
    and "m = new_message t p payload_size priority (sys_counter s) now_id now (mq_max_retries (sys_queue s))"
  shows "\<exists>s' as'. mq_step\<^sup>*\<^sup>* s s' \<and> sys_published s' = sys_published s @ [m]
     \<and> mq_shape (sys_queue s') as'
     \<and> map (msg_at (mq_heap (sys_queue s'))) as' =
         map (msg_at (mq_heap (sys_queue s))) as @ [m, msg_at (mq_heap (sys_queue s)) a]"
proof -
  let ?f = "msg_at (mq_heap (sys_queue s))"
  have "mq_holds s (?f a # map ?f as)"
    using inv_reachable [OF assms(1)] assms(3) by (intro mq_holds_intro) auto
  from step_take [OF this _ assms(5-7)] assms(4) obtain b s1 where s1: "thread_step c s = Some s1"
    "sys_pc s1 c = C_Holding b" "msg_at (mq_heap (sys_queue s1)) b = ?f a" "mq_holds s1 (map ?f as)" "mq_frame s s1"
    by auto
  have fr: "mq_consumers (sys_queue s1) = mq_consumers (sys_queue s)" "mq_ordering (sys_queue s1) = ORDERING_FIFO"
    "sys_counter s1 = sys_counter s" "mq_max_retries (sys_queue s1) = mq_max_retries (sys_queue s)"
    "sys_published s1 = sys_published s"
    using s1(5) assms(2) by (simp_all add: mq_frame_def)
  have "mq_heap (sys_queue s1) node = None" using thread_step_heap [OF s1(1) assms(7)] assms(9) by simp
  from step_publish [OF s1(4) this assms(10,11), of m t priority now_id now] assms(12) fr
  obtain s2 where s2: "mq_step s1 s2" "mq_holds s2 (map ?f as @ [m])" "sys_pc s2 = sys_pc s1"
    "sys_published s2 = sys_published s @ [m]" "mq_consumers (sys_queue s2) = mq_consumers (sys_queue s)"
    "mq_ordering (sys_queue s2) = ORDERING_FIFO"
    and kept: "\<forall>x. mq_heap (sys_queue s1) x \<noteq> None \<longrightarrow> msg_at (mq_heap (sys_queue s2)) x = msg_at (mq_heap (sys_queue s1)) x"
    by (auto simp: enq_spec_def)
  have "mq_heap (sys_queue s1) b \<noteq> None" using s1(2,4) holding_node(5) by (force simp: mq_holds_def)
  then have b: "msg_at (mq_heap (sys_queue s2)) b = ?f a" using kept s1(3) by simp
  have "map_of (mq_consumers (sys_queue s2)) c = Some cn" "sys_pc s2 c = C_Holding b"
    using s2(3,5) assms(5) s1(2) by simp_all
  from step_put_back [OF s2(2) this b assms(8)] obtain s3 where s3: "thread_step c s2 = Some s3"
    "mq_holds s3 (map ?f as @ [m, ?f a])" "mq_frame s2 s3" using s2(6) by (auto simp: enq_spec_def)
  have "mq_step\<^sup>*\<^sup>* s s3"
    using thread_step_sound [OF s1(1)] s2(1) thread_step_sound [OF s3(1)] by (meson converse_rtranclp_into_rtranclp rtranclp.rtrancl_refl)
  with s2(4) s3(2,3) show ?thesis by (force simp: mq_holds_def mq_frame_def sys_inv_def)
qed

section \<open>Sample states\<close>

definition wait_msg1 :: message_t where
  "wait_msg1 = new_message ''u'' [1] 1 9 0 5 6 3"

definition wait_msg2 :: message_t where
  "wait_msg2 = new_message ''t'' [2] 1 1 1 7 8 3"

definition wait_queue1 :: "ordering_t \<Rightarrow> mqueue_t" where
  "wait_queue1 mode = (mqueue_create ''q'' mode)\<lparr>
     mq_heap := [4 \<mapsto> \<lparr>qn_message = wait_msg1, qn_next = None\<rparr>],
     mq_head := Some 4, mq_tail := Some 4, mq_size := 1, mq_total_published := 1\<rparr>"

definition wait_queue :: "ordering_t \<Rightarrow> mqueue_t" where
  "wait_queue mode = (mqueue_create ''q'' mode)\<lparr>
     mq_heap := [4 \<mapsto> \<lparr>qn_message = wait_msg1, qn_next = Some 5\<rparr>, 5 \<mapsto> \<lparr>qn_message = wait_msg2, qn_next = None\<rparr>],
     mq_head := Some 4, mq_tail := Some 5, mq_size := 2, mq_total_published := 2\<rparr>"

definition wait_sys :: "ordering_t \<Rightarrow> mq_sys" where
  "wait_sys mode =
     \<lparr>sys_queue = (wait_queue mode)\<lparr>mq_consumers := [(7, \<lparr>cn_topic = ''t'', cn_active = True\<rparr>)], mq_consumer_count := 1\<rparr>,
      sys_pc = (\<lambda>_. C_Ended)(7 := C_Loop), sys_counter = 2, sys_published = [wait_msg1, wait_msg2],
      sys_delivered = [], sys_discarded = []\<rparr>"

lemma wait_publish1:
  "mqueue_publish_with_priority (Some (mqueue_create ''q'' mode)) (Some ''u'') (Some [1]) 1 9 0 5 6 4 =
     Some (SUCCESS, Some (wait_queue1 mode), 1)"
  by (cases mode) (simp_all add: mqueue_create_def wait_queue1_def wait_msg1_def new_message_def enqueue_search.simps
      mqueue_publish_with_priority_def message_create_def generate_message_id_def enqueue_message_def memcpy_from_def)

lemma wait_publish2:
  "mqueue_publish_with_priority (Some (wait_queue1 mode)) (Some ''t'') (Some [2]) 1 1 1 7 8 5 =
     Some (SUCCESS, Some (wait_queue mode), 2)"
  by (cases mode) (simp_all add: mqueue_create_def wait_queue1_def wait_queue_def wait_msg1_def wait_msg2_def
      new_message_def enqueue_search.simps mqueue_publish_with_priority_def message_create_def
      generate_message_id_def enqueue_message_def memcpy_from_def fun_upd_twist)

lemma wait_reachable: "mq_step\<^sup>*\<^sup>* (sys_init ''q'' mode) (wait_sys mode)"
proof -
  let ?s0 = "sys_init ''q'' mode"
  let ?s1 = "?s0\<lparr>sys_queue := wait_queue1 mode, sys_counter := 1,
    sys_published := sys_published ?s0 @ [msg_at (mq_heap (wait_queue1 mode)) 4]\<rparr>"
  let ?s2 = "?s1\<lparr>sys_queue := wait_queue mode, sys_counter := 2,
    sys_published := sys_published ?s1 @ [msg_at (mq_heap (wait_queue mode)) 5]\<rparr>"
  have s1: "mq_step ?s0 ?s1"
    by (rule mq_step.publish [of _ "''u''" "[1]" 1 9 5 6 4])
      (simp_all add: sys_init_def wait_publish1 [simplified mqueue_create_def] mqueue_create_def)
  have s2: "mq_step ?s1 ?s2"
    by (rule mq_step.publish [of _ "''t''" "[2]" 1 1 7 8 5])
      (simp_all add: wait_publish2, simp add: wait_queue1_def)
  have s3: "mq_step ?s2 (wait_sys mode)"
    using mq_step.subscribe [of ?s2 "''t''" 7 "sys_queue (wait_sys mode)"]
    by (simp add: wait_sys_def mqueue_subscribe_def sys_init_def wait_queue_def wait_queue1_def mqueue_create_def msg_at_def)
  from s1 s2 s3 show ?thesis by (meson converse_rtranclp_into_rtranclp rtranclp.rtrancl_refl)
qed

lemma wait_shape: "mq_shape (sys_queue (wait_sys mode)) [4, 5]"
  by (simp add: wait_sys_def wait_queue_def mqueue_create_def mq_shape_def fld_def)

lemma wait_sys_simps:
  "mq_ordering (sys_queue (wait_sys mode)) = mode" "mq_max_retries (sys_queue (wait_sys mode)) = 3"
  "map_of (mq_consumers (sys_queue (wait_sys mode))) 7 = Some \<lparr>cn_topic = ''t'', cn_active = True\<rparr>"
  "sys_pc (wait_sys mode) 7 = C_Loop" "sys_counter (wait_sys mode) = 2"
  "msg_at (mq_heap (sys_queue (wait_sys mode))) 4 = wait_msg1"
  "msg_at (mq_heap (sys_queue (wait_sys mode))) 5 = wait_msg2"
  "msg_topic wait_msg1 = ''u''" "msg_topic wait_msg2 = ''t''" "msg_priority wait_msg1 = 9" "msg_priority wait_msg2 = 1"
  "mq_heap (sys_queue (wait_sys mode)) 3 = None" "sys_delivered (wait_sys mode) = []"
  "sys_published (wait_sys mode) = [wait_msg1, wait_msg2]"
  by (simp_all add: wait_sys_def wait_queue_def mqueue_create_def msg_at_def wait_msg1_def wait_msg2_def new_message_def)

theorem mqueue_consumer_delivers_witness:
  "\<exists>n s' as'. n \<le> 6 \<and> thread_run 7 n (wait_sys ORDERING_FIFO) = Some s' \<and> mq_step\<^sup>*\<^sup>* (wait_sys ORDERING_FIFO) s'
     \<and> sys_delivered s' = [(''t'', wait_msg2)]
     \<and> mq_shape (sys_queue s') as' \<and> map (msg_at (mq_heap (sys_queue s'))) as' = [wait_msg1]"
  using mqueue_consumer_delivers [OF wait_reachable _ wait_shape _ wait_sys_simps(3) _ wait_sys_simps(4), of ORDERING_FIFO]
  by (simp add: wait_sys_simps)

theorem mqueue_priority_starvation_witness:
  "\<exists>s'. thread_run 7 1000 (wait_sys ORDERING_PRIORITY) = Some s' \<and> sys_delivered s' = []"
  using mqueue_priority_starvation [OF wait_reachable _ wait_shape _ wait_sys_simps(3) _ wait_sys_simps(4),
      of ORDERING_PRIORITY 1000]
  by (simp add: wait_sys_simps)

theorem mqueue_fifo_overtaken_witness:
  "\<exists>s' as'. mq_step\<^sup>*\<^sup>* (wait_sys ORDERING_FIFO) s'
     \<and> sys_published s' = [wait_msg1, wait_msg2, new_message ''u'' [3] 1 0 2 9 9 3]
     \<and> mq_shape (sys_queue s') as'
     \<and> map (msg_at (mq_heap (sys_queue s'))) as' = [wait_msg2, new_message ''u'' [3] 1 0 2 9 9 3, wait_msg1]"
  using mqueue_fifo_overtaken [OF wait_reachable _ wait_shape _ wait_sys_simps(3) _ wait_sys_simps(4) _
      wait_sys_simps(12), of ORDERING_FIFO 1 "[3]" _ "''u''" 0 9 9]
  by (simp add: wait_sys_simps)

end
