(* ===== verification/Mqueue_Wait.thy ===== *)
theory Mqueue_Wait
  imports Mqueue_Liveness
begin

text \<open>
  The condition variable of \<^verbatim>\<open>src/mqueue/mqueue.c\<close>. A consumer that finds the queue empty sleeps in
  \<open>pthread_cond_wait\<close> until a broadcast; publishing and unsubscribing broadcast, putting a message back
  does not. The state is extended by the set of sleeping threads; apart from that the steps are those of
  \<open>mq_step\<close>, so everything shown for it holds here too. Spurious wake-ups, which POSIX allows and no
  program may rely on, are left out.
\<close>

section \<open>Sleeping consumers\<close>

definition falls_asleep :: "addr \<Rightarrow> mq_sys \<Rightarrow> bool" where
  "falls_asleep c s \<longleftrightarrow>
     sys_pc s c = C_Loop \<and> mq_size (sys_queue s) = 0
   \<and> (case map_of (mq_consumers (sys_queue s)) c of None \<Rightarrow> False | Some cn \<Rightarrow> cn_active cn)"

inductive wait_step :: "mq_sys \<times> addr set \<Rightarrow> mq_sys \<times> addr set \<Rightarrow> bool" where
  run_thread:
    "c \<notin> W \<Longrightarrow> thread_step c s = Some s' \<Longrightarrow>
     wait_step (s, W) (s', if falls_asleep c s then insert c W else W)"
| publish_wakes:
    "mqueue_publish_with_priority (Some (sys_queue s)) (Some t) (Some p) payload_size priority (sys_counter s)
       now_id now node = Some (SUCCESS, Some q', counter') \<Longrightarrow>
     0 < payload_size \<Longrightarrow> unat payload_size \<le> length p \<Longrightarrow> mq_heap (sys_queue s) node = None \<Longrightarrow>
     wait_step (s, W) (s\<lparr>sys_queue := q', sys_counter := counter',
       sys_published := sys_published s @ [msg_at (mq_heap q') node]\<rparr>, {})"
| new_consumer:
    "mqueue_subscribe (Some (sys_queue s)) (Some t) True True c = (Some c, Some q') \<Longrightarrow> sys_pc s c = C_Ended \<Longrightarrow>
     c \<notin> W \<Longrightarrow> wait_step (s, W) (s\<lparr>sys_queue := q', sys_pc := (sys_pc s)(c := C_Loop)\<rparr>, W)"
| stop_consumer:
    "wait_step (s, W) (s\<lparr>sys_queue := unsubscribe_request (sys_queue s) c\<rparr>, {})"
| drop_consumer:
    "sys_pc s c = C_Ended \<Longrightarrow> wait_step (s, W) (s\<lparr>sys_queue := unsubscribe_remove (sys_queue s) c\<rparr>, W)"
| clear_queue:
    "mqueue_clear (Some (sys_queue s)) = Some (Some q') \<Longrightarrow>
     chain (fld qn_next (mq_heap (sys_queue s))) (mq_head (sys_queue s)) as \<Longrightarrow>
     wait_step (s, W) (s\<lparr>sys_queue := q',
       sys_discarded := sys_discarded s @ map (msg_at (mq_heap (sys_queue s))) as\<rparr>, W)"

lemma wait_step_sound: "wait_step x y \<Longrightarrow> mq_step (fst x) (fst y)"
  by (induction rule: wait_step.induct) (auto intro: mq_step.intros thread_step_sound)

lemma wait_reach_sound: "wait_step\<^sup>*\<^sup>* x y \<Longrightarrow> mq_step\<^sup>*\<^sup>* (fst x) (fst y)"
  by (induction rule: rtranclp_induct) (auto dest: wait_step_sound)

section \<open>One topic\<close>

text \<open>All consumers and all messages of the system have the topic \<open>t\<close>.\<close>

definition one_topic :: "cstr \<Rightarrow> mq_sys \<Rightarrow> bool" where
  "one_topic t s \<longleftrightarrow>
     list_all (\<lambda>(c, cn). cn_topic cn = t) (mq_consumers (sys_queue s)) \<and> list_all (\<lambda>m. msg_topic m = t) (sys_published s)"

definition topic_step :: "cstr \<Rightarrow> mq_sys \<times> addr set \<Rightarrow> mq_sys \<times> addr set \<Rightarrow> bool" where
  "topic_step t x y \<longleftrightarrow> wait_step x y \<and> one_topic t (fst y)"

definition asleep_inv :: "cstr \<Rightarrow> mq_sys \<times> addr set \<Rightarrow> bool" where
  "asleep_inv t x \<longleftrightarrow>
     (\<exists>as. sys_inv (fst x) as) \<and> one_topic t (fst x) \<and> (snd x \<noteq> {} \<longrightarrow> mq_size (sys_queue (fst x)) = 0)"

lemma held_published:
  assumes "sys_inv s as" and "sys_pc s c = C_Holding a"
  shows "msg_at (mq_heap (sys_queue s)) a \<in> set (sys_published s)"
proof -
  have "msg_at (mq_heap (sys_queue s)) a \<in># in_flight s"
    using holding_node(1) [OF assms] assms(1) by (auto simp: in_flight_def sys_inv_def)
  moreover have "set_mset (in_flight s) \<subseteq> set_mset (mset (sys_published s))"
    using assms(1) by (auto simp: sys_inv_def)
  ultimately show ?thesis by auto
qed

text \<open>A step of a thread leaves the queue empty when it was empty, if it holds no foreign message.\<close>

lemma thread_step_empty:
  assumes "sys_inv s as" and "one_topic t s" and "thread_step c s = Some s'" and "mq_size (sys_queue s) = 0"
  shows "mq_size (sys_queue s') = 0"
proof -
  obtain cn where cn: "map_of (mq_consumers (sys_queue s)) c = Some cn"
    using assms(3) by (auto simp: thread_step_def split: option.splits)
  then have topic: "cn_topic cn = t" using assms(2) by (auto simp: one_topic_def list_all_iff dest: map_of_SomeD)
  show ?thesis
  proof (cases "sys_pc s c")
    case C_Loop
    with assms(3,4) cn show ?thesis by (auto simp: thread_step_def consumer_loop_def split: if_splits)
  next
    case (C_Holding a)
    then have "msg_topic (msg_at (mq_heap (sys_queue s)) a) = t"
      using held_published [OF assms(1)] assms(2) by (auto simp: one_topic_def list_all_iff)
    with C_Holding assms(3,4) cn topic show ?thesis
      by (auto simp: thread_step_def consumer_dispatch_def msg_at_def split: Option.bind_splits if_splits)
  next
    case (C_Handled a)
    with assms(3,4) cn show ?thesis
      by (auto simp: thread_step_def consumer_finish_def split: Option.bind_splits)
  next
    case C_Ended
    with assms(3) cn show ?thesis by (simp add: thread_step_def)
  qed
qed

lemma asleep_step:
  assumes "asleep_inv t x" and "topic_step t x y"
  shows "asleep_inv t y"
proof -
  have w: "wait_step x y" and one: "one_topic t (fst y)" using assms(2) by (simp_all add: topic_step_def)
  have inv: "\<exists>as. sys_inv (fst y) as"
    using inv_step [OF wait_step_sound [OF w]] assms(1) by (simp add: asleep_inv_def)
  have "snd y \<noteq> {} \<longrightarrow> mq_size (sys_queue (fst y)) = 0"
    using w assms(1)
  proof (induction rule: wait_step.induct)
    case (run_thread c W s s')
    then show ?case using thread_step_empty [of s _ t c s'] by (auto simp: asleep_inv_def falls_asleep_def)
  next
    case (clear_queue s q' as W)
    then show ?case by (auto simp: mqueue_clear_def split: Option.bind_splits)
  qed (auto simp: asleep_inv_def mqueue_subscribe_def unsubscribe_remove_def split: option.splits)
  with inv one show ?thesis by (simp add: asleep_inv_def)
qed

interpretation one_topic_sys: invariant_system
  "\<lambda>x. \<exists>name mode. x = (sys_init name mode, {})" "topic_step t" "asleep_inv t" for t
proof (unfold_locales, goal_cases)
  case (1 x)
  then obtain name mode where x: "x = (sys_init name mode, {})" by blast
  have "one_topic t (sys_init name mode)" by (simp add: one_topic_def sys_init_def mqueue_create_def)
  with x inv_init [of name mode] show ?case by (auto simp: asleep_inv_def)
qed (rule asleep_step)

text \<open>
  C11: No wake-up is lost when a queue serves one topic. Under every interleaving of publishers,
  consumers, subscriptions and clears in which all messages and consumers have the same topic, a
  consumer sleeps on the condition variable only while the queue is empty.
\<close>

theorem mqueue_sleeps_only_when_empty:
  assumes "(topic_step t)\<^sup>*\<^sup>* (sys_init name mode, {}) (s, W)" and "c \<in> W"
  shows "mq_size (sys_queue s) = 0"
proof -
  have "asleep_inv t (s, W)" by (rule one_topic_sys.invar_reachable [OF _ assms(1)]) blast
  with assms(2) show ?thesis by (auto simp: asleep_inv_def)
qed

section \<open>Two topics\<close>

lemma thread_step_other_pc: "thread_step c s = Some s' \<Longrightarrow> c' \<noteq> c \<Longrightarrow> sys_pc s' c' = sys_pc s c'"
  by (auto simp: thread_step_def split: option.splits consumer_pc.splits Option.bind_splits)

lemma holds_size: "mq_holds s l \<Longrightarrow> mq_size (sys_queue s) = of_nat (length l)"
  by (auto simp: mq_holds_def sys_inv_def mq_shape_def)

lemma enq_spec_Nil [simp]: "enq_spec mode m [] = [m]"
  by (simp add: enq_spec_def)

text \<open>A consumer alone with one message of another topic takes it and puts it back, for ever.\<close>

lemma spin:
  assumes "mq_holds s [m]" and "map_of (mq_consumers (sys_queue s)) b = Some cn" and "cn_active cn"
    and "sys_pc s b = C_Loop" and "msg_topic m \<noteq> cn_topic cn" and "b \<notin> W"
  shows "\<exists>s'. thread_run b n s = Some s' \<and> (wait_step ^^ n) (s, W) (s', W) \<and> sys_delivered s' = sys_delivered s
    \<and> mq_size (sys_queue s') = (if even n then 1 else 0)"
  using assms
proof (induction n arbitrary: s rule: less_induct)
  case (less n)
  have size: "mq_size (sys_queue s) \<noteq> 0" using holds_size [OF less.prems(1)] by simp
  obtain a s1 where s1: "thread_step b s = Some s1" "sys_pc s1 b = C_Holding a"
    "msg_at (mq_heap (sys_queue s1)) a = m" "mq_holds s1 []" "mq_frame s s1" "sys_delivered s1 = sys_delivered s"
    using step_take [of s m "[]" b cn] less.prems by auto
  have cn1: "map_of (mq_consumers (sys_queue s1)) b = Some cn" using less.prems(2) s1(5) by (simp add: mq_frame_def)
  from step_put_back [OF s1(4) cn1 s1(2,3) less.prems(5)] obtain s2 where s2: "thread_step b s1 = Some s2"
    "sys_pc s2 b = C_Loop" "mq_holds s2 [m]" "mq_frame s1 s2" "sys_delivered s2 = sys_delivered s1"
    by auto
  have w1: "wait_step (s, W) (s1, W)"
    using wait_step.run_thread [OF less.prems(6) s1(1)] size by (simp add: falls_asleep_def)
  have w2: "wait_step (s1, W) (s2, W)"
    using wait_step.run_thread [OF less.prems(6) s2(1)] s1(2) by (simp add: falls_asleep_def)
  consider "n = 0" | "n = Suc 0" | k where "n = Suc (Suc k)" by (metis not0_implies_Suc)
  then show ?case
  proof cases
    case 1
    then show ?thesis using holds_size [OF less.prems(1)] by auto
  next
    case 2
    with w1 s1(1,6) holds_size [OF s1(4)] show ?thesis by auto
  next
    case 3
    have "map_of (mq_consumers (sys_queue s2)) b = Some cn" using cn1 s2(4) by (simp add: mq_frame_def)
    with less.IH [of k s2] 3 less.prems s2 obtain s' where
      s': "(wait_step ^^ k) (s2, W) (s', W)" "sys_delivered s' = sys_delivered s2" "thread_run b k s2 = Some s'"
        "mq_size (sys_queue s') = (if even k then 1 else 0)" by auto
    have "(wait_step ^^ n) (s, W) (s', W)"
      unfolding 3 by (rule relpowp_Suc_I2 [OF w1 relpowp_Suc_I2 [OF w2 s'(1)]])
    moreover have "thread_run b n s = Some s'" using s1(1) s2(1) s'(3) by (simp add: 3)
    ultimately show ?thesis using s'(2,4) s1(6) s2(5) 3 by auto
  qed
qed

definition two_consumers :: "cstr \<Rightarrow> ordering_t \<Rightarrow> mq_sys" where
  "two_consumers name mode =
     (let s = sys_init name mode in
      s\<lparr>sys_queue := (sys_queue s)\<lparr>mq_consumers := [(8, \<lparr>cn_topic = ''u'', cn_active = True\<rparr>), (7, \<lparr>cn_topic = ''t'', cn_active = True\<rparr>)],
          mq_consumer_count := 2\<rparr>, sys_pc := (sys_pc s)(7 := C_Loop, 8 := C_Loop)\<rparr>)"

lemma two_consumers_reached: "wait_step\<^sup>*\<^sup>* (sys_init name mode, {}) (two_consumers name mode, {})"
proof -
  let ?s = "sys_init name mode"
  let ?q = "(sys_queue ?s)\<lparr>mq_consumers := [(7, \<lparr>cn_topic = ''t'', cn_active = True\<rparr>)], mq_consumer_count := 1\<rparr>"
  let ?s1 = "?s\<lparr>sys_queue := ?q, sys_pc := (sys_pc ?s)(7 := C_Loop)\<rparr>"
  have w1: "wait_step (?s, {}) (?s1, {})"
    by (rule wait_step.new_consumer [of ?s "''t''" 7])
      (simp_all add: sys_init_def mqueue_create_def mqueue_subscribe_def)
  have w2: "wait_step (?s1, {}) (?s1\<lparr>sys_queue := sys_queue (two_consumers name mode), sys_pc := (sys_pc ?s1)(8 := C_Loop)\<rparr>, {})"
    by (rule wait_step.new_consumer [of ?s1 "''u''" 8])
      (simp_all add: sys_init_def mqueue_create_def mqueue_subscribe_def two_consumers_def)
  have eq: "?s1\<lparr>sys_queue := sys_queue (two_consumers name mode), sys_pc := (sys_pc ?s1)(8 := C_Loop)\<rparr> = two_consumers name mode"
    by (simp add: two_consumers_def Let_def)
  from w2 [unfolded eq] have "wait_step\<^sup>*\<^sup>* (?s1, {}) (two_consumers name mode, {})" by (rule r_into_rtranclp)
  with w1 show ?thesis by (rule converse_rtranclp_into_rtranclp)
qed

lemma two_consumers_facts:
  "sys_pc (two_consumers name mode) 7 = C_Loop" "sys_pc (two_consumers name mode) 8 = C_Loop"
  "map_of (mq_consumers (sys_queue (two_consumers name mode))) 7 = Some \<lparr>cn_topic = ''t'', cn_active = True\<rparr>"
  "map_of (mq_consumers (sys_queue (two_consumers name mode))) 8 = Some \<lparr>cn_topic = ''u'', cn_active = True\<rparr>"
  "mq_heap (sys_queue (two_consumers name mode)) = Map.empty" "sys_counter (two_consumers name mode) = 0"
  "mq_max_retries (sys_queue (two_consumers name mode)) = 3" "sys_delivered (two_consumers name mode) = []"
  "mq_shape (sys_queue (two_consumers name mode)) []"
  by (simp_all add: two_consumers_def Let_def sys_init_def mqueue_create_def mq_shape_def)

text \<open>
  The consumer of the other topic takes the new message before the one it is meant for wakes up, and
  puts it back after that one has gone back to sleep.
\<close>

lemma sleeper_reached:
  "\<exists>s. wait_step\<^sup>*\<^sup>* (sys_init name mode, {}) (s, {7}) \<and> mq_holds s [new_message ''t'' [1] 1 0 0 5 6 3]
     \<and> sys_pc s 8 = C_Loop \<and> sys_delivered s = []
     \<and> mq_consumers (sys_queue s) = mq_consumers (sys_queue (two_consumers name mode))"
proof -
  let ?s = "two_consumers name mode" and ?m = "new_message ''t'' [1] 1 0 0 5 6 3"
  let ?c8 = "\<lparr>cn_topic = ''u'', cn_active = True\<rparr>"
  note start = two_consumers_facts [of name mode]
  have "\<exists>as. sys_inv ?s as" using wait_reach_sound [OF two_consumers_reached [of name mode]] inv_reachable by auto
  then have "mq_holds ?s []" using start(9) by (intro mq_holds_intro) auto
  from publish_holds [OF this, of 4 1 "[1]" ?m "''t''" 0 5 6] obtain q1 s1 where
    pub: "mqueue_publish_with_priority (Some (sys_queue ?s)) (Some ''t'') (Some [1]) 1 0 (sys_counter ?s) 5 6 4 =
        Some (SUCCESS, Some q1, sys_counter ?s + 1)"
    and s1: "s1 = ?s\<lparr>sys_queue := q1, sys_counter := sys_counter ?s + 1, sys_published := sys_published ?s @ [msg_at (mq_heap q1) 4]\<rparr>"
    and h1: "mq_holds s1 [?m]" "mq_consumers q1 = mq_consumers (sys_queue ?s)"
    using start by auto
  have w1: "wait_step (?s, {}) (s1, {})"
    unfolding s1 by (rule wait_step.publish_wakes [OF pub]) (simp_all add: start)
  have f1: "sys_pc s1 = sys_pc ?s" "mq_consumers (sys_queue s1) = mq_consumers (sys_queue ?s)" "sys_delivered s1 = []"
    using h1(2) start(8) by (simp_all add: s1)
  obtain a s2 where s2: "thread_step 8 s1 = Some s2" "sys_pc s2 8 = C_Holding a" "msg_at (mq_heap (sys_queue s2)) a = ?m"
    "mq_holds s2 []" "mq_frame s1 s2" "sys_delivered s2 = sys_delivered s1"
    using step_take [of s1 ?m "[]" 8 ?c8] h1(1) f1 start by auto
  have w2: "wait_step (s1, {}) (s2, {})"
    using wait_step.run_thread [OF _ s2(1), of "{}"] holds_size [OF h1(1)] by (simp add: falls_asleep_def)
  have f2: "sys_pc s2 7 = C_Loop" "mq_size (sys_queue s2) = 0" "mq_consumers (sys_queue s2) = mq_consumers (sys_queue ?s)"
    using thread_step_other_pc [OF s2(1), of 7] f1 s2(5) start(1) holds_size [OF s2(4)] by (simp_all add: mq_frame_def)
  have "thread_step 7 s2 = Some s2"
    using f2 start(3) by (simp add: thread_step_def consumer_loop_def fun_upd_idem)
  from wait_step.run_thread [OF _ this, of "{}"] have w3: "wait_step (s2, {}) (s2, {7})"
    using f2 start(3) by (simp add: falls_asleep_def)
  have "msg_topic ?m \<noteq> cn_topic ?c8" by (simp add: new_message_def)
  from step_put_back [OF s2(4) _ s2(2,3) this] obtain s3 where s3: "thread_step 8 s2 = Some s3" "sys_pc s3 8 = C_Loop"
    "mq_holds s3 [?m]" "mq_frame s2 s3" "sys_delivered s3 = sys_delivered s2" using f2 start(4) by auto
  from wait_step.run_thread [OF _ s3(1), of "{7}"] have w4: "wait_step (s2, {7}) (s3, {7})"
    using s2(2) by (simp add: falls_asleep_def)
  have f3: "mq_consumers (sys_queue s3) = mq_consumers (sys_queue ?s)" "sys_delivered s3 = []"
    using s3(4,5) f2(3) s2(6) f1(3) by (simp_all add: mq_frame_def)
  have "wait_step\<^sup>*\<^sup>* (sys_init name mode, {}) (s3, {7})"
    using two_consumers_reached [of name mode] w1 w2 w3 w4 by (meson rtranclp.rtrancl_into_rtrancl)
  with s3(2,3) f3 show ?thesis by blast
qed

text \<open>
  C30: With two topics a wake-up can be lost. There is a run, for every ordering mode, after which a
  message of topic \<open>t\<close> is in the queue and the active consumer 7 of topic \<open>t\<close> sleeps. From there the
  consumer 8 of another topic can run alone for any number of critical sections: in turn it
  takes the message, leaving the queue empty, and puts it back, and all that time the sleeper is
  not woken and nothing is delivered.
\<close>

theorem mqueue_lost_wakeup:
  "\<exists>s a. wait_step\<^sup>*\<^sup>* (sys_init name mode, {}) (s, {7}) \<and> mq_shape (sys_queue s) [a]
     \<and> map_of (mq_consumers (sys_queue s)) 7 = Some \<lparr>cn_topic = ''t'', cn_active = True\<rparr>
     \<and> msg_topic (msg_at (mq_heap (sys_queue s)) a) = ''t''
     \<and> (\<forall>n. \<exists>s'. thread_run 8 n s = Some s' \<and> (wait_step ^^ n) (s, {7}) (s', {7}) \<and> sys_delivered s' = []
          \<and> mq_size (sys_queue s') = (if even n then 1 else 0))"
proof -
  let ?c8 = "\<lparr>cn_topic = ''u'', cn_active = True\<rparr>"
  obtain s where s: "wait_step\<^sup>*\<^sup>* (sys_init name mode, {}) (s, {7})" "mq_holds s [new_message ''t'' [1] 1 0 0 5 6 3]"
    "sys_pc s 8 = C_Loop" "sys_delivered s = []"
    "mq_consumers (sys_queue s) = mq_consumers (sys_queue (two_consumers name mode))"
    using sleeper_reached by blast
  obtain b where "mq_shape (sys_queue s) [b]" "msg_at (mq_heap (sys_queue s)) b = new_message ''t'' [1] 1 0 0 5 6 3"
    using s(2) by (auto simp: mq_holds_def sys_inv_def)
  moreover have "\<exists>s'. thread_run 8 n s = Some s' \<and> (wait_step ^^ n) (s, {7}) (s', {7}) \<and> sys_delivered s' = []
      \<and> mq_size (sys_queue s') = (if even n then 1 else 0)" for n
    using spin [OF s(2), of 8 ?c8 "{7}" n] s(3-5) two_consumers_facts(4) [of name mode] by (simp add: new_message_def)
  ultimately show ?thesis
    using s(1,5) two_consumers_facts(3) [of name mode] by (intro exI [of _ s] exI [of _ b]) (simp add: new_message_def)
qed

section \<open>Instance\<close>

lemma one_topic_run:
  "\<exists>s. (topic_step ''t'')\<^sup>*\<^sup>* (sys_init ''q'' ORDERING_FIFO, {}) (s, {7})"
proof -
  let ?s = "sys_init ''q'' ORDERING_FIFO" and ?c7 = "\<lparr>cn_topic = ''t'', cn_active = True\<rparr>"
  let ?s1 = "?s\<lparr>sys_queue := (sys_queue ?s)\<lparr>mq_consumers := [(7, ?c7)], mq_consumer_count := 1\<rparr>, sys_pc := (sys_pc ?s)(7 := C_Loop)\<rparr>"
  have one: "one_topic ''t'' ?s1" by (simp add: one_topic_def sys_init_def mqueue_create_def)
  have "wait_step (?s, {}) (?s1, {})"
    by (rule wait_step.new_consumer [of ?s "''t''" 7])
      (simp_all add: sys_init_def mqueue_create_def mqueue_subscribe_def)
  moreover have "thread_step 7 ?s1 = Some ?s1"
    by (simp add: thread_step_def consumer_loop_def sys_init_def mqueue_create_def)
  from wait_step.run_thread [OF _ this, of "{}"] have "wait_step (?s1, {}) (?s1, {7})"
    by (simp add: falls_asleep_def sys_init_def mqueue_create_def)
  ultimately have "topic_step ''t'' (?s, {}) (?s1, {})" "topic_step ''t'' (?s1, {}) (?s1, {7})"
    using one by (simp_all add: topic_step_def)
  then show ?thesis by (meson converse_rtranclp_into_rtranclp rtranclp.rtrancl_refl)
qed

theorem mqueue_sleeps_only_when_empty_witness:
  "\<exists>s. (topic_step ''t'')\<^sup>*\<^sup>* (sys_init ''q'' ORDERING_FIFO, {}) (s, {7}) \<and> mq_size (sys_queue s) = 0"
  using one_topic_run mqueue_sleeps_only_when_empty [of "''t''" "''q''" ORDERING_FIFO _ "{7}" 7] by blast

end
