(* ===== verification/Mqueue_Drain.thy ===== *)
theory Mqueue_Drain
  imports Mqueue_Wait
begin

text \<open>
  Delivery under every schedule. When all messages and consumers of a queue have one topic, the
  consumer threads of \<^verbatim>\<open>src/mqueue/mqueue.c\<close>, run in any order and without a new message, come to rest
  after a number of critical sections that does not depend on the order; if one of them is active,
  every message has then been delivered. No fairness is assumed.
\<close>

section \<open>Steps of the consumer threads\<close>

inductive consumer_step :: "mq_sys \<times> addr set \<Rightarrow> mq_sys \<times> addr set \<Rightarrow> bool" where
  "c \<notin> W \<Longrightarrow> thread_step c s = Some s' \<Longrightarrow>
   consumer_step (s, W) (s', if falls_asleep c s then insert c W else W)"

inductive_cases consumer_stepE: "consumer_step (s, W) y"

lemma consumer_step_sound: "consumer_step x y \<Longrightarrow> wait_step x y"
  by (induction rule: consumer_step.induct) (rule wait_step.run_thread)

text \<open>The critical sections a thread still has to run, and those of the whole system.\<close>

definition weight :: "addr set \<Rightarrow> (addr \<Rightarrow> consumer_pc) \<Rightarrow> addr \<Rightarrow> nat" where
  "weight W pc c =
     (case pc c of C_Holding _ \<Rightarrow> 3 | C_Handled _ \<Rightarrow> 2 | C_Loop \<Rightarrow> if c \<in> W then 0 else 1 | C_Ended \<Rightarrow> 0)"

definition work_left :: "mq_sys \<times> addr set \<Rightarrow> nat" where
  "work_left x =
     3 * unat (mq_size (sys_queue (fst x)))
     + (\<Sum>c \<in> fst ` set (mq_consumers (sys_queue (fst x))). weight (snd x) (sys_pc (fst x)) c)"

section \<open>Invariant\<close>

definition registered :: "mq_sys \<Rightarrow> bool" where
  "registered s \<longleftrightarrow> (\<forall>c. sys_pc s c \<noteq> C_Ended \<longrightarrow> c \<in> fst ` set (mq_consumers (sys_queue s)))"

definition drain_inv :: "cstr \<Rightarrow> mq_sys \<times> addr set \<Rightarrow> bool" where
  "drain_inv t x \<longleftrightarrow> asleep_inv t x \<and> registered (fst x) \<and> (\<forall>c \<in> snd x. sys_pc (fst x) c = C_Loop)"

lemma enqueue_consumers: "enqueue_message q a = Some q' \<Longrightarrow> mq_consumers q' = mq_consumers q"
  by (auto simp: enqueue_message_def split: Option.bind_splits option.splits if_splits)

lemma loop_consumers: "consumer_loop q cn = Some (pc, q') \<Longrightarrow> mq_consumers q' = mq_consumers q"
  by (auto simp: consumer_loop_def dequeue_message_def split: if_splits Option.bind_splits option.splits)

lemma dispatch_consumers: "consumer_dispatch q cn a = Some (pc, q', m) \<Longrightarrow> mq_consumers q' = mq_consumers q"
  by (auto simp: consumer_dispatch_def enqueue_consumers split: if_splits Option.bind_splits)

lemma finish_consumers: "consumer_finish q a = Some (pc, q') \<Longrightarrow> mq_consumers q' = mq_consumers q"
  by (auto simp: consumer_finish_def split: Option.bind_splits)

lemma thread_step_frame:
  assumes "thread_step c s = Some s'"
  shows "mq_consumers (sys_queue s') = mq_consumers (sys_queue s)" and "sys_published s' = sys_published s"
    and "sys_discarded s' = sys_discarded s"
  using assms loop_consumers dispatch_consumers finish_consumers
  by (auto simp: thread_step_def split: option.splits consumer_pc.splits Option.bind_splits)

lemma map_of_in_keys: "map_of l k = Some v \<Longrightarrow> k \<in> fst ` set l"
  by (force dest: map_of_SomeD)

lemma publish_consumers:
  "mqueue_publish_with_priority (Some q) (Some t) (Some p) payload_size priority counter now_id now node =
     Some (r, Some q', counter') \<Longrightarrow> mq_consumers q' = mq_consumers q"
  using enqueue_consumers
  by (fastforce simp: mqueue_publish_with_priority_def split: Option.bind_splits if_splits prod.splits)

lemma unsubscribe_loop_keys:
  "unsubscribe_loop c l = Some l' \<Longrightarrow> k \<in> fst ` set l \<Longrightarrow> k \<noteq> c \<Longrightarrow> k \<in> fst ` set l'"
  by (induction l arbitrary: l') (force split: if_splits)+

lemma registered_step: "wait_step x y \<Longrightarrow> registered (fst x) \<Longrightarrow> registered (fst y)"
proof (induction rule: wait_step.induct)
  case (run_thread c W s s')
  have "c \<in> fst ` set (mq_consumers (sys_queue s))"
    using run_thread(2) by (auto simp: thread_step_def split: option.splits dest: map_of_in_keys)
  with run_thread thread_step_frame [OF run_thread(2)] thread_step_other_pc [OF run_thread(2)] show ?case
    unfolding registered_def fst_conv by metis
next
  case publish_wakes
  then show ?case by (simp add: registered_def publish_consumers)
next
  case new_consumer
  then show ?case by (auto simp: registered_def mqueue_subscribe_def)
next
  case stop_consumer
  then show ?case by (force simp: registered_def unsubscribe_request_def)
next
  case drop_consumer
  then show ?case
    by (auto simp: registered_def unsubscribe_remove_def split: option.split) (metis unsubscribe_loop_keys)
next
  case clear_queue
  then show ?case by (auto simp: registered_def mqueue_clear_def split: Option.bind_splits)
qed

lemma sleepers_step:
  "wait_step x y \<Longrightarrow> \<forall>c \<in> snd x. sys_pc (fst x) c = C_Loop \<Longrightarrow> \<forall>c \<in> snd y. sys_pc (fst y) c = C_Loop"
proof (induction rule: wait_step.induct)
  case (run_thread c W s s')
  have "sys_pc s' c = C_Loop" if "falls_asleep c s"
    using run_thread(2) that by (auto simp: thread_step_def falls_asleep_def consumer_loop_def split: option.splits)
  with run_thread thread_step_other_pc [OF run_thread(2)] show ?case
    by (auto split: if_splits) metis+
qed auto

interpretation drain_sys: invariant_system
  "\<lambda>x. \<exists>name mode. x = (sys_init name mode, {})" "topic_step t" "drain_inv t" for t
proof (unfold_locales, goal_cases)
  case (1 x)
  then show ?case
    using one_topic_sys.invar_start [of x t] by (auto simp: drain_inv_def registered_def sys_init_def)
next
  case (2 x y)
  then show ?case
    using one_topic_sys.invar_step [of t x y] registered_step [of x y] sleepers_step [of x y]
    by (simp add: drain_inv_def topic_step_def)
qed

section \<open>Every step is one unit of work\<close>

lemma queue_short:
  assumes "sys_inv s as" and "length (sys_published s) < 2 ^ 64"
  shows "length as < 2 ^ 64" and "unat (mq_size (sys_queue s)) = length as"
proof -
  have "length (sys_published s) = size (mset (sys_published s))" by simp
  also have "\<dots> \<ge> length as" using assms(1) by (simp add: sys_inv_def)
  finally show len: "length as < 2 ^ 64" using assms(2) by simp
  then show "unat (mq_size (sys_queue s)) = length as"
    using assms(1) by (simp add: sys_inv_def mq_shape_def unat_of_nat_u64)
qed

lemma weight_other:
  assumes "thread_step c s = Some s'" and "c' \<noteq> c"
  shows "weight (if falls_asleep c s then insert c W else W) (sys_pc s') c' = weight W (sys_pc s) c'"
  using thread_step_other_pc [OF assms] assms(2) by (simp add: weight_def)

lemma loop_work:
  assumes "sys_inv s as" and "map_of (mq_consumers (sys_queue s)) c = Some cn" and "sys_pc s c = C_Loop"
    and "c \<notin> W" and "thread_step c s = Some s'"
  shows "3 * unat (mq_size (sys_queue s)) + weight W (sys_pc s) c =
    Suc (3 * unat (mq_size (sys_queue s')) + weight (if falls_asleep c s then insert c W else W) (sys_pc s') c)"
proof (cases "cn_active cn \<and> mq_size (sys_queue s) \<noteq> 0")
  case True
  obtain a as' where as: "as = a # as'" using True assms(1) by (cases as) (auto simp: sys_inv_def mq_shape_def)
  then obtain hp tp where "dequeue_message (sys_queue s) =
      Some (Some a, (sys_queue s)\<lparr>mq_head := hp, mq_tail := tp, mq_size := mq_size (sys_queue s) - 1\<rparr>)"
    using dequeue_message_shape [of "sys_queue s" a as'] assms(1) by (auto simp: sys_inv_def)
  with True assms(2,3,5) have "unat (mq_size (sys_queue s')) = unat (mq_size (sys_queue s)) - 1" "sys_pc s' c = C_Holding a"
    by (auto simp: thread_step_def consumer_loop_def unat_minus_one)
  moreover have "0 < unat (mq_size (sys_queue s))" using True by (simp add: unat_gt_0)
  ultimately show ?thesis using True assms(3,4) by (simp add: weight_def falls_asleep_def)
next
  case False
  with assms(2-5) show ?thesis
    by (cases "cn_active cn") (auto simp: thread_step_def consumer_loop_def weight_def falls_asleep_def)
qed

lemma holding_work:
  assumes "sys_inv s as" and "one_topic t s" and "map_of (mq_consumers (sys_queue s)) c = Some cn"
    and "sys_pc s c = C_Holding a" and "thread_step c s = Some s'"
  shows "sys_queue s' = sys_queue s \<and> sys_pc s' c = C_Handled a"
proof -
  have "msg_topic (msg_at (mq_heap (sys_queue s)) a) = t" "cn_topic cn = t"
    using held_published [OF assms(1,4)] assms(2,3) by (auto simp: one_topic_def list_all_iff dest: map_of_SomeD)
  with assms(3-5) show ?thesis
    by (auto simp: thread_step_def consumer_dispatch_def msg_at_def split: Option.bind_splits)
qed

lemma thread_work:
  assumes inv: "drain_inv t (s, W)" and c: "c \<notin> W" and step: "thread_step c s = Some s'"
  shows "3 * unat (mq_size (sys_queue s)) + weight W (sys_pc s) c =
    Suc (3 * unat (mq_size (sys_queue s')) + weight (if falls_asleep c s then insert c W else W) (sys_pc s') c)"
proof -
  obtain as where as: "sys_inv s as" and one: "one_topic t s"
    using inv by (auto simp: drain_inv_def asleep_inv_def)
  obtain cn where cn: "map_of (mq_consumers (sys_queue s)) c = Some cn"
    using step by (auto simp: thread_step_def split: option.splits)
  show ?thesis
  proof (cases "sys_pc s c")
    case C_Loop
    then show ?thesis by (rule loop_work [OF as cn _ c step])
  next
    case (C_Holding a)
    with holding_work [OF as one cn _ step] show ?thesis by (simp add: weight_def falls_asleep_def)
  next
    case (C_Handled a)
    with step cn c show ?thesis
      by (auto simp: thread_step_def consumer_finish_def weight_def falls_asleep_def split: Option.bind_splits)
  next
    case C_Ended
    with step cn show ?thesis by (simp add: thread_step_def)
  qed
qed

lemma consumer_work:
  assumes "drain_inv t x" and "consumer_step x y"
  shows "work_left x = Suc (work_left y)"
  using assms(2,1)
proof (induction rule: consumer_step.induct)
  case (1 c W s s')
  let ?W = "if falls_asleep c s then insert c W else W" and ?C = "fst ` set (mq_consumers (sys_queue s))"
  have c: "c \<in> ?C" using 1(2) by (auto simp: thread_step_def split: option.splits dest: map_of_in_keys)
  have sum: "(\<Sum>c \<in> ?C. f c) = f c + (\<Sum>c \<in> ?C - {c}. f c)" for f :: "addr \<Rightarrow> nat"
    by (rule sum.remove [OF _ c]) simp
  have "(\<Sum>c \<in> ?C - {c}. weight ?W (sys_pc s') c) = (\<Sum>c \<in> ?C - {c}. weight W (sys_pc s) c)"
    using weight_other [OF 1(2)] by (intro sum.cong) auto
  with thread_work [OF 1(3,1,2)] thread_step_frame(1) [OF 1(2)] show ?case
    by (simp add: work_left_def sum)
qed

lemma consumer_topic_step:
  assumes "drain_inv t x" and "consumer_step x y"
  shows "topic_step t x y"
  using consumer_step_sound [OF assms(2)] assms(2,1)
  by (auto simp: topic_step_def drain_inv_def asleep_inv_def one_topic_def thread_step_frame elim!: consumer_step.cases)

lemma consumer_run_work:
  assumes "drain_inv t x" and "(consumer_step ^^ n) x y"
  shows "drain_inv t y" and "work_left x = n + work_left y"
proof -
  have "drain_inv t y \<and> work_left x = n + work_left y"
    using assms(2)
  proof (induction n arbitrary: y)
    case 0
    with assms(1) show ?case by simp
  next
    case (Suc n)
    then obtain z where z: "(consumer_step ^^ n) x z" "consumer_step z y" by (auto elim: relpowp_Suc_E)
    then have inv: "drain_inv t z" "work_left x = n + work_left z" using Suc.IH by auto
    have "drain_inv t y" by (rule drain_sys.invar_step [OF inv(1) consumer_topic_step [OF inv(1) z(2)]])
    with inv(2) consumer_work [OF inv(1) z(2)] show ?case by simp
  qed
  then show "drain_inv t y" "work_left x = n + work_left y" by auto
qed

section \<open>The queue at rest\<close>

text \<open>An active consumer stays subscribed and never ends by itself.\<close>

definition serving :: "addr \<Rightarrow> mq_sys \<Rightarrow> bool" where
  "serving c s \<longleftrightarrow> sys_pc s c \<noteq> C_Ended
     \<and> (case map_of (mq_consumers (sys_queue s)) c of None \<Rightarrow> False | Some cn \<Rightarrow> cn_active cn)"

lemma serving_step:
  assumes "serving c s" and "thread_step c' s = Some s'"
  shows "serving c s'"
proof -
  have "sys_pc s' c \<noteq> C_Ended"
  proof (cases "c' = c")
    case True
    with assms show ?thesis
      by (auto simp: serving_def thread_step_def consumer_loop_def consumer_dispatch_def consumer_finish_def
          split: option.splits consumer_pc.splits Option.bind_splits if_splits)
  next
    case False
    with assms thread_step_other_pc [OF assms(2), of c] show ?thesis by (auto simp: serving_def)
  qed
  with assms(1) thread_step_frame(1) [OF assms(2)] show ?thesis by (simp add: serving_def)
qed

lemma serving_run: "(consumer_step ^^ n) x y \<Longrightarrow> serving c (fst x) \<Longrightarrow> serving c (fst y)"
proof (induction n arbitrary: y)
  case (Suc n)
  then obtain z where "(consumer_step ^^ n) x z" "consumer_step z y" by (auto elim: relpowp_Suc_E)
  moreover from this have "serving c (fst z)" using Suc by blast
  ultimately show ?case by (auto elim!: consumer_step.cases intro: serving_step)
qed simp

text \<open>A thread that has not ended and is not asleep can run its next critical section.\<close>

lemma thread_enabled:
  assumes "sys_inv s as" and "registered s" and "sys_pc s c \<noteq> C_Ended"
  shows "\<exists>s'. thread_step c s = Some s'"
proof -
  obtain cn where cn: "map_of (mq_consumers (sys_queue s)) c = Some cn"
    using assms(2,3) by (force simp: registered_def dest: weak_map_of_SomeI)
  show ?thesis
    using assms(3) cn loop_defined [OF assms(1), of cn] dispatch_defined [OF assms(1), of c _ cn] finish_defined [OF assms(1), of c]
    by (cases "sys_pc s c") (auto simp: thread_step_def)
qed

lemma rest_asleep:
  assumes "drain_inv t (s, W)" and "\<nexists>y. consumer_step (s, W) y" and "sys_pc s c \<noteq> C_Ended"
  shows "c \<in> W" and "sys_pc s c = C_Loop"
proof -
  show "c \<in> W"
    using assms thread_enabled [of s _ c] consumer_step.intros [of c W s]
    by (auto simp: drain_inv_def asleep_inv_def)
  with assms(1) show "sys_pc s c = C_Loop" by (auto simp: drain_inv_def)
qed

lemma rest_drained:
  assumes inv: "drain_inv t (s, W)" and rest: "\<nexists>y. consumer_step (s, W) y" and "serving c s"
    and len: "length (sys_published s) < 2 ^ 64"
  shows "mq_size (sys_queue s) = 0 \<and> mset (sys_published s) = mset (map snd (sys_delivered s)) + mset (sys_discarded s)"
proof -
  have "c \<in> W" using rest_asleep(1) [OF inv rest, of c] assms(3) by (simp add: serving_def)
  then have size: "mq_size (sys_queue s) = 0" using inv by (auto simp: drain_inv_def asleep_inv_def)
  obtain as where as: "sys_inv s as" using inv by (auto simp: drain_inv_def asleep_inv_def)
  then have "as = []" using queue_short(2) [OF as len] size by simp
  moreover have "sys_pc s c \<noteq> C_Holding a" for c a
    using rest_asleep(2) [OF inv rest, of c] by auto
  then have "holding (sys_pc s) = {}" by (simp add: holding_def)
  ultimately show ?thesis using as size by (simp add: sys_inv_def in_flight_def)
qed

lemma run_frame: "(consumer_step ^^ n) x y \<Longrightarrow> sys_published (fst y) = sys_published (fst x)"
proof (induction n arbitrary: y)
  case (Suc n)
  then obtain z where "(consumer_step ^^ n) x z" "consumer_step z y" by (auto elim: relpowp_Suc_E)
  with Suc.IH show ?case by (auto simp: thread_step_frame elim!: consumer_step.cases)
qed simp

text \<open>
  C6: A queue that serves one topic and has an active consumer is drained under every schedule. From
  any reachable state with a consumer that is serving, all runs of the consumer threads that
  cannot be continued have the same length \<open>work_left\<close>, no run is longer, and the queue is then
  empty and every message published has been delivered, except those that were discarded by clear.
\<close>

theorem mqueue_one_topic_drains:
  assumes "(topic_step t)\<^sup>*\<^sup>* (sys_init name mode, {}) (s, W)" and "serving c s"
    and "length (sys_published s) < 2 ^ 64" and "(consumer_step ^^ n) (s, W) (s', W')"
  shows "n \<le> work_left (s, W)
     \<and> ((\<nexists>y. consumer_step (s', W') y) \<longleftrightarrow> n = work_left (s, W))
     \<and> (n = work_left (s, W) \<longrightarrow> mq_size (sys_queue s') = 0
          \<and> mset (sys_published s) = mset (map snd (sys_delivered s')) + mset (sys_discarded s'))"
proof -
  have inv: "drain_inv t (s, W)" by (rule drain_sys.invar_reachable [OF _ assms(1)]) blast
  note run = consumer_run_work [OF inv assms(4)]
  have serve: "serving c s'" and len: "length (sys_published s') < 2 ^ 64" and same: "sys_published s' = sys_published s"
    using serving_run [OF assms(4), of c] run_frame [OF assms(4)] assms(2,3) by simp_all
  have "work_left (s', W') = 0" if "\<nexists>y. consumer_step (s', W') y"
  proof -
    have "mq_size (sys_queue s') = 0"
      using rest_drained [OF run(1) that serve len] by simp
    moreover have "weight W' (sys_pc s') c = 0" for c
      using rest_asleep [OF run(1) that, of c] by (cases "sys_pc s' c") (auto simp: weight_def)
    ultimately show ?thesis by (simp add: work_left_def)
  qed
  moreover have "\<nexists>y. consumer_step (s', W') y" if "work_left (s', W') = 0"
    using consumer_work [OF run(1)] that by fastforce
  ultimately have rest: "(\<nexists>y. consumer_step (s', W') y) \<longleftrightarrow> n = work_left (s, W)" using run(2) by auto
  have "mq_size (sys_queue s') = 0 \<and> mset (sys_published s) = mset (map snd (sys_delivered s')) + mset (sys_discarded s')"
    if "n = work_left (s, W)"
    using rest_drained [OF run(1) _ serve len] rest that same by simp
  with rest run(2) show ?thesis by simp
qed

section \<open>Instance\<close>

text \<open>One message is waiting and one consumer is at the head of its loop.\<close>

definition drain_start :: mq_sys where
  "drain_start = \<lparr>sys_queue = trace_q2, sys_pc = (\<lambda>_. C_Ended)(7 := C_Loop), sys_counter = 1,
     sys_published = [trace_msg], sys_delivered = [], sys_discarded = []\<rparr>"

definition drain_end :: mq_sys where
  "drain_end = drain_start\<lparr>sys_queue := trace_q3\<lparr>mq_total_consumed := 1, mq_heap := Map.empty\<rparr>,
     sys_delivered := [(''t'', trace_msg)]\<rparr>"

lemmas drain_simps = drain_start_def drain_end_def trace_q3_def trace_q2_def trace_q1_def trace_msg_def
  new_message_def mqueue_create_def

lemma drain_start_reached: "(topic_step ''t'')\<^sup>*\<^sup>* (sys_init ''q'' ORDERING_FIFO, {}) (drain_start, {})"
proof -
  let ?s0 = "sys_init ''q'' ORDERING_FIFO"
  let ?s1 = "?s0\<lparr>sys_queue := trace_q1, sys_counter := 1, sys_published := sys_published ?s0 @ [msg_at (mq_heap trace_q1) 1]\<rparr>"
  have w1: "wait_step (?s0, {}) (?s1, {})"
    by (rule wait_step.publish_wakes [where t = "''t''" and p = "[1]" and payload_size = 1 and priority = 0
          and now_id = 5 and now = 6])
      (simp_all add: sys_init_def mqueue_create_def trace_q1_def trace_msg_def new_message_def
        mqueue_publish_with_priority_def message_create_def generate_message_id_def enqueue_message_def)
  have w2: "wait_step (?s1, {}) (?s1\<lparr>sys_queue := trace_q2, sys_pc := (sys_pc ?s1)(7 := C_Loop)\<rparr>, {})"
    by (rule wait_step.new_consumer [where t = "''t''"])
      (simp_all add: mqueue_subscribe_def trace_q2_def trace_q1_def mqueue_create_def sys_init_def)
  have eq: "?s1\<lparr>sys_queue := trace_q2, sys_pc := (sys_pc ?s1)(7 := C_Loop)\<rparr> = drain_start"
    by (simp add: drain_start_def sys_init_def msg_at_def trace_q1_def)
  have "topic_step ''t'' (?s0, {}) (?s1, {})" "topic_step ''t'' (?s1, {}) (drain_start, {})"
    using w1 w2 [unfolded eq]
    by (simp_all add: topic_step_def one_topic_def drain_simps sys_init_def msg_at_def)
  then show ?thesis by (meson converse_rtranclp_into_rtranclp rtranclp.rtrancl_refl)
qed

lemma drain_run: "(consumer_step ^^ 4) (drain_start, {}) (drain_end, {7})"
proof -
  let ?s1 = "drain_start\<lparr>sys_queue := trace_q3, sys_pc := (sys_pc drain_start)(7 := C_Holding 1)\<rparr>"
  let ?s2 = "?s1\<lparr>sys_pc := (sys_pc drain_start)(7 := C_Handled 1), sys_delivered := [(''t'', trace_msg)]\<rparr>"
  have 1: "thread_step 7 drain_start = Some ?s1" "\<not> falls_asleep 7 drain_start"
    by (simp_all add: thread_step_def consumer_loop_def dequeue_message_def falls_asleep_def drain_simps)
  have 2: "thread_step 7 ?s1 = Some ?s2" "\<not> falls_asleep 7 ?s1"
    by (simp_all add: thread_step_def consumer_dispatch_def falls_asleep_def drain_simps)
  have 3: "thread_step 7 ?s2 = Some drain_end" "\<not> falls_asleep 7 ?s2"
    by (simp_all add: thread_step_def consumer_finish_def falls_asleep_def drain_simps)
  have 4: "thread_step 7 drain_end = Some drain_end" "falls_asleep 7 drain_end"
    by (simp_all add: thread_step_def consumer_loop_def falls_asleep_def drain_simps)
  have st: "consumer_step (drain_start, {}) (?s1, {})" "consumer_step (?s1, {}) (?s2, {})"
    "consumer_step (?s2, {}) (drain_end, {})" "consumer_step (drain_end, {}) (drain_end, {7})"
    using consumer_step.intros [of 7 "{}", OF _ 1(1)] consumer_step.intros [of 7 "{}", OF _ 2(1)]
      consumer_step.intros [of 7 "{}", OF _ 3(1)] consumer_step.intros [of 7 "{}", OF _ 4(1)] 1(2) 2(2) 3(2) 4(2)
    by simp_all
  have four: "(4 :: nat) = Suc (Suc (Suc (Suc 0)))" by simp
  from st(4) have "(consumer_step ^^ Suc 0) (drain_end, {}) (drain_end, {7})" by auto
  with st show ?thesis unfolding four by (blast intro: relpowp_Suc_I2)
qed

theorem mqueue_one_topic_drains_witness:
  "work_left (drain_start, {}) = 4 \<and> (\<nexists>y. consumer_step (drain_end, {7}) y) \<and> mq_size (sys_queue drain_end) = 0
   \<and> mset (sys_published drain_start) = mset (map snd (sys_delivered drain_end)) + mset (sys_discarded drain_end)"
proof -
  have "serving 7 drain_start" "length (sys_published drain_start) < 2 ^ 64"
    "work_left (drain_start, {}) = 4"
    by (simp_all add: serving_def work_left_def weight_def drain_simps)
  with mqueue_one_topic_drains [OF drain_start_reached _ _ drain_run, of 7] show ?thesis by simp
qed

end
