(* ===== verification/Service_Registry.thy ===== *)
theory Service_Registry
  imports C_Format
begin

text \<open>
  The service registry of \<^verbatim>\<open>src/distributed/distributed.c\<close>. The list of nodes is reachable from the
  registry only, so it is the list of the services, newest first. The operations that hold the
  lock are single steps. \<open>service_register\<close> takes its id from \<open>next_id\<close> before it takes the
  lock; what that allows is the last section.
\<close>

section \<open>Data and operations\<close>

record service_info_t =
  service_id :: cstr
  service_name :: cstr
  service_host :: cstr
  service_port :: int
  last_heartbeat :: u64
  healthy :: int

record service_registry_t =
  services :: "service_info_t list"
  next_id :: u64

definition service_registry_create :: service_registry_t where
  "service_registry_create = \<lparr>services = [], next_id = 1\<rparr>"

text \<open>The strings that destroying a service, and the whole registry, releases, in order.\<close>

definition service_info_destroy :: "service_info_t option \<Rightarrow> cstr list" where
  "service_info_destroy info =
     (case info of None \<Rightarrow> [] | Some i \<Rightarrow> [service_id i, service_name i, service_host i])"

definition service_registry_destroy :: "service_registry_t option \<Rightarrow> cstr list" where
  "service_registry_destroy registry =
     (case registry of
        None \<Rightarrow> []
      | Some r \<Rightarrow> fold (\<lambda>info freed. freed @ service_info_destroy (Some info)) (services r) [])"

text \<open>The new service, with the id printed into a buffer of 64 bytes.\<close>

definition register_info :: "u64 \<Rightarrow> cstr \<Rightarrow> cstr \<Rightarrow> int \<Rightarrow> u64 \<Rightarrow> service_info_t" where
  "register_info n name host port now =
     \<lparr>service_id = snprintf_buf 64 (''service-'' @ dec (unat n)), service_name = name,
      service_host = host, service_port = port, last_heartbeat = now, healthy = 1\<rparr>"

definition service_register ::
  "service_registry_t option \<Rightarrow> cstr option \<Rightarrow> cstr option \<Rightarrow> int \<Rightarrow> u64 \<Rightarrow>
     error_code_t \<times> service_registry_t option" where
  "service_register registry name host port now =
     (case (registry, name, host) of
        (Some r, Some nm, Some h) \<Rightarrow>
          (SUCCESS, Some (r\<lparr>next_id := next_id r + 1,
             services := register_info (next_id r) nm h port now # services r\<rparr>))
      | _ \<Rightarrow> (ERROR_INVALID_PARAM, registry))"

fun deregister_loop :: "cstr \<Rightarrow> service_info_t list \<Rightarrow> service_info_t list option" where
  "deregister_loop sid [] = None"
| "deregister_loop sid (current # next) =
     (if c_strcmp (service_id current) sid = 0 then Some next
      else map_option ((#) current) (deregister_loop sid next))"

definition service_deregister ::
  "service_registry_t option \<Rightarrow> cstr option \<Rightarrow> error_code_t \<times> service_registry_t option" where
  "service_deregister registry sid =
     (case (registry, sid) of
        (Some r, Some i) \<Rightarrow>
          (case deregister_loop i (services r) of
             Some l \<Rightarrow> (SUCCESS, Some (r\<lparr>services := l\<rparr>))
           | None \<Rightarrow> (ERROR_NOT_FOUND, registry))
      | _ \<Rightarrow> (ERROR_INVALID_PARAM, registry))"

fun heartbeat_loop :: "cstr \<Rightarrow> u64 \<Rightarrow> service_info_t list \<Rightarrow> service_info_t list option" where
  "heartbeat_loop sid now [] = None"
| "heartbeat_loop sid now (current # next) =
     (if c_strcmp (service_id current) sid = 0
      then Some (current\<lparr>last_heartbeat := now, healthy := 1\<rparr> # next)
      else map_option ((#) current) (heartbeat_loop sid now next))"

definition service_heartbeat ::
  "service_registry_t option \<Rightarrow> cstr option \<Rightarrow> u64 \<Rightarrow> error_code_t \<times> service_registry_t option" where
  "service_heartbeat registry sid now =
     (case (registry, sid) of
        (Some r, Some i) \<Rightarrow>
          (case heartbeat_loop i now (services r) of
             Some l \<Rightarrow> (SUCCESS, Some (r\<lparr>services := l\<rparr>))
           | None \<Rightarrow> (ERROR_NOT_FOUND, registry))
      | _ \<Rightarrow> (ERROR_INVALID_PARAM, registry))"

fun discover_loop :: "cstr \<Rightarrow> service_info_t list \<Rightarrow> service_info_t option" where
  "discover_loop name [] = None"
| "discover_loop name (current # next) =
     (if c_strcmp (service_name current) name = 0 \<and> healthy current \<noteq> 0 then Some current
      else discover_loop name next)"

definition service_discover :: "service_registry_t option \<Rightarrow> cstr option \<Rightarrow> service_info_t option" where
  "service_discover registry name =
     (case (registry, name) of
        (Some r, Some nm) \<Rightarrow> discover_loop nm (services r)
      | _ \<Rightarrow> None)"

section \<open>Loops\<close>

abbreviation has_id :: "cstr \<Rightarrow> service_info_t \<Rightarrow> bool" where
  "has_id sid info \<equiv> service_id info = sid"

lemma deregister_loop_remove:
  "deregister_loop sid l = (if find (has_id sid) l = None then None else Some (remove_first (has_id sid) l))"
  by (induction l) simp_all

lemma heartbeat_loop_update:
  "heartbeat_loop sid now l =
     (if find (has_id sid) l = None then None
      else Some (update_first (has_id sid) (\<lambda>i. i\<lparr>last_heartbeat := now, healthy := 1\<rparr>) l))"
  by (induction l) simp_all

lemma discover_loop_find: "discover_loop name l = find (\<lambda>i. service_name i = name \<and> healthy i \<noteq> 0) l"
  by (induction l) simp_all

lemma map_id_update_first:
  "(\<And>i. service_id (f i) = service_id i) \<Longrightarrow> map service_id (update_first P f l) = map service_id l"
  by (induction l) simp_all

section \<open>Ids\<close>

definition svc_id :: "nat \<Rightarrow> cstr" where
  "svc_id n = ''service-'' @ dec n"

lemma svc_id_inj [simp]: "svc_id m = svc_id n \<longleftrightarrow> m = n"
  by (simp add: svc_id_def)

lemma register_info_id: "service_id (register_info n name host port now) = svc_id (unat n)"
  using length_dec_u64 [of n] by (simp add: register_info_def svc_id_def snprintf_buf_fits)

definition reg_inv :: "service_registry_t \<Rightarrow> bool" where
  "reg_inv r \<longleftrightarrow> distinct (map service_id (services r))
     \<and> (\<forall>i \<in> set (services r). \<exists>n < unat (next_id r). service_id i = svc_id n)"

datatype reg_op =
    SR_Register cstr cstr int u64
  | SR_Deregister cstr
  | SR_Heartbeat cstr u64

fun reg_exec :: "service_registry_t \<Rightarrow> reg_op \<Rightarrow> service_registry_t" where
  "reg_exec r (SR_Register name host port now) =
     the (snd (service_register (Some r) (Some name) (Some host) port now))"
| "reg_exec r (SR_Deregister sid) = the (snd (service_deregister (Some r) (Some sid)))"
| "reg_exec r (SR_Heartbeat sid now) = the (snd (service_heartbeat (Some r) (Some sid) now))"

lemma reg_inv_register:
  assumes "reg_inv r" and "unat (next_id r) + 1 < 2 ^ 64"
  shows "reg_inv (reg_exec r (SR_Register name host port now))"
    and "unat (next_id (reg_exec r (SR_Register name host port now))) = unat (next_id r) + 1"
proof -
  let ?r = "reg_exec r (SR_Register name host port now)"
  have nxt: "unat (next_id r + 1) = unat (next_id r) + 1"
    using assms(2) by (simp add: unat_word_ariths)
  then show "unat (next_id ?r) = unat (next_id r) + 1" by (simp add: service_register_def)
  have "svc_id (unat (next_id r)) \<notin> service_id ` set (services r)"
    using assms(1) by (auto simp: reg_inv_def)
  then show "reg_inv ?r"
    using assms(1) nxt by (auto simp: reg_inv_def service_register_def register_info_id less_Suc_eq)
qed

lemma distinct_map_remove_first: "distinct (map f l) \<Longrightarrow> distinct (map f (remove_first P l))"
proof (induction l)
  case (Cons x l)
  then show ?case using set_remove_first [of P l] by auto
qed simp

lemma reg_inv_deregister:
  assumes "reg_inv r"
  shows "reg_inv (reg_exec r (SR_Deregister sid))"
    and "next_id (reg_exec r (SR_Deregister sid)) = next_id r"
  using assms set_remove_first [of "has_id sid" "services r"]
  by (auto simp: reg_inv_def service_deregister_def deregister_loop_remove distinct_map_remove_first)

lemma reg_inv_ids:
  "reg_inv r \<longleftrightarrow> distinct (map service_id (services r))
     \<and> (\<forall>x \<in> set (map service_id (services r)). \<exists>n < unat (next_id r). x = svc_id n)"
  by (auto simp: reg_inv_def)

lemma reg_inv_heartbeat:
  assumes "reg_inv r"
  shows "reg_inv (reg_exec r (SR_Heartbeat sid now))"
    and "next_id (reg_exec r (SR_Heartbeat sid now)) = next_id r"
  using assms unfolding reg_inv_ids
  by (auto simp: service_heartbeat_def heartbeat_loop_update map_id_update_first simp del: set_map)

lemma reg_inv_create: "reg_inv service_registry_create"
  by (simp add: reg_inv_def service_registry_create_def)

lemma reg_run:
  assumes "reg_inv r" and "unat (next_id r) + length ops < 2 ^ 64"
  shows "reg_inv (foldl reg_exec r ops)"
  using assms
proof (induction ops arbitrary: r)
  case Nil
  then show ?case by simp
next
  case (Cons x ops)
  have "reg_inv (reg_exec r x) \<and> unat (next_id (reg_exec r x)) \<le> unat (next_id r) + 1"
    using reg_inv_register [of r] reg_inv_deregister [of r] reg_inv_heartbeat [of r] Cons.prems
    by (cases x) auto
  with Cons.IH [of "reg_exec r x"] Cons.prems show ?case by simp
qed

section \<open>Discovery\<close>

lemma remove_first_key:
  assumes "distinct (map f l)"
  shows "remove_first (\<lambda>x. f x = k) l = filter (\<lambda>x. f x \<noteq> k) l"
  using assms
proof (induction l)
  case (Cons x l)
  then show ?case by (auto intro!: filter_True [symmetric] simp: rev_image_eqI)
qed simp

text \<open>
  Deregistering a service takes exactly that service out. In a registry whose ids are
  pairwise different, \<open>service_deregister\<close> of an id in use succeeds and leaves the other services
  as they were and in order, so discovery answers as if that service had never registered.
\<close>

lemma service_deregister_exact:
  assumes "distinct (map service_id (services r))" and "sid \<in> service_id ` set (services r)"
  shows "\<exists>r'. service_deregister (Some r) (Some sid) = (SUCCESS, Some r')
    \<and> services r' = filter (\<lambda>i. service_id i \<noteq> sid) (services r)
    \<and> (\<forall>name. service_discover (Some r') (Some name) =
         find (\<lambda>i. service_name i = name \<and> healthy i \<noteq> 0 \<and> service_id i \<noteq> sid) (services r))"
proof -
  have "find (has_id sid) (services r) \<noteq> None"
    using assms(2) by (auto simp: find_None_iff)
  moreover have "find P (filter Q l) = find (\<lambda>x. P x \<and> Q x) l" for P Q and l :: "service_info_t list"
    by (induction l) auto
  ultimately show ?thesis
    by (simp add: service_deregister_def deregister_loop_remove remove_first_key [OF assms(1)]
        service_discover_def discover_loop_find conj_assoc)
qed

text \<open>
  C29: Used one call at a time, the registry never has two services with the same id: after any
  sequence of fewer than \<open>2 ^ 64 - 1\<close> register, deregister and heartbeat calls the ids of the
  registered services are pairwise different, and deregistering an id in use takes out exactly
  that service, so discovery answers as if it had never registered.
\<close>

theorem service_ids_unique:
  assumes "length ops + 1 < 2 ^ 64" and "r = foldl reg_exec service_registry_create ops"
  shows "distinct (map service_id (services r))
    \<and> (\<forall>sid \<in> service_id ` set (services r). \<exists>r'. service_deregister (Some r) (Some sid) = (SUCCESS, Some r')
        \<and> services r' = filter (\<lambda>i. service_id i \<noteq> sid) (services r)
        \<and> (\<forall>name. service_discover (Some r') (Some name) =
             find (\<lambda>i. service_name i = name \<and> healthy i \<noteq> 0 \<and> service_id i \<noteq> sid) (services r)))"
proof -
  have "unat (next_id service_registry_create) = 1" by (simp add: service_registry_create_def)
  with reg_run [OF reg_inv_create, of ops] assms have d: "distinct (map service_id (services r))"
    by (simp add: reg_inv_def)
  show ?thesis using d service_deregister_exact [OF d] by blast
qed

theorem service_ids_unique_witness:
  "\<exists>r. r = foldl reg_exec service_registry_create
     [SR_Register ''a'' ''h1'' 80 5, SR_Register ''a'' ''h2'' 81 6, SR_Deregister ''service-1'',
      SR_Register ''b'' ''h3'' 82 7] \<and> distinct (map service_id (services r))"
  using service_ids_unique [of "[SR_Register ''a'' ''h1'' 80 5, SR_Register ''a'' ''h2'' 81 6,
     SR_Deregister ''service-1'', SR_Register ''b'' ''h3'' 82 7]", OF _ refl] by simp

section \<open>Registering from several threads\<close>

text \<open>
  \<open>registry->next_id++\<close> is a load and a store outside the lock; linking the node is under the
  lock. A thread is between two of these accesses, with the value it has loaded.
\<close>

datatype reg_pc = R_Start | R_Loaded u64 | R_Stored u64 | R_Done

type_synonym reg_call = "cstr \<times> cstr \<times> int \<times> u64"

fun reg_info_of :: "reg_call \<Rightarrow> u64 \<Rightarrow> service_info_t" where
  "reg_info_of (name, host, port, now) n = register_info n name host port now"

inductive reg_step ::
  "(nat \<Rightarrow> reg_call) \<Rightarrow> service_registry_t \<times> (nat \<Rightarrow> reg_pc) \<Rightarrow> service_registry_t \<times> (nat \<Rightarrow> reg_pc) \<Rightarrow> bool"
  for call where
  load: "pc t = R_Start \<Longrightarrow> reg_step call (r, pc) (r, pc(t := R_Loaded (next_id r)))"
| store: "pc t = R_Loaded n \<Longrightarrow> reg_step call (r, pc) (r\<lparr>next_id := n + 1\<rparr>, pc(t := R_Stored n))"
| link: "pc t = R_Stored n \<Longrightarrow>
    reg_step call (r, pc) (r\<lparr>services := reg_info_of (call t) n # services r\<rparr>, pc(t := R_Done))"

lemma reg_step_alone:
  assumes "pc t = R_Start" and "call t = (name, host, port, now)"
  shows "(reg_step call)\<^sup>*\<^sup>* (r, pc)
    (the (snd (service_register (Some r) (Some name) (Some host) port now)), pc(t := R_Done))"
proof -
  let ?n = "next_id r"
  have "reg_step call (r, pc) (r, pc(t := R_Loaded ?n))"
    by (rule reg_step.load) (rule assms(1))
  moreover have "reg_step call (r, pc(t := R_Loaded ?n)) (r\<lparr>next_id := ?n + 1\<rparr>, pc(t := R_Stored ?n))"
    using reg_step.store [of "pc(t := R_Loaded ?n)" t ?n call r] by simp
  moreover have "reg_step call (r\<lparr>next_id := ?n + 1\<rparr>, pc(t := R_Stored ?n))
      (r\<lparr>next_id := ?n + 1, services := reg_info_of (call t) ?n # services r\<rparr>, pc(t := R_Done))"
    using reg_step.link [of "pc(t := R_Stored ?n)" t ?n call "r\<lparr>next_id := ?n + 1\<rparr>"] by simp
  ultimately show ?thesis using assms(2) by (simp add: service_register_def)
qed

text \<open>
  C38: The increment of \<open>next_id\<close> outside the lock loses the uniqueness of ids: whatever two
  threads register, there is an interleaving in which both registrations complete and the two
  services have the same id.
\<close>

theorem service_register_race:
  "\<exists>r pc. (reg_step call)\<^sup>*\<^sup>* (service_registry_create, \<lambda>t. R_Start) (r, pc)
     \<and> pc 0 = R_Done \<and> pc 1 = R_Done
     \<and> map service_id (services r) = [svc_id 1, svc_id 1]"
proof -
  let ?r = "service_registry_create" and ?p = "\<lambda>t::nat. R_Start"
  let ?i = "\<lambda>t. reg_info_of (call t) 1"
  let ?p2 = "?p(0 := R_Loaded 1, Suc 0 := R_Loaded 1)"
  have one: "next_id ?r = 1" "services ?r = []" by (simp_all add: service_registry_create_def)
  have "reg_step call (?r, ?p) (?r, ?p(0 := R_Loaded 1))"
    using reg_step.load [of ?p 0 call ?r] one by simp
  moreover have "reg_step call (?r, ?p(0 := R_Loaded 1)) (?r, ?p2)"
    using reg_step.load [of "?p(0 := R_Loaded 1)" "Suc 0" call ?r] one by simp
  moreover have "reg_step call (?r, ?p2) (?r\<lparr>next_id := 2\<rparr>, ?p2(0 := R_Stored 1))"
    using reg_step.store [of ?p2 0 1 call ?r] by simp
  moreover have "reg_step call (?r\<lparr>next_id := 2\<rparr>, ?p2(0 := R_Stored 1))
      (?r\<lparr>next_id := 2\<rparr>, ?p2(0 := R_Stored 1, Suc 0 := R_Stored 1))"
    using reg_step.store [of "?p2(0 := R_Stored 1)" "Suc 0" 1 call "?r\<lparr>next_id := 2\<rparr>"] by simp
  moreover have "reg_step call (?r\<lparr>next_id := 2\<rparr>, ?p2(0 := R_Stored 1, Suc 0 := R_Stored 1))
      (?r\<lparr>next_id := 2, services := [?i 0]\<rparr>, ?p2(0 := R_Done, Suc 0 := R_Stored 1))"
    using reg_step.link [of "?p2(0 := R_Stored 1, Suc 0 := R_Stored 1)" 0 1 call "?r\<lparr>next_id := 2\<rparr>"] one
    by (simp add: fun_upd_twist)
  moreover have "reg_step call (?r\<lparr>next_id := 2, services := [?i 0]\<rparr>, ?p2(0 := R_Done, Suc 0 := R_Stored 1))
      (?r\<lparr>next_id := 2, services := [?i 1, ?i 0]\<rparr>, ?p2(0 := R_Done, Suc 0 := R_Done))"
    using reg_step.link [of "?p2(0 := R_Done, Suc 0 := R_Stored 1)" "Suc 0" 1 call
      "?r\<lparr>next_id := 2, services := [?i 0]\<rparr>"] by simp
  ultimately have "(reg_step call)\<^sup>*\<^sup>* (?r, ?p)
      (?r\<lparr>next_id := 2, services := [?i 1, ?i 0]\<rparr>, ?p2(0 := R_Done, Suc 0 := R_Done))" by simp
  moreover have "service_id (?i t) = svc_id 1" for t
    by (cases "call t") (simp add: register_info_id)
  ultimately show ?thesis by (intro exI conjI) (assumption, simp_all)
qed

end
