(* ===== verification/Auth_Token.thy ===== *)
theory Auth_Token
  imports C_Format
begin

text \<open>
  The authentication tokens of \<^verbatim>\<open>src/distributed/distributed.c\<close>: their life time, computed on 64-bit
  words, and the text form that \<open>auth_token_serialize\<close> prints and \<open>auth_token_deserialize\<close> scans.
\<close>

record auth_token_t =
  user_id :: cstr
  created_at :: u64
  ttl_seconds :: u64

definition auth_token_create :: "cstr option \<Rightarrow> u64 \<Rightarrow> u64 \<Rightarrow> auth_token_t option" where
  "auth_token_create uid ttl now =
     map_option (\<lambda>u. \<lparr>user_id = u, created_at = now, ttl_seconds = ttl\<rparr>) uid"

text \<open>The strings \<open>auth_token_destroy\<close> releases with the token.\<close>

definition auth_token_destroy :: "auth_token_t option \<Rightarrow> cstr list" where
  "auth_token_destroy token = (case token of None \<Rightarrow> [] | Some t \<Rightarrow> [user_id t])"

definition auth_token_validate :: "auth_token_t option \<Rightarrow> u64 \<Rightarrow> bool" where
  "auth_token_validate token now =
     (case token of
        None \<Rightarrow> False
      | Some t \<Rightarrow>
          let age_ms = now - created_at t;
              ttl_ms = ttl_seconds t * 1000
          in age_ms < ttl_ms)"

definition auth_token_serialize :: "auth_token_t option \<Rightarrow> cstr option" where
  "auth_token_serialize token =
     map_option (\<lambda>t. snprintf_buf 256
       (user_id t @ '':'' @ dec (unat (created_at t)) @ '':'' @ dec (unat (ttl_seconds t)))) token"

text \<open>
  The conversions of the \<open>sscanf\<close> call. It returns 3 when all of them match, and then only are
  the three variables used.
\<close>

definition scan_token :: "cstr \<Rightarrow> (cstr \<times> u64 \<times> u64) option" where
  "scan_token s = do {
     (uid, s1) \<leftarrow> scan_set 127 (\<lambda>c. c \<noteq> CHR '':'') s;
     s2 \<leftarrow> scan_lit (CHR '':'') s1;
     (created, s3) \<leftarrow> scan_lu s2;
     s4 \<leftarrow> scan_lit (CHR '':'') s3;
     (ttl, s5) \<leftarrow> scan_lu s4;
     Some (uid, created, ttl)
   }"

definition auth_token_deserialize :: "cstr option \<Rightarrow> auth_token_t option" where
  "auth_token_deserialize token_str =
     (case token_str of
        None \<Rightarrow> None
      | Some s \<Rightarrow>
          if length s > 256 then None
          else map_option (\<lambda>(uid, created, ttl).
            \<lparr>user_id = uid, created_at = created, ttl_seconds = ttl\<rparr>) (scan_token s))"

definition auth_token_get_user_id :: "auth_token_t option \<Rightarrow> cstr option" where
  "auth_token_get_user_id token = map_option user_id token"

section \<open>Life time\<close>

text \<open>
  A token is valid exactly during its life time: read by a clock that has not gone back
  since the token was made, and with a life time whose milliseconds fit in 64 bits, it is
  accepted when and only when fewer than \<open>1000 * ttl_seconds\<close> milliseconds have passed.
\<close>

theorem auth_token_window:
  assumes "auth_token_create (Some uid) ttl made = Some t"
    and "made \<le> now" and "unat ttl * 1000 < 2 ^ 64"
  shows "auth_token_validate (Some t) now \<longleftrightarrow> unat now < unat made + 1000 * unat ttl"
proof -
  have "unat (now - made) = unat now - unat made" using assms(2) by (rule unat_sub)
  moreover have "unat (ttl * 1000) = unat ttl * 1000"
    using assms(3) by (simp add: unat_word_ariths)
  moreover have "unat made \<le> unat now" using assms(2) by (simp add: word_le_nat_alt)
  ultimately show ?thesis
    using assms(1) by (auto simp: auth_token_create_def auth_token_validate_def word_less_nat_alt)
qed

theorem auth_token_window_witness:
  "auth_token_validate (Some \<lparr>user_id = ''alice'', created_at = 5000, ttl_seconds = 60\<rparr>) 64999
   \<and> \<not> auth_token_validate (Some \<lparr>user_id = ''alice'', created_at = 5000, ttl_seconds = 60\<rparr>) 65000"
proof -
  have c: "auth_token_create (Some ''alice'') 60 5000
      = Some \<lparr>user_id = ''alice'', created_at = 5000, ttl_seconds = 60\<rparr>"
    by (simp add: auth_token_create_def)
  show ?thesis
    using auth_token_window [OF c, of 64999] auth_token_window [OF c, of 65000] by simp
qed

section \<open>Text form\<close>

lemma colon_no_digit [simp]: "\<not> is_digit (CHR '':'')"
  by (simp add: is_digit_def)

lemma scan_token_text:
  assumes "uid \<noteq> []" and "length uid \<le> 127" and "CHR '':'' \<notin> set uid"
    and "rest = [] \<or> \<not> is_digit (hd rest)"
  shows "scan_token (uid @ CHR '':'' # dec (unat c) @ CHR '':'' # dec (unat t) @ rest) = Some (uid, c, t)"
proof -
  have "scan_set 127 (\<lambda>c. c \<noteq> CHR '':'') (uid @ CHR '':'' # dec (unat c) @ CHR '':'' # dec (unat t) @ rest)
      = Some (uid, CHR '':'' # dec (unat c) @ CHR '':'' # dec (unat t) @ rest)"
    using assms(1-3) by (intro scan_set_word) auto
  moreover have "scan_lu (dec (unat c) @ CHR '':'' # dec (unat t) @ rest)
      = Some (c, CHR '':'' # dec (unat t) @ rest)" by (rule scan_lu_dec) simp
  moreover have "scan_lu (dec (unat t) @ rest) = Some (t, rest)" by (rule scan_lu_dec) (rule assms(4))
  ultimately show ?thesis by (simp add: scan_token_def)
qed

text \<open>
  C25: Serialisation loses nothing for ordinary user ids: a token whose user id is not empty, has
  at most 127 characters and no colon is read back as the same token.
\<close>

theorem auth_token_roundtrip:
  assumes "user_id t \<noteq> []" and "length (user_id t) \<le> 127" and "CHR '':'' \<notin> set (user_id t)"
  shows "auth_token_deserialize (auth_token_serialize (Some t)) = Some t"
proof -
  let ?s = "user_id t @ CHR '':'' # dec (unat (created_at t)) @ CHR '':'' # dec (unat (ttl_seconds t))"
  have "length ?s < 256"
    using assms(2) length_dec_u64 [of "created_at t"] length_dec_u64 [of "ttl_seconds t"] by simp
  then have "auth_token_serialize (Some t) = Some ?s" and "\<not> length ?s > 256"
    by (simp_all add: auth_token_serialize_def snprintf_buf_fits)
  moreover have "scan_token ?s = Some (user_id t, created_at t, ttl_seconds t)"
    using scan_token_text [OF assms, of "[]"] by simp
  ultimately show ?thesis by (simp add: auth_token_deserialize_def)
qed

theorem auth_token_roundtrip_witness:
  "auth_token_deserialize (auth_token_serialize
     (Some \<lparr>user_id = ''alice'', created_at = 1700000000000, ttl_seconds = 3600\<rparr>))
   = Some \<lparr>user_id = ''alice'', created_at = 1700000000000, ttl_seconds = 3600\<rparr>"
  by (rule auth_token_roundtrip) simp_all

text \<open>
  C39: The separator is not escaped, so a user id can carry the fields of another token: whoever
  may choose the user id \<open>victim:c:l\<close> is read back as \<open>victim\<close>, with a creation time and a life
  time of their choice, whatever the time and the life time the token was made with.
\<close>

theorem auth_token_forged:
  assumes "victim \<noteq> []" and "length victim \<le> 127" and "CHR '':'' \<notin> set victim"
  shows "auth_token_deserialize (auth_token_serialize (auth_token_create
      (Some (victim @ '':'' @ dec (unat c) @ '':'' @ dec (unat l))) ttl now))
    = Some \<lparr>user_id = victim, created_at = c, ttl_seconds = l\<rparr>"
proof -
  let ?rest = "CHR '':'' # dec (unat now) @ CHR '':'' # dec (unat ttl)"
  let ?s = "victim @ CHR '':'' # dec (unat c) @ CHR '':'' # dec (unat l) @ ?rest"
  have "length ?s < 256"
    using assms(2) length_dec_u64 [of c] length_dec_u64 [of l]
      length_dec_u64 [of now] length_dec_u64 [of ttl] by simp
  then have "auth_token_serialize (auth_token_create
      (Some (victim @ '':'' @ dec (unat c) @ '':'' @ dec (unat l))) ttl now) = Some ?s"
    and "\<not> length ?s > 256"
    by (simp_all add: auth_token_serialize_def auth_token_create_def snprintf_buf_fits)
  moreover have "scan_token ?s = Some (victim, c, l)"
    by (rule scan_token_text [OF assms]) simp
  ultimately show ?thesis by (simp add: auth_token_deserialize_def)
qed

theorem auth_token_forged_witness:
  "auth_token_deserialize (auth_token_serialize (auth_token_create
      (Some (''root'' @ '':'' @ dec (unat (5000 :: u64)) @ '':'' @ dec (unat (9999 :: u64)))) 1 77))
    = Some \<lparr>user_id = ''root'', created_at = 5000, ttl_seconds = 9999\<rparr>"
  by (rule auth_token_forged) simp_all

end
