(* ===== verification/Rate_Limiter.thy ===== *)
theory Rate_Limiter
  imports Common
begin

text \<open>
  The rate limiter of \<^verbatim>\<open>src/distributed/distributed.c\<close>: per client a counter and the start of the
  current window. The entries are reachable from the limiter only and every operation holds its
  lock, so the state is the list of the entries and an operation is one step. The specification
  gives each client a counter of its own; the list of entries implements it.
\<close>

section \<open>Data and operations\<close>

record rate_limit_entry_t =
  client_id :: cstr
  request_count :: int
  window_start :: u64

record rate_limiter_t =
  max_requests :: int
  window_ms :: u64
  entries :: "rate_limit_entry_t list"

definition rate_limiter_create :: "int \<Rightarrow> u64 \<Rightarrow> rate_limiter_t" where
  "rate_limiter_create max_req win = \<lparr>max_requests = max_req, window_ms = win, entries = []\<rparr>"

text \<open>The client ids whose memory \<open>rate_limiter_destroy\<close> releases, in order.\<close>

definition rate_limiter_destroy :: "rate_limiter_t option \<Rightarrow> cstr list" where
  "rate_limiter_destroy limiter =
     (case limiter of None \<Rightarrow> [] | Some l \<Rightarrow> fold (\<lambda>e freed. freed @ [client_id e]) (entries l) [])"

fun find_entry :: "cstr \<Rightarrow> rate_limit_entry_t list \<Rightarrow> rate_limit_entry_t option" where
  "find_entry cid [] = None"
| "find_entry cid (entry # next) =
     (if c_strcmp (client_id entry) cid = 0 then Some entry else find_entry cid next)"

text \<open>An assignment through \<open>entry\<close>, the first node with this client id.\<close>

abbreviation set_entry :: "cstr \<Rightarrow> rate_limit_entry_t \<Rightarrow> rate_limit_entry_t list \<Rightarrow> rate_limit_entry_t list" where
  "set_entry cid e \<equiv> update_first (\<lambda>x. client_id x = cid) (\<lambda>_. e)"

definition rate_limiter_allow ::
  "rate_limiter_t option \<Rightarrow> cstr option \<Rightarrow> u64 \<Rightarrow> bool \<times> rate_limiter_t option" where
  "rate_limiter_allow limiter cid now =
     (case (limiter, cid) of
        (Some l, Some c) \<Rightarrow>
          let (entry, es) =
                (case find_entry c (entries l) of
                   Some e \<Rightarrow> (e, entries l)
                 | None \<Rightarrow>
                     let e = \<lparr>client_id = c, request_count = 0, window_start = now\<rparr>
                     in (e, e # entries l));
              entry = (if now - window_start entry > window_ms l
                       then entry\<lparr>window_start := now, request_count := 0\<rparr> else entry)
          in if request_count entry \<ge> max_requests l
             then (False, Some (l\<lparr>entries := set_entry c entry es\<rparr>))
             else (True, Some (l\<lparr>entries :=
               set_entry c (entry\<lparr>request_count := request_count entry + 1\<rparr>) es\<rparr>))
      | _ \<Rightarrow> (False, limiter))"

fun reset_loop :: "cstr \<Rightarrow> rate_limit_entry_t list \<Rightarrow> rate_limit_entry_t list option" where
  "reset_loop cid [] = None"
| "reset_loop cid (entry # next) =
     (if c_strcmp (client_id entry) cid = 0 then Some next
      else map_option ((#) entry) (reset_loop cid next))"

definition rate_limiter_reset ::
  "rate_limiter_t option \<Rightarrow> cstr option \<Rightarrow> error_code_t \<times> rate_limiter_t option" where
  "rate_limiter_reset limiter cid =
     (case (limiter, cid) of
        (Some l, Some c) \<Rightarrow>
          (case reset_loop c (entries l) of
             Some es \<Rightarrow> (SUCCESS, Some (l\<lparr>entries := es\<rparr>))
           | None \<Rightarrow> (ERROR_NOT_FOUND, limiter))
      | _ \<Rightarrow> (ERROR_INVALID_PARAM, limiter))"

section \<open>The specification of one client\<close>

text \<open>The counter and the start of the window, \<open>None\<close> before the first request.\<close>

type_synonym window = "(int \<times> u64) option"

definition window_request :: "int \<Rightarrow> u64 \<Rightarrow> u64 \<Rightarrow> window \<Rightarrow> bool \<times> window" where
  "window_request max_req win now w =
     (let (n, start) =
            (case w of None \<Rightarrow> (0, now) | Some (n, start) \<Rightarrow> if now - start > win then (0, now) else (n, start))
      in if n \<ge> max_req then (False, Some (n, start)) else (True, Some (n + 1, start)))"

definition rl_window :: "rate_limiter_t \<Rightarrow> cstr \<Rightarrow> window" where
  "rl_window l c = map_option (\<lambda>e. (request_count e, window_start e)) (find_entry c (entries l))"

lemma find_entry_find: "find_entry c es = find (\<lambda>e. client_id e = c) es"
  by (induction es) simp_all

lemma find_entry_Some: "find_entry c es = Some e \<Longrightarrow> client_id e = c"
  by (induction es) (simp_all split: if_splits)

lemma find_set_entry:
  assumes "client_id e = c"
  shows "find_entry c' (set_entry c e es) =
    (if c' = c then map_option (\<lambda>_. e) (find_entry c es) else find_entry c' es)"
  using assms by (induction es) auto

lemma ids_set_entry: "client_id e = c \<Longrightarrow> map client_id (set_entry c e es) = map client_id es"
  by (induction es) auto

definition rl_inv :: "rate_limiter_t \<Rightarrow> bool" where
  "rl_inv l \<longleftrightarrow> distinct (map client_id (entries l))
     \<and> (\<forall>e \<in> set (entries l). 0 \<le> request_count e \<and> request_count e \<le> max 0 (max_requests l))"

lemma allow_window:
  assumes "rate_limiter_allow (Some l) (Some c) now = (ok, l')"
  shows "\<exists>r. l' = Some r \<and> max_requests r = max_requests l \<and> window_ms r = window_ms l
    \<and> (ok, rl_window r c) = window_request (max_requests l) (window_ms l) now (rl_window l c)
    \<and> (\<forall>d. d \<noteq> c \<longrightarrow> rl_window r d = rl_window l d)"
proof (cases "find_entry c (entries l)")
  case None
  show ?thesis
  proof (cases "max_requests l \<le> 0")
    case True
    then have "ok = False" "l' = Some (l\<lparr>entries :=
        \<lparr>client_id = c, request_count = 0, window_start = now\<rparr> # entries l\<rparr>)"
      using assms None by (simp_all add: rate_limiter_allow_def Let_def)
    then show ?thesis using None True by (simp add: rl_window_def window_request_def)
  next
    case False
    then have "ok = True" "l' = Some (l\<lparr>entries :=
        \<lparr>client_id = c, request_count = 1, window_start = now\<rparr> # entries l\<rparr>)"
      using assms None by (simp_all add: rate_limiter_allow_def Let_def)
    then show ?thesis using None False by (simp add: rl_window_def window_request_def)
  qed
next
  case (Some e)
  define e1 where "e1 = (if now - window_start e > window_ms l
    then e\<lparr>window_start := now, request_count := 0\<rparr> else e)"
  define e2 where "e2 = (if request_count e1 \<ge> max_requests l then e1
    else e1\<lparr>request_count := request_count e1 + 1\<rparr>)"
  have "client_id e2 = c" using find_entry_Some [OF Some] by (simp add: e1_def e2_def)
  then have "find_entry d (set_entry c e2 (entries l)) = (if d = c then Some e2 else find_entry d (entries l))" for d
    using Some by (simp add: find_set_entry)
  moreover have "(ok, l') = (\<not> request_count e1 \<ge> max_requests l, Some (l\<lparr>entries := set_entry c e2 (entries l)\<rparr>))"
    unfolding assms [symmetric]
    by (simp add: rate_limiter_allow_def Some e2_def flip: e1_def)
  moreover have "window_request (max_requests l) (window_ms l) now (rl_window l c)
      = (\<not> request_count e1 \<ge> max_requests l, Some (request_count e2, window_start e2))"
    by (simp add: window_request_def rl_window_def Some e1_def e2_def)
  ultimately show ?thesis by (simp add: rl_window_def)
qed

lemma set_set_entry: "x \<in> set (set_entry c e es) \<Longrightarrow> x = e \<or> x \<in> set es"
  using set_update_first [of "\<lambda>x. client_id x = c" "\<lambda>_. e" es] by auto

text \<open>
  The list of entries implements one window counter per client. A request changes the
  window of its own client only, and is admitted, counted or refused exactly as that client's
  fixed-window counter says; no request of one client can use up the allowance of another.
\<close>

lemma rate_limiter_allow_refines:
  assumes "rate_limiter_allow (Some l) (Some c) now = (ok, Some l')"
  shows "(ok, rl_window l' c) = window_request (max_requests l) (window_ms l) now (rl_window l c)
    \<and> (\<forall>d. d \<noteq> c \<longrightarrow> rl_window l' d = rl_window l d)"
  using allow_window [OF assms] by (simp only: option.inject) blast

section \<open>Invariant\<close>

lemma rl_inv_set_entry:
  assumes "distinct (map client_id es)" and "\<forall>x \<in> set es. 0 \<le> request_count x \<and> request_count x \<le> m"
    and "client_id e = c" and "0 \<le> request_count e" and "request_count e \<le> m"
  shows "distinct (map client_id (set_entry c e es))
    \<and> (\<forall>x \<in> set (set_entry c e es). 0 \<le> request_count x \<and> request_count x \<le> m)"
  using assms set_set_entry [of _ c e es] by (metis ids_set_entry)

lemma rl_inv_allow:
  assumes "rl_inv l" and "rate_limiter_allow (Some l) (Some c) now = (ok, Some l')"
  shows "rl_inv l'"
proof -
  let ?m = "max 0 (max_requests l)"
  obtain e es where es: "(case find_entry c (entries l) of
        Some e \<Rightarrow> (e, entries l)
      | None \<Rightarrow> let e = \<lparr>client_id = c, request_count = 0, window_start = now\<rparr> in (e, e # entries l)) = (e, es)"
    by fastforce
  then have es_ok: "distinct (map client_id es)"
      "\<forall>x \<in> set es. 0 \<le> request_count x \<and> request_count x \<le> ?m" and e: "client_id e = c" "e \<in> set es"
    using assms(1) find_entry_Some [of c "entries l" e]
    by (auto simp: rl_inv_def find_entry_find find_None_iff find_Some_iff Let_def split: option.splits)
  define e1 where "e1 = (if now - window_start e > window_ms l
    then e\<lparr>window_start := now, request_count := 0\<rparr> else e)"
  define e2 where "e2 = (if request_count e1 \<ge> max_requests l then e1
    else e1\<lparr>request_count := request_count e1 + 1\<rparr>)"
  have "client_id e2 = c" "0 \<le> request_count e2" "request_count e2 \<le> ?m"
    using e es_ok by (auto simp: e1_def e2_def)
  moreover have "l' = l\<lparr>entries := set_entry c e2 es\<rparr>"
    using assms(2) by (auto simp: rate_limiter_allow_def es e2_def Let_def simp flip: e1_def split: if_splits)
  ultimately show ?thesis
    using rl_inv_set_entry [OF es_ok, of e2 c] by (simp add: rl_inv_def)
qed

lemma reset_loop_remove: "reset_loop c es = Some es' \<Longrightarrow> es' = remove_first (\<lambda>e. client_id e = c) es"
  by (induction es arbitrary: es') (auto split: if_splits)

datatype rl_op = RL_Allow cstr u64 | RL_Reset cstr

fun rl_exec :: "rate_limiter_t \<Rightarrow> rl_op \<Rightarrow> rate_limiter_t" where
  "rl_exec l (RL_Allow c now) = the (snd (rate_limiter_allow (Some l) (Some c) now))"
| "rl_exec l (RL_Reset c) = the (snd (rate_limiter_reset (Some l) (Some c)))"

lemma rl_inv_exec:
  assumes "rl_inv l"
  shows "rl_inv (rl_exec l x) \<and> max_requests (rl_exec l x) = max_requests l"
proof (cases x)
  case (RL_Allow c now)
  obtain ok l' where a: "rate_limiter_allow (Some l) (Some c) now = (ok, l')" by fastforce
  from allow_window [OF a] obtain r where "l' = Some r" "max_requests r = max_requests l" by blast
  with rl_inv_allow [OF assms, of c now ok r] a RL_Allow show ?thesis by simp
next
  case (RL_Reset c)
  have "distinct (map client_id (remove_first P es))" if "distinct (map client_id es)" for P es
    using that set_remove_first [of P] by (induction es) auto
  then show ?thesis
    using assms RL_Reset set_remove_first [of "\<lambda>e. client_id e = c" "entries l"]
    by (auto simp: rate_limiter_reset_def rl_inv_def dest!: reset_loop_remove split: option.splits)
qed

text \<open>
  In every state that requests and resets reach from a new limiter each client has one
  entry and its counter is between 0 and the limit, so incrementing it never overflows an
  \<open>int\<close>.
\<close>

lemma rate_limiter_counts_bounded:
  assumes "l = foldl rl_exec (rate_limiter_create m win) ops"
  shows "distinct (map client_id (entries l))
    \<and> (\<forall>e \<in> set (entries l). 0 \<le> request_count e \<and> request_count e \<le> max 0 m)"
proof -
  have run: "rl_inv (foldl rl_exec l0 ops) \<and> max_requests (foldl rl_exec l0 ops) = max_requests l0" if "rl_inv l0" for l0
    using that rl_inv_exec by (induction ops arbitrary: l0) simp_all
  have inv: "rl_inv (rate_limiter_create m win)" and m: "max_requests (rate_limiter_create m win) = m"
    by (simp_all add: rl_inv_def rate_limiter_create_def)
  have "rl_inv l \<and> max_requests l = m" using run [OF inv] by (simp add: assms m)
  then show ?thesis by (auto simp: rl_inv_def)
qed

section \<open>Refinement\<close>

text \<open>The windows of all clients under a sequence of requests and resets.\<close>

fun window_spec :: "int \<Rightarrow> u64 \<Rightarrow> (cstr \<Rightarrow> window) \<Rightarrow> rl_op \<Rightarrow> cstr \<Rightarrow> window" where
  "window_spec m win w (RL_Allow c now) = w(c := snd (window_request m win now (w c)))"
| "window_spec m win w (RL_Reset c) = w(c := None)"

definition rl_rel :: "int \<Rightarrow> u64 \<Rightarrow> rate_limiter_t \<Rightarrow> (cstr \<Rightarrow> window) \<Rightarrow> bool" where
  "rl_rel m win l w \<longleftrightarrow> rl_inv l \<and> max_requests l = m \<and> window_ms l = win \<and> rl_window l = w"

lemma reset_window:
  assumes "rl_inv l"
  shows "rl_window (rl_exec l (RL_Reset c)) = (rl_window l)(c := None)"
    and "window_ms (rl_exec l (RL_Reset c)) = window_ms l"
proof -
  have "find_entry d (remove_first (\<lambda>e. client_id e = c) es) = (if d = c then None else find_entry d es)"
    if "distinct (map client_id es)" for d es
    using that
  proof (induction es)
    case (Cons e es)
    have "find_entry (client_id e) es = None" if "client_id e \<notin> client_id ` set es"
      using that unfolding find_entry_find find_None_iff by (metis image_eqI)
    with Cons show ?case by (cases "client_id e = c"; cases "d = c") simp_all
  qed simp
  then have removed: "rl_window (l\<lparr>entries := remove_first (\<lambda>e. client_id e = c) (entries l)\<rparr>) = (rl_window l)(c := None)"
    using assms by (simp add: rl_inv_def rl_window_def fun_eq_iff)
  have absent: "reset_loop c es = None \<Longrightarrow> find_entry c es = None" for es
    by (induction es) (simp_all split: if_splits)
  show "rl_window (rl_exec l (RL_Reset c)) = (rl_window l)(c := None)"
  proof (cases "reset_loop c (entries l)")
    case None
    then have "rl_window l c = None" using absent by (simp add: rl_window_def)
    with None show ?thesis by (simp add: rate_limiter_reset_def fun_upd_idem)
  next
    case (Some es)
    with removed reset_loop_remove [OF Some] show ?thesis by (simp add: rate_limiter_reset_def)
  qed
  show "window_ms (rl_exec l (RL_Reset c)) = window_ms l"
    by (simp add: rate_limiter_reset_def split: option.splits)
qed

lemma rl_exec_spec:
  assumes "rl_rel m win l w"
  shows "rl_rel m win (rl_exec l x) (window_spec m win w x)"
proof (cases x)
  case (RL_Allow c now)
  obtain ok l' where a: "rate_limiter_allow (Some l) (Some c) now = (ok, l')" by fastforce
  from allow_window [OF a] obtain r where r: "l' = Some r" "window_ms r = window_ms l"
      "(ok, rl_window r c) = window_request (max_requests l) (window_ms l) now (rl_window l c)"
      "\<And>d. d \<noteq> c \<Longrightarrow> rl_window r d = rl_window l d" by blast
  have "rl_window r = (rl_window l)(c := snd (window_request (max_requests l) (window_ms l) now (rl_window l c)))"
    using r(4) by (auto simp: fun_eq_iff simp flip: r(3))
  with assms rl_inv_exec [of l x] a r(1,2) RL_Allow show ?thesis by (simp add: rl_rel_def)
next
  case (RL_Reset c)
  with assms rl_inv_exec [of l x] reset_window [of l c] show ?thesis by (simp add: rl_rel_def)
qed

interpretation rl_ref: refinement "\<lambda>l x. Some (rl_exec l x)" "\<lambda>_ _. True" "window_spec m win" "rl_rel m win"
  for m win
  by unfold_locales (use rl_exec_spec in blast)

lemma run_total: "run (\<lambda>s x. Some (f s x)) s xs = Some (foldl f s xs)"
  by (induction xs arbitrary: s) simp_all

lemma rate_limiter_sequence_refines:
  "rl_window (foldl rl_exec (rate_limiter_create m win) ops) = foldl (window_spec m win) (\<lambda>c. None) ops"
proof -
  have "rl_rel m win (rate_limiter_create m win) (\<lambda>c. None)"
    by (simp add: rl_rel_def rl_inv_def rate_limiter_create_def rl_window_def fun_eq_iff)
  from rl_ref.run_refines [OF this run_ok_True] show ?thesis by (simp add: run_total rl_rel_def)
qed

section \<open>Sequences of requests\<close>

fun rl_run :: "rate_limiter_t \<Rightarrow> (cstr \<times> u64) list \<Rightarrow> (cstr \<times> bool) list" where
  "rl_run l [] = []"
| "rl_run l ((c, now) # reqs) =
     (let (ok, l') = rate_limiter_allow (Some l) (Some c) now in (c, ok) # rl_run (the l') reqs)"

fun window_run :: "int \<Rightarrow> u64 \<Rightarrow> window \<Rightarrow> u64 list \<Rightarrow> bool list" where
  "window_run m win w [] = []"
| "window_run m win w (now # ts) =
     (let (ok, w') = window_request m win now w in ok # window_run m win w' ts)"

definition of_client :: "cstr \<Rightarrow> (cstr \<times> 'a) list \<Rightarrow> 'a list" where
  "of_client c xs = map snd (filter (\<lambda>x. fst x = c) xs)"

lemma of_client_simps [simp]:
  "of_client c [] = []"
  "of_client c ((d, x) # xs) = (if d = c then x # of_client c xs else of_client c xs)"
  by (simp_all add: of_client_def)

lemma rl_run_client:
  "of_client c (rl_run l reqs) = window_run (max_requests l) (window_ms l) (rl_window l c) (of_client c reqs)"
proof (induction reqs arbitrary: l)
  case (Cons q reqs)
  obtain d now where q: "q = (d, now)" by fastforce
  obtain ok l' where a: "rate_limiter_allow (Some l) (Some d) now = (ok, l')" by fastforce
  from allow_window [OF a] obtain r where r: "l' = Some r" "max_requests r = max_requests l"
      "window_ms r = window_ms l"
      "(ok, rl_window r d) = window_request (max_requests l) (window_ms l) now (rl_window l d)"
      "\<And>e. e \<noteq> d \<Longrightarrow> rl_window r e = rl_window l e" by blast
  show ?case
  proof (cases "d = c")
    case True
    have "window_request (max_requests l) (window_ms l) now (rl_window l c) = (ok, rl_window r c)"
      using r(4) True by simp
    with a True r(1-3) show ?thesis by (simp add: q Cons.IH)
  next
    case False
    then show ?thesis using r by (simp add: q a Cons.IH)
  qed
qed simp

lemma window_run_within:
  assumes "0 \<le> n" and "\<forall>t \<in> set ts. t - start \<le> win"
  shows "length (filter id (window_run m win (Some (n, start)) ts)) = min (length ts) (nat (m - n))"
  using assms
proof (induction ts arbitrary: n)
  case (Cons t ts)
  then have "\<not> win < t - start" by (simp add: not_less)
  with Cons Cons.IH [of "n + 1"] show ?case
    by (cases "n \<ge> m") (simp_all add: window_request_def)
qed simp

lemma window_run_fresh:
  assumes "\<forall>t \<in> set ts. t - hd ts \<le> win"
  shows "length (filter id (window_run m win None ts)) = min (length ts) (nat m)"
proof (cases ts)
  case (Cons t us)
  then show ?thesis
    using assms window_run_within [of 1 us t win m] window_run_within [of 0 us t win m]
    by (cases "m \<le> 0") (simp_all add: window_request_def)
qed simp

text \<open>
  C17: The limiter admits exactly its allowance. On a fresh limiter, and whatever other clients
  request in between, the requests of a client made within one window of its first one are
  admitted up to \<open>max_requests\<close> and refused after that: of \<open>n\<close> requests exactly the smaller of
  \<open>n\<close> and \<open>max_requests\<close> are admitted.
\<close>

theorem rate_limiter_allowance:
  assumes "\<forall>t \<in> set (of_client c reqs). t - hd (of_client c reqs) \<le> win"
  shows "length (filter id (of_client c (rl_run (rate_limiter_create m win) reqs)))
    = min (length (of_client c reqs)) (nat m)"
  using window_run_fresh [OF assms, of m]
  by (simp add: rl_run_client rate_limiter_create_def rl_window_def)

theorem rate_limiter_allowance_witness:
  "length (filter id (of_client ''a'' (rl_run (rate_limiter_create 2 100)
     [(''a'', 5), (''b'', 6), (''a'', 7), (''a'', 80), (''b'', 90), (''a'', 105)]))) = 2"
  using rate_limiter_allowance [of "''a''"
     "[(''a'', 5), (''b'', 6), (''a'', 7), (''a'', 80), (''b'', 90), (''a'', 105)]" 100 2] by simp

section \<open>The window is fixed\<close>

lemma window_run_all:
  assumes "0 \<le> n" and "n + int k \<le> m" and "t - start \<le> win"
  shows "window_run m win (Some (n, start)) (replicate k t @ us) =
    replicate k True @ window_run m win (Some (n + int k, start)) us"
  using assms
proof (induction k arbitrary: n)
  case (Suc k)
  then have "\<not> win < t - start" by (simp add: not_less)
  with Suc Suc.IH [of "n + 1"] show ?case by (simp add: window_request_def add.assoc)
qed simp

lemma of_client_same [simp]: "of_client c (map (Pair c) xs) = xs"
  by (induction xs) simp_all

text \<open>
  The limit is per fixed window, not over any interval as long as a window: a client that
  makes its first request at time 0, another \<open>k\<close> of the \<open>k + 1\<close> allowed just before the window
  ends and \<open>k + 1\<close> one millisecond later has all of them admitted, \<open>2 * k + 1\<close> of them within
  one millisecond.
\<close>

theorem rate_limiter_boundary_burst:
  assumes "unat win + 1 < 2 ^ 64"
  shows "of_client c (rl_run (rate_limiter_create (int k + 1) win)
      (map (Pair c) ([0] @ replicate k win @ replicate (k + 1) (win + 1)))) = replicate (2 * k + 2) True"
proof -
  let ?m = "int k + 1"
  have lt: "win < win + 1" using assms by (simp add: word_less_nat_alt unat_word_ariths)
  have "window_run ?m win None ([0] @ replicate k win @ replicate (k + 1) (win + 1))
      = True # replicate k True @ window_run ?m win (Some (?m, 0)) (replicate (k + 1) (win + 1))"
    using window_run_all [of 1 k ?m win 0 win] by (simp add: window_request_def add.commute)
  also have "window_run ?m win (Some (?m, 0)) (replicate (k + 1) (win + 1))
      = True # window_run ?m win (Some (1, win + 1)) (replicate k (win + 1) @ [])"
    using lt by (simp add: window_request_def)
  also have "window_run ?m win (Some (1, win + 1)) (replicate k (win + 1) @ []) = replicate k True"
    using window_run_all [of 1 k ?m "win + 1" "win + 1" win "[]"] by simp
  finally show ?thesis
    by (simp add: rl_run_client rate_limiter_create_def rl_window_def replicate_add mult_2
        replicate_app_Cons_same flip: map_append map_replicate list.map)
qed

theorem rate_limiter_boundary_burst_witness:
  "of_client ''a'' (rl_run (rate_limiter_create (int 2 + 1) 100)
      (map (Pair ''a'') ([0] @ replicate 2 100 @ replicate (2 + 1) (100 + 1)))) = replicate (2 * 2 + 2) True"
  by (rule rate_limiter_boundary_burst) simp

end
