(* ===== verification/Rate_Interval.thy ===== *)
theory Rate_Interval
  imports Rate_Limiter
begin

text \<open>
  The limit of \<^verbatim>\<open>rate_limiter_allow\<close> over intervals of time. The window is fixed, so a client can exceed
  \<open>max_requests\<close> within the length of a window, but never by a factor of two.
\<close>

section \<open>Requests admitted in an interval\<close>

definition admitted_in :: "u64 \<Rightarrow> u64 \<Rightarrow> u64 list \<Rightarrow> bool list \<Rightarrow> nat" where
  "admitted_in lo hi ts oks = length (filter (\<lambda>(t, ok). ok \<and> lo \<le> t \<and> t \<le> hi) (zip ts oks))"

lemma admitted_in_Nil [simp]: "admitted_in lo hi [] oks = 0"
  by (simp add: admitted_in_def)

lemma admitted_in_Cons [simp]:
  "admitted_in lo hi (t # ts) (ok # oks) = (if ok \<and> lo \<le> t \<and> t \<le> hi then 1 else 0) + admitted_in lo hi ts oks"
  by (simp add: admitted_in_def)

lemma admitted_in_late:
  assumes "\<forall>t \<in> set ts. hi < t"
  shows "admitted_in lo hi ts oks = 0"
proof -
  have "\<not> t \<le> hi" if "(t, ok) \<in> set (zip ts oks)" for t ok
    using assms set_zip_leftD [OF that] by (simp add: not_le)
  then show ?thesis by (auto simp: admitted_in_def filter_empty_conv)
qed

lemma room_less: "n < m \<Longrightarrow> nat (m - n) = Suc (nat (m - (n + 1)))"
  by simp

lemma request_same:
  "t - start \<le> win \<Longrightarrow>
     window_request m win t (Some (n, start)) = (n < m, Some (if n < m then n + 1 else n, start))"
  by (auto simp: window_request_def)

lemma request_new:
  "win < t - start \<Longrightarrow>
     window_request m win t (Some (n, start)) = (0 < m, Some (if 0 < m then 1 else 0, t))"
  by (simp add: window_request_def)

lemma request_first: "window_request m win t None = (0 < m, Some (if 0 < m then 1 else 0, t))"
  by (simp add: window_request_def)

lemma word_diff_le: "(start :: u64) \<le> t \<Longrightarrow> t - start \<le> win \<longleftrightarrow> unat t \<le> unat start + unat win"
  by (simp add: word_le_nat_alt unat_sub) linarith

text \<open>In a window that starts in the interval, the interval ends no later than the window.\<close>

lemma admitted_window:
  assumes "unat lo + unat win < 2 ^ 64" and "sorted (start # ts)" and "lo \<le> start"
  shows "admitted_in lo (lo + win) ts (window_run m win (Some (n, start)) ts) \<le> nat (m - n)"
  using assms(2)
proof (induction ts arbitrary: n)
  case (Cons t ts)
  have start: "start \<le> t" and sorted: "sorted (start # ts)" using Cons.prems by simp_all
  have hi: "unat (lo + win) = unat lo + unat win" using assms(1) by (simp add: unat_word_ariths)
  show ?case
  proof (cases "t - start \<le> win")
    case True
    with Cons.IH [OF sorted, of "n + 1"] Cons.IH [OF sorted, of n] show ?thesis
      by (cases "n < m") (auto simp: request_same room_less)
  next
    case False
    then have "unat start + unat win < unat t" using word_diff_le [OF start] by (simp add: not_le)
    then have "lo + win < t" using assms(3) hi by (simp add: word_le_nat_alt word_less_nat_alt)
    then have "\<forall>u \<in> set (t # ts). lo + win < u" using Cons.prems by auto
    then show ?thesis using admitted_in_late by (metis le0)
  qed
qed simp

lemma admitted_fresh:
  assumes "unat lo + unat win < 2 ^ 64" and "sorted (t # ts)" and "lo \<le> t"
  shows "(if 0 < m \<and> t \<le> lo + win then 1 else 0)
    + admitted_in lo (lo + win) ts (window_run m win (Some (if 0 < m then 1 else 0, t)) ts) \<le> nat m"
  using admitted_window [OF assms, of m 1] admitted_window [OF assms, of m 0] by (cases "0 < m") auto

text \<open>When all requests are in or after the interval, at most the current and the next window count.\<close>

lemma admitted_two_windows:
  assumes "unat lo + unat win < 2 ^ 64" and "sorted ts" and "\<forall>t \<in> set ts. lo \<le> t"
  shows "admitted_in lo (lo + win) ts (window_run m win (Some (n, start)) ts) \<le> nat (m - n) + nat m"
  using assms(2,3)
proof (induction ts arbitrary: n)
  case (Cons t ts)
  have sorted: "sorted ts" and lo: "lo \<le> t" "\<forall>t \<in> set ts. lo \<le> t" using Cons.prems by simp_all
  show ?case
  proof (cases "t - start \<le> win")
    case True
    with Cons.IH [OF sorted lo(2), of "n + 1"] Cons.IH [OF sorted lo(2), of n] show ?thesis
      by (cases "n < m") (auto simp: request_same room_less)
  next
    case False
    with admitted_fresh [OF assms(1) Cons.prems(1) lo(1), of m] lo(1) show ?thesis
      by (simp add: request_new not_le)
  qed
qed simp

lemma admitted_any:
  assumes "unat lo + unat win < 2 ^ 64" and "sorted ts" and "1 \<le> n \<or> n = 0 \<and> m \<le> 0"
  shows "admitted_in lo (lo + win) ts (window_run m win (Some (n, start)) ts) \<le> nat (2 * m - 1)"
  using assms(2,3)
proof (induction ts arbitrary: n start)
  case (Cons t ts)
  show ?case
  proof (cases "lo \<le> t")
    case True
    then have "\<forall>u \<in> set (t # ts). lo \<le> u" using Cons.prems(1) by auto
    from admitted_two_windows [OF assms(1) Cons.prems(1) this, of m n start] Cons.prems(2) show ?thesis by linarith
  next
    case False
    have "sorted ts" using Cons.prems(1) by simp
    note IH = Cons.IH [OF this]
    show ?thesis
    proof (cases "t - start \<le> win")
      case True
      with False Cons.prems(2) IH [of "if n < m then n + 1 else n" start] show ?thesis
        by (auto simp: request_same)
    next
      case new: False
      with False IH [of "if 0 < m then 1 else 0" t] show ?thesis by (auto simp: request_new not_le)
    qed
  qed
qed simp

lemma admitted_None:
  assumes "unat lo + unat win < 2 ^ 64" and "sorted ts"
  shows "admitted_in lo (lo + win) ts (window_run m win None ts) \<le> nat (2 * m - 1)"
proof (cases ts)
  case (Cons t us)
  show ?thesis
  proof (cases "lo \<le> t")
    case True
    with admitted_fresh [OF assms(1), of t us m] assms(2) Cons show ?thesis
      by (cases "0 < m") (auto simp: request_first)
  next
    case False
    with admitted_any [OF assms(1), of us "if 0 < m then 1 else 0" m t] assms(2) Cons show ?thesis
      by (auto simp: request_first)
  qed
qed simp

text \<open>
  C16: No interval as long as a window admits twice the allowance. For any sequence of requests,
  without resets in between, in which the times of a client do not decrease, of the requests of
  that client made from \<open>lo\<close> to \<open>lo + window_ms\<close> at most
  \<open>2 * max_requests - 1\<close> are admitted; the burst at a window boundary reaches this bound.
\<close>

theorem rate_limiter_interval_bound:
  assumes "sorted (of_client c reqs)" and "unat lo + unat win < 2 ^ 64"
  shows "admitted_in lo (lo + win) (of_client c reqs) (of_client c (rl_run (rate_limiter_create m win) reqs))
    \<le> nat (2 * m - 1)"
  using admitted_None [OF assms(2,1), of m] by (simp add: rl_run_client rate_limiter_create_def rl_window_def)

theorem rate_limiter_interval_bound_witness:
  "admitted_in 100 (100 + 100) [0, 100, 100, 101, 101, 101]
     (of_client ''a'' (rl_run (rate_limiter_create 3 100)
        (map (Pair ''a'') [0, 100, 100, 101, 101, 101]))) = 5
   \<and> admitted_in 100 (100 + 100) [0, 100, 100, 101, 101, 101]
     (of_client ''a'' (rl_run (rate_limiter_create 3 100)
        (map (Pair ''a'') [0, 100, 100, 101, 101, 101]))) \<le> nat (2 * 3 - 1)"
proof
  show "admitted_in 100 (100 + 100) [0, 100, 100, 101, 101, 101]
     (of_client ''a'' (rl_run (rate_limiter_create 3 100)
        (map (Pair ''a'') [0, 100, 100, 101, 101, 101]))) = 5"
    by code_simp
  show "admitted_in 100 (100 + 100) [0, 100, 100, 101, 101, 101]
     (of_client ''a'' (rl_run (rate_limiter_create 3 100)
        (map (Pair ''a'') [0, 100, 100, 101, 101, 101]))) \<le> nat (2 * 3 - 1)"
    using rate_limiter_interval_bound [of "''a''" "map (Pair ''a'') [0, 100, 100, 101, 101, 101]" 100 100 3]
    unfolding of_client_same by simp
qed

end
