(* ===== verification/Circuit_Breaker.thy ===== *)
theory Circuit_Breaker
  imports Common
begin

text \<open>
  The circuit breaker of \<^verbatim>\<open>src/distributed/distributed.c\<close>. A call is two critical sections with the
  protected function between them, outside the lock; so the sections are the steps of the
  breaker, and a sequence of them, in any order, is what the threads that share a breaker can do
  to it. The \<open>int\<close> failure counter overflows after \<open>INT_MAX\<close>, which is undefined in C (\<open>None\<close>).
\<close>

section \<open>Data and operations\<close>

datatype circuit_state_t = CIRCUIT_CLOSED | CIRCUIT_OPEN | CIRCUIT_HALF_OPEN

record circuit_breaker_t =
  cb_state :: circuit_state_t
  failure_count :: int
  failure_threshold :: int
  timeout_ms :: u64
  last_failure_time :: u64

definition circuit_breaker_create :: "int \<Rightarrow> u64 \<Rightarrow> circuit_breaker_t" where
  "circuit_breaker_create threshold timeout =
     \<lparr>cb_state = CIRCUIT_CLOSED, failure_count = 0, failure_threshold = threshold,
      timeout_ms = timeout, last_failure_time = 0\<rparr>"

text \<open>The first critical section of \<open>circuit_breaker_call\<close>: whether the call goes ahead.\<close>

definition circuit_breaker_admit :: "circuit_breaker_t \<Rightarrow> u64 \<Rightarrow> bool \<times> circuit_breaker_t" where
  "circuit_breaker_admit b now =
     (if cb_state b = CIRCUIT_OPEN then
        if now - last_failure_time b > timeout_ms b
        then (True, b\<lparr>cb_state := CIRCUIT_HALF_OPEN\<rparr>)
        else (False, b)
      else (True, b))"

definition circuit_breaker_record_success :: "circuit_breaker_t option \<Rightarrow> circuit_breaker_t option" where
  "circuit_breaker_record_success breaker =
     map_option (\<lambda>b. if cb_state b = CIRCUIT_HALF_OPEN
       then b\<lparr>cb_state := CIRCUIT_CLOSED, failure_count := 0\<rparr> else b) breaker"

text \<open>The outer option is undefined behaviour, the inner one the NULL pointer.\<close>

definition circuit_breaker_record_failure ::
  "circuit_breaker_t option \<Rightarrow> u64 \<Rightarrow> circuit_breaker_t option option" where
  "circuit_breaker_record_failure breaker now =
     (case breaker of
        None \<Rightarrow> Some None
      | Some b \<Rightarrow>
          if failure_count b = INT_MAX then None
          else
            let b = b\<lparr>failure_count := failure_count b + 1, last_failure_time := now\<rparr>
            in Some (Some (if failure_count b \<ge> failure_threshold b
                           then b\<lparr>cb_state := CIRCUIT_OPEN\<rparr> else b)))"

text \<open>
  The protected function works on the state of its caller and returns an \<open>int\<close>. The two clock
  readings are the one on entry and the one when a failure is recorded.
\<close>

definition circuit_breaker_call ::
  "circuit_breaker_t option \<Rightarrow> ('s \<Rightarrow> int \<times> 's) option \<Rightarrow> 's \<Rightarrow> u64 \<Rightarrow> u64 \<Rightarrow>
     (int \<times> circuit_breaker_t option \<times> 's) option" where
  "circuit_breaker_call breaker func s now now_failed =
     (case (breaker, func) of
        (Some b, Some f) \<Rightarrow>
          (case circuit_breaker_admit b now of
             (False, b1) \<Rightarrow> Some (error_code_val ERROR_TIMEOUT, Some b1, s)
           | (True, b1) \<Rightarrow>
               let (result, s1) = f s
               in if result = error_code_val SUCCESS
                  then Some (result, circuit_breaker_record_success (Some b1), s1)
                  else map_option (\<lambda>b2. (result, b2, s1))
                    (circuit_breaker_record_failure (Some b1) now_failed))
      | _ \<Rightarrow> Some (error_code_val ERROR_INVALID_PARAM, breaker, s))"

definition circuit_breaker_get_state :: "circuit_breaker_t option \<Rightarrow> circuit_state_t" where
  "circuit_breaker_get_state breaker =
     (case breaker of None \<Rightarrow> CIRCUIT_OPEN | Some b \<Rightarrow> cb_state b)"

text \<open>Destroying frees the breaker itself, on the set of live allocations.\<close>

definition circuit_breaker_destroy :: "addr option \<Rightarrow> addr set \<Rightarrow> addr set option" where
  "circuit_breaker_destroy breaker live =
     (if breaker = None then Some live else map_option snd (safe_free (Some breaker) live))"

section \<open>Sequences of critical sections\<close>

datatype cb_event = CB_Admit u64 | CB_Success | CB_Failure u64

fun cb_exec :: "circuit_breaker_t \<Rightarrow> cb_event \<Rightarrow> circuit_breaker_t option" where
  "cb_exec b (CB_Admit now) = Some (snd (circuit_breaker_admit b now))"
| "cb_exec b CB_Success = circuit_breaker_record_success (Some b)"
| "cb_exec b (CB_Failure now) =
     (case circuit_breaker_record_failure (Some b) now of None \<Rightarrow> None | Some b' \<Rightarrow> b')"

lemmas cb_defs = circuit_breaker_admit_def circuit_breaker_record_success_def
  circuit_breaker_record_failure_def Let_def

definition cb_inv :: "int \<Rightarrow> circuit_breaker_t \<Rightarrow> bool" where
  "cb_inv threshold b \<longleftrightarrow> 0 < threshold \<and> failure_threshold b = threshold \<and> 0 \<le> failure_count b
     \<and> (cb_state b = CIRCUIT_CLOSED \<longleftrightarrow> failure_count b < threshold)"

lemma cb_inv_exec: "cb_inv threshold b \<Longrightarrow> cb_exec b e = Some b' \<Longrightarrow> cb_inv threshold b'"
  by (cases e) (auto simp: cb_inv_def cb_defs split: if_splits)

interpretation cb_sys: operation_system
  "\<lambda>b. 0 < threshold \<and> b = circuit_breaker_create threshold timeout" cb_exec "cb_inv threshold"
  for threshold timeout
proof (unfold_locales, goal_cases)
  case (1 b)
  then show ?case by (simp add: cb_inv_def circuit_breaker_create_def)
next
  case (2 b e b')
  then show ?case by (rule cb_inv_exec)
qed

lemma cb_inv_run:
  assumes "0 < threshold" and "run cb_exec (circuit_breaker_create threshold timeout) es = Some b"
  shows "cb_inv threshold b"
  by (rule cb_sys.invar_run [OF _ assms(2)]) (simp add: assms(1))

text \<open>
  C19: Whatever the interleaving of calls, successes and failures on a breaker with a positive
  threshold, it is closed exactly while fewer failures are counted than the threshold: it is
  never closed with the threshold reached, and never open or half open below it.
\<close>

theorem circuit_breaker_closed_iff:
  assumes "0 < threshold" and "run cb_exec (circuit_breaker_create threshold timeout) es = Some b"
  shows "0 \<le> failure_count b \<and> (cb_state b = CIRCUIT_CLOSED \<longleftrightarrow> failure_count b < threshold)"
  using cb_inv_run [OF assms] by (simp add: cb_inv_def)

theorem circuit_breaker_closed_iff_witness:
  "\<exists>b. run cb_exec (circuit_breaker_create 2 100)
       [CB_Admit 1, CB_Admit 2, CB_Failure 3, CB_Failure 4, CB_Admit 200, CB_Failure 201] = Some b
     \<and> (cb_state b = CIRCUIT_CLOSED \<longleftrightarrow> failure_count b < 2) \<and> failure_count b = 3"
proof -
  let ?es = "[CB_Admit 1, CB_Admit 2, CB_Failure 3, CB_Failure 4, CB_Admit 200, CB_Failure 201]"
  have r: "run cb_exec (circuit_breaker_create 2 100) ?es = Some
      \<lparr>cb_state = CIRCUIT_OPEN, failure_count = 3, failure_threshold = 2, timeout_ms = 100,
       last_failure_time = 201\<rparr>" by code_simp
  show ?thesis unfolding r using circuit_breaker_closed_iff [OF _ r] by simp
qed

section \<open>Opening, rejecting and recovering\<close>

fun is_failure :: "cb_event \<Rightarrow> bool" where
  "is_failure (CB_Failure now) = True"
| "is_failure _ = False"

lemma cb_exec_below:
  assumes "cb_state b = CIRCUIT_CLOSED" and "failure_count b + (if is_failure e then 1 else 0) < failure_threshold b"
    and "failure_threshold b \<le> INT_MAX"
  shows "\<exists>b'. cb_exec b e = Some b' \<and> cb_state b' = CIRCUIT_CLOSED
    \<and> failure_threshold b' = failure_threshold b
    \<and> failure_count b' = failure_count b + (if is_failure e then 1 else 0)"
  using assms by (cases e) (auto simp: cb_defs)

lemma cb_run_below:
  assumes "cb_state b = CIRCUIT_CLOSED" and "failure_threshold b \<le> INT_MAX"
    and "failure_count b + int (length (filter is_failure es)) < failure_threshold b"
  shows "\<exists>b'. run cb_exec b es = Some b' \<and> cb_state b' = CIRCUIT_CLOSED
    \<and> failure_threshold b' = failure_threshold b
    \<and> failure_count b' = failure_count b + int (length (filter is_failure es))"
  using assms
proof (induction es arbitrary: b)
  case (Cons e es)
  then obtain b1 where b1: "cb_exec b e = Some b1" "cb_state b1 = CIRCUIT_CLOSED"
      "failure_threshold b1 = failure_threshold b"
      "failure_count b1 = failure_count b + (if is_failure e then 1 else 0)"
    using cb_exec_below [of b e] by (auto split: if_splits)
  with Cons.prems Cons.IH [of b1] show ?case by (auto split: if_splits)
qed simp

text \<open>
  The breaker opens on the failure that reaches the threshold, and not before. The failures
  counted are all failures since it was created or last recovered, not consecutive ones: the
  successes in between do not matter.
\<close>

theorem circuit_breaker_opens:
  assumes "int (length (filter is_failure es)) + 1 = threshold" and "threshold \<le> INT_MAX"
  shows "\<exists>b b'. run cb_exec (circuit_breaker_create threshold timeout) es = Some b
    \<and> circuit_breaker_get_state (Some b) = CIRCUIT_CLOSED
    \<and> circuit_breaker_record_failure (Some b) now = Some (Some b')
    \<and> circuit_breaker_get_state (Some b') = CIRCUIT_OPEN \<and> last_failure_time b' = now"
proof -
  from assms obtain b where b: "run cb_exec (circuit_breaker_create threshold timeout) es = Some b"
      "cb_state b = CIRCUIT_CLOSED" "failure_threshold b = threshold"
      "failure_count b = int (length (filter is_failure es))"
    using cb_run_below [of "circuit_breaker_create threshold timeout" es]
    by (auto simp: circuit_breaker_create_def)
  with assms show ?thesis by (simp add: cb_defs circuit_breaker_get_state_def)
qed

theorem circuit_breaker_opens_witness:
  "\<exists>b b'. run cb_exec (circuit_breaker_create 2 100)
       [CB_Admit 1, CB_Failure 2, CB_Admit 3, CB_Success, CB_Admit 4, CB_Success] = Some b
     \<and> circuit_breaker_get_state (Some b) = CIRCUIT_CLOSED
     \<and> circuit_breaker_record_failure (Some b) 9 = Some (Some b')
     \<and> circuit_breaker_get_state (Some b') = CIRCUIT_OPEN \<and> last_failure_time b' = 9"
  by (rule circuit_breaker_opens) (simp_all add: INT_MAX_def)

text \<open>
  C15: An open breaker, of positive threshold and with a failure counter that does not overflow,
  protects the function behind it. Until the timeout has passed a call
  returns \<open>ERROR_TIMEOUT\<close> without running the function and without changing the breaker; after
  it, the function runs once, a success closes the breaker with a cleared counter, and a failure
  opens it again for another timeout.
\<close>

theorem circuit_breaker_open_call:
  assumes "0 < threshold" and "run cb_exec (circuit_breaker_create threshold timeout) es = Some b"
    and "cb_state b = CIRCUIT_OPEN" and "failure_count b < INT_MAX"
  shows "circuit_breaker_call (Some b) (Some f) s now failed =
    (if now - last_failure_time b \<le> timeout_ms b then Some (error_code_val ERROR_TIMEOUT, Some b, s)
     else if fst (f s) = error_code_val SUCCESS
     then Some (fst (f s), Some (b\<lparr>cb_state := CIRCUIT_CLOSED, failure_count := 0\<rparr>), snd (f s))
     else Some (fst (f s), Some (b\<lparr>failure_count := failure_count b + 1, last_failure_time := failed\<rparr>), snd (f s)))"
proof -
  have "failure_threshold b \<le> failure_count b"
    using cb_inv_run [OF assms(1,2)] assms(3) by (simp add: cb_inv_def)
  moreover have "b\<lparr>cb_state := CIRCUIT_OPEN\<rparr> = b" using assms(3) by simp
  ultimately show ?thesis
    using assms(3,4) by (auto simp: circuit_breaker_call_def cb_defs split: prod.split)
qed

theorem circuit_breaker_open_call_witness:
  "circuit_breaker_call (run cb_exec (circuit_breaker_create 1 100) [CB_Admit 1, CB_Failure 2])
     (Some (\<lambda>n. (-5, n + 1))) (7 :: nat) 50 51
   = Some (-8, run cb_exec (circuit_breaker_create 1 100) [CB_Admit 1, CB_Failure 2], 7)"
proof -
  let ?b = "\<lparr>cb_state = CIRCUIT_OPEN, failure_count = 1, failure_threshold = 1, timeout_ms = 100,
    last_failure_time = 2\<rparr>"
  have r: "run cb_exec (circuit_breaker_create 1 100) [CB_Admit 1, CB_Failure 2] = Some ?b"
    by code_simp
  show ?thesis
    using circuit_breaker_open_call [OF _ r, of "\<lambda>n. (-5, n + 1)" "7 :: nat" 50 51]
    unfolding r by (simp add: INT_MAX_def)
qed

end
