(* ===== verification/Retry.thy ===== *)
theory Retry
  imports Complex_Main Common
begin

text \<open>
  The retry policy of \<^verbatim>\<open>src/distributed/distributed.c\<close>. The multiplier is a \<open>double\<close>; the model takes
  the type of multipliers and the next delay, \<open>(uint64_t)(delay_ms * backoff_multiplier)\<close>, as a
  parameter \<open>scale\<close>, \<open>None\<close> where the conversion to 64 bits is undefined, so that nothing depends
  on how products are rounded. \<open>nanosleep\<close> is recorded as the time it is asked to sleep.
\<close>

section \<open>Data and operations\<close>

record 'm retry_policy_t =
  max_retries :: int
  initial_delay_ms :: u64
  backoff_multiplier :: 'm

definition retry_policy_create :: "int \<Rightarrow> u64 \<Rightarrow> 'm \<Rightarrow> 'm retry_policy_t" where
  "retry_policy_create retries delay multiplier =
     \<lparr>max_retries = retries, initial_delay_ms = delay, backoff_multiplier = multiplier\<rparr>"

text \<open>Destroying frees the policy itself, on the set of live allocations.\<close>

definition retry_policy_destroy :: "addr option \<Rightarrow> addr set \<Rightarrow> addr set option" where
  "retry_policy_destroy policy live = map_option snd (safe_free (Some policy) live)"

text \<open>The seconds and nanoseconds of a delay in milliseconds.\<close>

definition timespec_of :: "u64 \<Rightarrow> u64 \<times> u64" where
  "timespec_of delay_ms = (delay_ms div 1000, (delay_ms mod 1000) * 1000000)"

text \<open>
  The loop returns the result, the state of the protected function and the sleeps. It is
  undefined when \<open>result\<close> is read before the first call, when \<open>attempt++\<close> overflows and when the
  next delay is not representable.
\<close>

function retry_loop ::
  "(u64 \<Rightarrow> u64 option) \<Rightarrow> int \<Rightarrow> ('s \<Rightarrow> int \<times> 's) \<Rightarrow> int \<Rightarrow> int option \<Rightarrow> u64 \<Rightarrow> 's \<Rightarrow> (u64 \<times> u64) list \<Rightarrow>
     (int \<times> 's \<times> (u64 \<times> u64) list) option" where
  "retry_loop next_delay retries func attempt result delay_ms s sleeps =
     (if attempt \<le> retries then
        let (r, s1) = func s
        in if r = error_code_val SUCCESS then Some (error_code_val SUCCESS, s1, sleeps)
           else if attempt < retries then
             (case next_delay delay_ms of
                None \<Rightarrow> None
              | Some d \<Rightarrow> retry_loop next_delay retries func (attempt + 1) (Some r) d s1
                  (sleeps @ [timespec_of delay_ms]))
           else if attempt = INT_MAX then None
           else retry_loop next_delay retries func (attempt + 1) (Some r) delay_ms s1 sleeps
      else map_option (\<lambda>r. (r, s, sleeps)) result)"
  by pat_completeness auto
termination
  by (relation "measure (\<lambda>(_, retries, _, attempt, _). nat (retries + 1 - attempt))") auto

declare retry_loop.simps [simp del]

definition retry_with_policy ::
  "(u64 \<Rightarrow> 'm \<Rightarrow> u64 option) \<Rightarrow> 'm retry_policy_t option \<Rightarrow> ('s \<Rightarrow> int \<times> 's) option \<Rightarrow> 's \<Rightarrow>
     (int \<times> 's \<times> (u64 \<times> u64) list) option" where
  "retry_with_policy scale policy func s =
     (case (policy, func) of
        (Some p, Some f) \<Rightarrow>
          retry_loop (\<lambda>d. scale d (backoff_multiplier p)) (max_retries p) f 0 None (initial_delay_ms p) s []
      | _ \<Rightarrow> Some (error_code_val ERROR_INVALID_PARAM, s, []))"

section \<open>Number of calls\<close>

text \<open>The state after \<open>k\<close> calls of the function, the result of call \<open>k\<close> and the delays.\<close>

definition after_calls :: "('s \<Rightarrow> int \<times> 's) \<Rightarrow> nat \<Rightarrow> 's \<Rightarrow> 's" where
  "after_calls f k s = ((\<lambda>s. snd (f s)) ^^ k) s"

definition call_result :: "('s \<Rightarrow> int \<times> 's) \<Rightarrow> nat \<Rightarrow> 's \<Rightarrow> int" where
  "call_result f k s = fst (f (after_calls f k s))"

lemma after_calls_0 [simp]: "after_calls f 0 s = s"
  by (simp add: after_calls_def)

lemma after_calls_Suc: "after_calls f (Suc k) s = snd (f (after_calls f k s))"
  by (simp add: after_calls_def)

lemma call_split: "f (after_calls f k s) = (call_result f k s, after_calls f (Suc k) s)"
  by (simp add: call_result_def after_calls_Suc)

text \<open>
  The first \<open>k\<close> sleeps, from a delay \<open>d\<close>. The delay is multiplied after each of them, so all \<open>k\<close>
  conversions have to be defined.
\<close>

primrec sleeps_of :: "(u64 \<Rightarrow> u64 option) \<Rightarrow> nat \<Rightarrow> u64 \<Rightarrow> (u64 \<times> u64) list option" where
  "sleeps_of next_delay 0 d = Some []"
| "sleeps_of next_delay (Suc k) d =
     (case next_delay d of
        None \<Rightarrow> None
      | Some d' \<Rightarrow> map_option ((#) (timespec_of d)) (sleeps_of next_delay k d'))"

lemma retry_loop_success:
  assumes "j + k \<le> m" and "call_result f (j + k) s = 0" and "\<forall>i < k. call_result f (j + i) s \<noteq> 0"
  shows "retry_loop g (int m) f (int j) r d (after_calls f j s) sl
    = map_option (\<lambda>t. (0, after_calls f (Suc (j + k)) s, sl @ t)) (sleeps_of g k d)"
  using assms
proof (induction k arbitrary: j r d sl)
  case 0
  then show ?case by (subst retry_loop.simps) (simp add: call_split)
next
  case (Suc k)
  have "\<forall>i < k. call_result f (Suc j + i) s \<noteq> 0"
    using Suc.prems(3) by (metis Suc_less_eq add_Suc_shift)
  moreover have "call_result f j s \<noteq> 0" using Suc.prems(3) by (metis add_0_right zero_less_Suc)
  ultimately show ?case
    using Suc.prems(1,2) Suc.IH [of "Suc j" "Some (call_result f j s)" _ "sl @ [timespec_of d]"]
    by (subst retry_loop.simps)
      (simp add: call_split add.commute [of 1] option.map_comp comp_def split: option.split)
qed

lemma retry_loop_failure:
  assumes "j + k = m" and "int m < INT_MAX" and "\<forall>i \<le> k. call_result f (j + i) s \<noteq> 0"
  shows "retry_loop g (int m) f (int j) r d (after_calls f j s) sl
    = map_option (\<lambda>t. (call_result f m s, after_calls f (Suc m) s, sl @ t)) (sleeps_of g k d)"
  using assms
proof (induction k arbitrary: j r d sl)
  case 0
  then have "retry_loop g (int m) f (int m + 1) (Some (call_result f m s)) d (after_calls f (Suc m) s) sl
      = Some (call_result f m s, after_calls f (Suc m) s, sl)"
    by (subst retry_loop.simps) simp
  with 0 show ?case by (subst retry_loop.simps) (simp add: call_split)
next
  case (Suc k)
  have "\<forall>i \<le> k. call_result f (Suc j + i) s \<noteq> 0"
    using Suc.prems(3) by (metis Suc_le_mono add_Suc_shift)
  moreover have "call_result f j s \<noteq> 0" using Suc.prems(3) by (metis add_0_right zero_le)
  ultimately show ?case
    using Suc.prems(1,2) Suc.IH [of "Suc j" "Some (call_result f j s)" _ "sl @ [timespec_of d]"]
    by (subst retry_loop.simps)
      (simp add: call_split add.commute [of 1] option.map_comp comp_def split: option.split)
qed

text \<open>
  C24: A retry stops at the first success. Whatever the multiplier and however products are rounded,
  for a policy of \<open>m \<ge> 0\<close> retries: if call \<open>k\<close> is the first of the \<open>m + 1\<close> possible ones that
  succeeds, the function is called exactly \<open>k + 1\<close> times, the policy sleeps \<open>k\<close> times and the result
  is \<open>SUCCESS\<close>; if none succeeds all \<open>m + 1\<close> calls are made, with a sleep between any two, and the
  result is that of the last. The first sleep is the initial delay and each further one the
  converted product of the one before; the behaviour is undefined exactly when one of the
  products formed on the way cannot be converted to 64 bits.
\<close>

theorem retry_stops_at_first_success:
  assumes "max_retries p = int m" and "int m < INT_MAX"
  shows "retry_with_policy scale (Some p) (Some f) s =
    (let sleeps = (\<lambda>k. sleeps_of (\<lambda>d. scale d (backoff_multiplier p)) k (initial_delay_ms p))
     in case find (\<lambda>k. call_result f k s = 0) [0..<Suc m] of
          Some k \<Rightarrow> map_option (\<lambda>t. (error_code_val SUCCESS, after_calls f (Suc k) s, t)) (sleeps k)
        | None \<Rightarrow> map_option (\<lambda>t. (call_result f m s, after_calls f (Suc m) s, t)) (sleeps m))"
proof (cases "find (\<lambda>k. call_result f k s = 0) [0..<Suc m]")
  case None
  then have "\<forall>i \<le> m. call_result f (0 + i) s \<noteq> 0"
    by (auto simp: find_None_iff simp del: upt_Suc)
  from retry_loop_failure [OF _ assms(2) this] None show ?thesis
    by (simp add: retry_with_policy_def assms(1))
next
  case (Some k)
  then have k: "0 + k \<le> m" "call_result f (0 + k) s = 0" "\<forall>i < k. call_result f (0 + i) s \<noteq> 0"
    by (auto simp: find_Some_iff nth_upt simp del: upt_Suc)
  from retry_loop_success [OF k] Some show ?thesis
    by (simp add: retry_with_policy_def assms(1))
qed

text \<open>
  A concrete multiplier: products of small numbers are exact in \<open>double\<close>, the conversion cuts the
  fraction off, and it is defined when the result fits 64 bits.
\<close>

definition scale_exact :: "u64 \<Rightarrow> rat \<Rightarrow> u64 option" where
  "scale_exact d mult =
     (let x = of_nat (unat d) * mult in if -1 < x \<and> x < 2 ^ 64 then Some (of_int (if 0 \<le> x then \<lfloor>x\<rfloor> else 0)) else None)"

theorem retry_stops_at_first_success_witness:
  "retry_with_policy scale_exact (Some (retry_policy_create 5 101 (3 / 2)))
     (Some (\<lambda>n. (if n < 2 then -5 else 0, n + 1))) (0 :: nat)
   = Some (error_code_val SUCCESS, 3, [(0, 101000000), (0, 151000000)])
   \<and> retry_with_policy scale_exact (Some (retry_policy_create 5 101 1152921504606846976))
     (Some (\<lambda>n. (if n < 2 then -5 else 0, n + 1))) (0 :: nat) = None"
proof -
  let ?f = "\<lambda>n. (if n < 2 then -5 else 0, n + 1) :: int \<times> nat"
  have find: "find (\<lambda>k. call_result ?f k 0 = 0) [0..<Suc 5] = Some 2" by code_simp
  have after: "after_calls ?f (Suc 2) 0 = 3" by code_simp
  have two: "(2 :: nat) = Suc (Suc 0)" by simp
  have times: "timespec_of 101 = (0, 101000000)" "timespec_of 151 = (0, 151000000)" by code_simp+
  have floors: "\<lfloor>303 / 2 :: rat\<rfloor> = 151" "\<lfloor>453 / 2 :: rat\<rfloor> = 226" by (simp_all add: floor_eq_iff)
  have "scale_exact 101 (3 / 2) = Some 151" "scale_exact 151 (3 / 2) = Some 226" "scale_exact 101 1152921504606846976 = None"
    using floors by (simp_all add: scale_exact_def)
  then have sleeps: "sleeps_of (\<lambda>d. scale_exact d (3 / 2)) 2 101 = Some [(0, 101000000), (0, 151000000)]"
    "sleeps_of (\<lambda>d. scale_exact d 1152921504606846976) 2 101 = None"
    using times by (simp_all add: two)
  show ?thesis
    using retry_stops_at_first_success [of "retry_policy_create 5 101 (3 / 2)" 5 scale_exact ?f 0]
      retry_stops_at_first_success [of "retry_policy_create 5 101 1152921504606846976" 5 scale_exact ?f 0] find after sleeps
    by (simp add: retry_policy_create_def INT_MAX_def Let_def del: upt_Suc)
qed

end
