(* ===== verification/Metrics.thy ===== *)
theory Metrics
  imports Common C_Format
begin

text \<open>
  The metrics collector of \<^verbatim>\<open>src/distributed/distributed.c\<close>. The values are \<open>double\<close>s; the model
  takes their type and the four things the code does with them as a parameter, so that nothing
  depends on rounding. Every operation holds the lock and the nodes are reachable from the
  collector only, so the state is the list of metrics, newest first.
\<close>

section \<open>Data and operations\<close>

text \<open>\<open>0.0\<close>, \<open>x + 1.0\<close>, \<open>(x + y) / 2.0\<close> and the text \<open>%.2f\<close> prints for \<open>x\<close>.\<close>

record 'v double_ops =
  dbl_zero :: 'v
  dbl_inc :: "'v \<Rightarrow> 'v"
  dbl_avg :: "'v \<Rightarrow> 'v \<Rightarrow> 'v"
  dbl_fmt :: "'v \<Rightarrow> cstr"

record 'v metric_t =
  metric_name :: cstr
  metric_value :: 'v

type_synonym 'v metrics_collector_t = "'v metric_t list"

definition metrics_collector_create :: "'v metrics_collector_t" where
  "metrics_collector_create = []"

text \<open>The names whose memory \<open>metrics_collector_destroy\<close> releases, in order.\<close>

definition metrics_collector_destroy :: "'v metrics_collector_t option \<Rightarrow> cstr list" where
  "metrics_collector_destroy collector =
     (case collector of None \<Rightarrow> [] | Some ms \<Rightarrow> fold (\<lambda>m freed. freed @ [metric_name m]) ms [])"

fun find_metric :: "cstr \<Rightarrow> 'v metric_t list \<Rightarrow> 'v metric_t option" where
  "find_metric name [] = None"
| "find_metric name (metric # next) =
     (if c_strcmp (metric_name metric) name = 0 then Some metric else find_metric name next)"

definition find_or_create_metric ::
  "'v double_ops \<Rightarrow> 'v metrics_collector_t \<Rightarrow> cstr \<Rightarrow> 'v metric_t \<times> 'v metrics_collector_t" where
  "find_or_create_metric dbl ms name =
     (case find_metric name ms of
        Some m \<Rightarrow> (m, ms)
      | None \<Rightarrow> let m = \<lparr>metric_name = name, metric_value = dbl_zero dbl\<rparr> in (m, m # ms))"

text \<open>The assignment \<open>metric->value = v\<close> through the pointer just found or created.\<close>

definition set_value :: "cstr \<Rightarrow> 'v \<Rightarrow> 'v metrics_collector_t \<Rightarrow> 'v metrics_collector_t" where
  "set_value name v = update_first (\<lambda>m. metric_name m = name) (\<lambda>m. m\<lparr>metric_value := v\<rparr>)"

definition metrics_counter_inc ::
  "'v double_ops \<Rightarrow> 'v metrics_collector_t option \<Rightarrow> cstr option \<Rightarrow> error_code_t \<times> 'v metrics_collector_t option" where
  "metrics_counter_inc dbl collector name =
     (case (collector, name) of
        (Some ms, Some nm) \<Rightarrow>
          let (metric, ms) = find_or_create_metric dbl ms nm
          in (SUCCESS, Some (set_value nm (dbl_inc dbl (metric_value metric)) ms))
      | _ \<Rightarrow> (ERROR_INVALID_PARAM, collector))"

definition metrics_gauge_set ::
  "'v double_ops \<Rightarrow> 'v metrics_collector_t option \<Rightarrow> cstr option \<Rightarrow> 'v \<Rightarrow> error_code_t \<times> 'v metrics_collector_t option" where
  "metrics_gauge_set dbl collector name v =
     (case (collector, name) of
        (Some ms, Some nm) \<Rightarrow>
          let (metric, ms) = find_or_create_metric dbl ms nm
          in (SUCCESS, Some (set_value nm v ms))
      | _ \<Rightarrow> (ERROR_INVALID_PARAM, collector))"

definition metrics_histogram_observe ::
  "'v double_ops \<Rightarrow> 'v metrics_collector_t option \<Rightarrow> cstr option \<Rightarrow> 'v \<Rightarrow> error_code_t \<times> 'v metrics_collector_t option" where
  "metrics_histogram_observe dbl collector name v =
     (case (collector, name) of
        (Some ms, Some nm) \<Rightarrow>
          let (metric, ms) = find_or_create_metric dbl ms nm
          in (SUCCESS, Some (set_value nm (dbl_avg dbl (metric_value metric) v) ms))
      | _ \<Rightarrow> (ERROR_INVALID_PARAM, collector))"

text \<open>
  The text in the buffer of 4096 bytes: \<open>malloc\<close> does not clear it, so before the first line is
  printed it is uninitialised. \<open>offset\<close> grows by the length of the whole line also when the line
  did not fit. With \<open>offset\<close> equal to the size nothing is stored; past it the subtraction wraps
  and the line would be written outside the buffer, which is undefined.
\<close>

datatype export_result = Export_Null | Export_Uninit | Export_Text cstr

definition metric_line :: "'v double_ops \<Rightarrow> 'v metric_t \<Rightarrow> cstr" where
  "metric_line dbl m = metric_name m @ '': '' @ dbl_fmt dbl (metric_value m) @ [CHR 0x0A]"

fun export_text :: "export_result \<Rightarrow> cstr" where
  "export_text (Export_Text s) = s"
| "export_text _ = []"

fun export_loop :: "'v double_ops \<Rightarrow> nat \<Rightarrow> nat \<Rightarrow> export_result \<Rightarrow> 'v metric_t list \<Rightarrow> export_result option" where
  "export_loop dbl cap offset buffer [] = Some buffer"
| "export_loop dbl cap offset buffer (metric # next) =
     (let line = metric_line dbl metric
      in if offset > cap then None
         else export_loop dbl cap (offset + length line)
           (if cap - offset = 0 then buffer
            else Export_Text (take offset (export_text buffer) @ snprintf_buf (cap - offset) line)) next)"

definition metrics_export :: "'v double_ops \<Rightarrow> 'v metrics_collector_t option \<Rightarrow> export_result option" where
  "metrics_export dbl collector =
     (case collector of
        None \<Rightarrow> Some Export_Null
      | Some ms \<Rightarrow> export_loop dbl 4096 0 Export_Uninit ms)"

section \<open>The collector is a map\<close>

definition metrics_map :: "'v metrics_collector_t \<Rightarrow> cstr \<rightharpoonup> 'v" where
  "metrics_map ms name = map_option metric_value (find_metric name ms)"

datatype 'v metrics_op =
    M_Counter cstr
  | M_Gauge cstr 'v
  | M_Histogram cstr 'v

fun metrics_exec :: "'v double_ops \<Rightarrow> 'v metrics_collector_t \<Rightarrow> 'v metrics_op \<Rightarrow> 'v metrics_collector_t option" where
  "metrics_exec dbl ms (M_Counter nm) = snd (metrics_counter_inc dbl (Some ms) (Some nm))"
| "metrics_exec dbl ms (M_Gauge nm v) = snd (metrics_gauge_set dbl (Some ms) (Some nm) v)"
| "metrics_exec dbl ms (M_Histogram nm v) = snd (metrics_histogram_observe dbl (Some ms) (Some nm) v)"

definition old_value :: "'v double_ops \<Rightarrow> (cstr \<rightharpoonup> 'v) \<Rightarrow> cstr \<Rightarrow> 'v" where
  "old_value dbl m nm = (case m nm of None \<Rightarrow> dbl_zero dbl | Some v \<Rightarrow> v)"

fun metrics_spec :: "'v double_ops \<Rightarrow> (cstr \<rightharpoonup> 'v) \<Rightarrow> 'v metrics_op \<Rightarrow> cstr \<rightharpoonup> 'v" where
  "metrics_spec dbl m (M_Counter nm) = m(nm \<mapsto> dbl_inc dbl (old_value dbl m nm))"
| "metrics_spec dbl m (M_Gauge nm v) = m(nm \<mapsto> v)"
| "metrics_spec dbl m (M_Histogram nm v) = m(nm \<mapsto> dbl_avg dbl (old_value dbl m nm) v)"

lemma find_or_create_map:
  assumes "find_or_create_metric dbl ms nm = (metric, ms')"
  shows "metric_value metric = old_value dbl (metrics_map ms) nm"
    and "metrics_map (set_value nm v ms') = (metrics_map ms)(nm \<mapsto> v)"
proof -
  have upd: "find_metric k (set_value nm v l) =
      (if k = nm then map_option (\<lambda>m. m\<lparr>metric_value := v\<rparr>) (find_metric nm l) else find_metric k l)" for k l
    unfolding set_value_def by (induction l) auto
  show "metric_value metric = old_value dbl (metrics_map ms) nm"
    using assms by (auto simp: find_or_create_metric_def old_value_def metrics_map_def Let_def split: option.splits)
  show "metrics_map (set_value nm v ms') = (metrics_map ms)(nm \<mapsto> v)"
    using assms
    by (auto simp: fun_eq_iff find_or_create_metric_def metrics_map_def upd Let_def split: option.splits)
qed

lemma metrics_exec_spec:
  "\<exists>ms'. metrics_exec dbl ms x = Some ms' \<and> metrics_map ms' = metrics_spec dbl (metrics_map ms) x"
proof -
  define nm where "nm = (case x of M_Counter nm \<Rightarrow> nm | M_Gauge nm v \<Rightarrow> nm | M_Histogram nm v \<Rightarrow> nm)"
  obtain metric ms' where "find_or_create_metric dbl ms nm = (metric, ms')" by fastforce
  with find_or_create_map [OF this] show ?thesis
    by (cases x) (simp_all add: nm_def metrics_counter_inc_def metrics_gauge_set_def
        metrics_histogram_observe_def)
qed

interpretation metrics_ref: refinement "metrics_exec dbl" "\<lambda>_ _. True" "metrics_spec dbl" "\<lambda>ms m. metrics_map ms = m"
  for dbl :: "'v double_ops"
  by unfold_locales (use metrics_exec_spec in auto)

text \<open>
  The collector is a map from names to values, whatever the arithmetic of the values: after
  any sequence of counter, gauge and histogram updates the value found under each name is the
  one the updates of that name alone give, starting from zero.
\<close>

lemma metrics_refine_map:
  "\<exists>ms. run (metrics_exec dbl) metrics_collector_create ops = Some ms
     \<and> metrics_map ms = foldl (metrics_spec dbl) Map.empty ops"
proof -
  have "metrics_map metrics_collector_create = Map.empty"
    by (simp add: metrics_map_def metrics_collector_create_def fun_eq_iff)
  from metrics_ref.run_refines [OF this run_ok_True] show ?thesis .
qed

section \<open>Export\<close>

text \<open>The buffer after the lines whose texts together are \<open>t\<close> have been printed.\<close>

definition buffer_of :: "nat \<Rightarrow> cstr \<Rightarrow> export_result" where
  "buffer_of cap t = (if t = [] then Export_Uninit else Export_Text (take (cap - 1) t))"

lemma metric_line_not_Nil [simp]: "metric_line dbl m \<noteq> []"
  by (simp add: metric_line_def)

lemma export_step:
  assumes "length t \<le> cap" and "0 < cap" and "line \<noteq> []"
  shows "(if cap - length t = 0 then buffer_of cap t
      else Export_Text (take (length t) (export_text (buffer_of cap t)) @ snprintf_buf (cap - length t) line))
    = buffer_of cap (t @ line)"
proof (cases "length t = cap")
  case True
  with assms(2) have "t \<noteq> []" by auto
  with True show ?thesis by (simp add: buffer_of_def)
next
  case False
  with assms have "length t \<le> cap - 1" by simp
  then show ?thesis using assms(3) False assms(1) by (simp add: buffer_of_def snprintf_buf_def)
qed

abbreviation lines_of :: "'v double_ops \<Rightarrow> 'v metric_t list \<Rightarrow> cstr" where
  "lines_of dbl ms \<equiv> concat (map (metric_line dbl) ms)"

lemma export_loop_text:
  assumes "0 < cap"
  shows "export_loop dbl cap (length t) (buffer_of cap t) ms =
    (if ms \<noteq> [] \<and> length t + length (lines_of dbl (butlast ms)) > cap then None
     else Some (buffer_of cap (t @ lines_of dbl ms)))"
proof (induction ms arbitrary: t)
  case (Cons m ms)
  let ?line = "metric_line dbl m"
  show ?case
  proof (cases "length t > cap")
    case False
    then have "export_loop dbl cap (length t) (buffer_of cap t) (m # ms)
        = export_loop dbl cap (length (t @ ?line)) (buffer_of cap (t @ ?line)) ms"
      using export_step [of t cap ?line] assms by (simp add: Let_def)
    with Cons.IH [of "t @ ?line"] False show ?thesis by auto
  qed (simp add: Let_def)
qed simp

text \<open>
  C35: What \<open>metrics_export\<close> returns. It prints the lines of all metrics, cut to 4095 characters,
  as long as the lines before the last one have at most 4096 characters together; if they have
  more, it writes past its buffer. With no metric the buffer it returns was never written.
\<close>

theorem metrics_export_text:
  "metrics_export dbl (Some ms) =
     (if ms = [] then Some Export_Uninit
      else if length (lines_of dbl (butlast ms)) > 4096 then None
      else Some (Export_Text (take 4095 (lines_of dbl ms))))"
  using export_loop_text [of 4096 dbl "[]" ms]
  by (cases ms) (simp_all add: metrics_export_def buffer_of_def)

end
