(* ===== verification/Http_Status.thy ===== *)
theory Http_Status
  imports Common
begin

text \<open>
  \<^verbatim>\<open>src/http_status/http_status.c\<close> and \<^verbatim>\<open>include/http_status.h\<close>: the status codes the header
  declares with their values, the message table and the classification of a code. The
  functions take any \<open>int\<close>.
\<close>

section \<open>Codes and messages\<close>

datatype http_status_category_t =
    HTTP_STATUS_INFORMATIONAL | HTTP_STATUS_SUCCESS | HTTP_STATUS_REDIRECTION
  | HTTP_STATUS_CLIENT_ERROR | HTTP_STATUS_SERVER_ERROR

datatype http_status_code_t =
    HTTP_STATUS_CONTINUE | HTTP_STATUS_SWITCHING_PROTOCOLS | HTTP_STATUS_PROCESSING
  | HTTP_STATUS_EARLY_HINTS | HTTP_STATUS_OK | HTTP_STATUS_CREATED | HTTP_STATUS_ACCEPTED
  | HTTP_STATUS_NON_AUTHORITATIVE | HTTP_STATUS_NO_CONTENT | HTTP_STATUS_RESET_CONTENT
  | HTTP_STATUS_PARTIAL_CONTENT | HTTP_STATUS_MULTIPLE_CHOICES | HTTP_STATUS_MOVED_PERMANENTLY
  | HTTP_STATUS_FOUND | HTTP_STATUS_SEE_OTHER | HTTP_STATUS_NOT_MODIFIED
  | HTTP_STATUS_TEMPORARY_REDIRECT | HTTP_STATUS_PERMANENT_REDIRECT | HTTP_STATUS_BAD_REQUEST
  | HTTP_STATUS_UNAUTHORIZED | HTTP_STATUS_PAYMENT_REQUIRED | HTTP_STATUS_FORBIDDEN
  | HTTP_STATUS_NOT_FOUND | HTTP_STATUS_METHOD_NOT_ALLOWED | HTTP_STATUS_NOT_ACCEPTABLE
  | HTTP_STATUS_PROXY_AUTH_REQUIRED | HTTP_STATUS_REQUEST_TIMEOUT | HTTP_STATUS_CONFLICT
  | HTTP_STATUS_GONE | HTTP_STATUS_LENGTH_REQUIRED | HTTP_STATUS_PRECONDITION_FAILED
  | HTTP_STATUS_PAYLOAD_TOO_LARGE | HTTP_STATUS_URI_TOO_LONG | HTTP_STATUS_UNSUPPORTED_MEDIA_TYPE
  | HTTP_STATUS_RANGE_NOT_SATISFIABLE | HTTP_STATUS_EXPECTATION_FAILED | HTTP_STATUS_IM_A_TEAPOT
  | HTTP_STATUS_UNPROCESSABLE_ENTITY | HTTP_STATUS_TOO_MANY_REQUESTS | HTTP_STATUS_INTERNAL_ERROR
  | HTTP_STATUS_NOT_IMPLEMENTED | HTTP_STATUS_BAD_GATEWAY | HTTP_STATUS_SERVICE_UNAVAILABLE
  | HTTP_STATUS_GATEWAY_TIMEOUT | HTTP_STATUS_HTTP_VERSION_NOT_SUPPORTED

primrec status_val :: "http_status_code_t \<Rightarrow> int" where
  "status_val HTTP_STATUS_CONTINUE = 100"
| "status_val HTTP_STATUS_SWITCHING_PROTOCOLS = 101"
| "status_val HTTP_STATUS_PROCESSING = 102"
| "status_val HTTP_STATUS_EARLY_HINTS = 103"
| "status_val HTTP_STATUS_OK = 200"
| "status_val HTTP_STATUS_CREATED = 201"
| "status_val HTTP_STATUS_ACCEPTED = 202"
| "status_val HTTP_STATUS_NON_AUTHORITATIVE = 203"
| "status_val HTTP_STATUS_NO_CONTENT = 204"
| "status_val HTTP_STATUS_RESET_CONTENT = 205"
| "status_val HTTP_STATUS_PARTIAL_CONTENT = 206"
| "status_val HTTP_STATUS_MULTIPLE_CHOICES = 300"
| "status_val HTTP_STATUS_MOVED_PERMANENTLY = 301"
| "status_val HTTP_STATUS_FOUND = 302"
| "status_val HTTP_STATUS_SEE_OTHER = 303"
| "status_val HTTP_STATUS_NOT_MODIFIED = 304"
| "status_val HTTP_STATUS_TEMPORARY_REDIRECT = 307"
| "status_val HTTP_STATUS_PERMANENT_REDIRECT = 308"
| "status_val HTTP_STATUS_BAD_REQUEST = 400"
| "status_val HTTP_STATUS_UNAUTHORIZED = 401"
| "status_val HTTP_STATUS_PAYMENT_REQUIRED = 402"
| "status_val HTTP_STATUS_FORBIDDEN = 403"
| "status_val HTTP_STATUS_NOT_FOUND = 404"
| "status_val HTTP_STATUS_METHOD_NOT_ALLOWED = 405"
| "status_val HTTP_STATUS_NOT_ACCEPTABLE = 406"
| "status_val HTTP_STATUS_PROXY_AUTH_REQUIRED = 407"
| "status_val HTTP_STATUS_REQUEST_TIMEOUT = 408"
| "status_val HTTP_STATUS_CONFLICT = 409"
| "status_val HTTP_STATUS_GONE = 410"
| "status_val HTTP_STATUS_LENGTH_REQUIRED = 411"
| "status_val HTTP_STATUS_PRECONDITION_FAILED = 412"
| "status_val HTTP_STATUS_PAYLOAD_TOO_LARGE = 413"
| "status_val HTTP_STATUS_URI_TOO_LONG = 414"
| "status_val HTTP_STATUS_UNSUPPORTED_MEDIA_TYPE = 415"
| "status_val HTTP_STATUS_RANGE_NOT_SATISFIABLE = 416"
| "status_val HTTP_STATUS_EXPECTATION_FAILED = 417"
| "status_val HTTP_STATUS_IM_A_TEAPOT = 418"
| "status_val HTTP_STATUS_UNPROCESSABLE_ENTITY = 422"
| "status_val HTTP_STATUS_TOO_MANY_REQUESTS = 429"
| "status_val HTTP_STATUS_INTERNAL_ERROR = 500"
| "status_val HTTP_STATUS_NOT_IMPLEMENTED = 501"
| "status_val HTTP_STATUS_BAD_GATEWAY = 502"
| "status_val HTTP_STATUS_SERVICE_UNAVAILABLE = 503"
| "status_val HTTP_STATUS_GATEWAY_TIMEOUT = 504"
| "status_val HTTP_STATUS_HTTP_VERSION_NOT_SUPPORTED = 505"

definition http_status_get_message :: "int \<Rightarrow> cstr" where
  "http_status_get_message status_code =
     (if status_code = 100 then ''Continue'' else
      if status_code = 101 then ''Switching Protocols'' else
      if status_code = 102 then ''Processing'' else
      if status_code = 103 then ''Early Hints'' else
      if status_code = 200 then ''OK'' else
      if status_code = 201 then ''Created'' else
      if status_code = 202 then ''Accepted'' else
      if status_code = 203 then ''Non-Authoritative Information'' else
      if status_code = 204 then ''No Content'' else
      if status_code = 205 then ''Reset Content'' else
      if status_code = 206 then ''Partial Content'' else
      if status_code = 300 then ''Multiple Choices'' else
      if status_code = 301 then ''Moved Permanently'' else
      if status_code = 302 then ''Found'' else
      if status_code = 303 then ''See Other'' else
      if status_code = 304 then ''Not Modified'' else
      if status_code = 307 then ''Temporary Redirect'' else
      if status_code = 308 then ''Permanent Redirect'' else
      if status_code = 400 then ''Bad Request'' else
      if status_code = 401 then ''Unauthorized'' else
      if status_code = 402 then ''Payment Required'' else
      if status_code = 403 then ''Forbidden'' else
      if status_code = 404 then ''Not Found'' else
      if status_code = 405 then ''Method Not Allowed'' else
      if status_code = 406 then ''Not Acceptable'' else
      if status_code = 407 then ''Proxy Authentication Required'' else
      if status_code = 408 then ''Request Timeout'' else
      if status_code = 409 then ''Conflict'' else
      if status_code = 410 then ''Gone'' else
      if status_code = 411 then ''Length Required'' else
      if status_code = 412 then ''Precondition Failed'' else
      if status_code = 413 then ''Payload Too Large'' else
      if status_code = 414 then ''URI Too Long'' else
      if status_code = 415 then ''Unsupported Media Type'' else
      if status_code = 416 then ''Range Not Satisfiable'' else
      if status_code = 417 then ''Expectation Failed'' else
      if status_code = 418 then ''I'' @ [CHR 0x27] @ ''m a teapot'' else
      if status_code = 422 then ''Unprocessable Entity'' else
      if status_code = 429 then ''Too Many Requests'' else
      if status_code = 500 then ''Internal Server Error'' else
      if status_code = 501 then ''Not Implemented'' else
      if status_code = 502 then ''Bad Gateway'' else
      if status_code = 503 then ''Service Unavailable'' else
      if status_code = 504 then ''Gateway Timeout'' else
      if status_code = 505 then ''HTTP Version Not Supported'' else
      ''Unknown'')"

section \<open>Classification\<close>

definition http_status_get_category :: "int \<Rightarrow> http_status_category_t" where
  "http_status_get_category status_code =
     (if status_code \<ge> 100 \<and> status_code < 200 then HTTP_STATUS_INFORMATIONAL
      else if status_code \<ge> 200 \<and> status_code < 300 then HTTP_STATUS_SUCCESS
      else if status_code \<ge> 300 \<and> status_code < 400 then HTTP_STATUS_REDIRECTION
      else if status_code \<ge> 400 \<and> status_code < 500 then HTTP_STATUS_CLIENT_ERROR
      else if status_code \<ge> 500 \<and> status_code < 600 then HTTP_STATUS_SERVER_ERROR
      else HTTP_STATUS_CLIENT_ERROR)"

definition http_status_is_informational :: "int \<Rightarrow> bool" where
  "http_status_is_informational status_code \<longleftrightarrow> status_code \<ge> 100 \<and> status_code < 200"

definition http_status_is_success :: "int \<Rightarrow> bool" where
  "http_status_is_success status_code \<longleftrightarrow> status_code \<ge> 200 \<and> status_code < 300"

definition http_status_is_redirection :: "int \<Rightarrow> bool" where
  "http_status_is_redirection status_code \<longleftrightarrow> status_code \<ge> 300 \<and> status_code < 400"

definition http_status_is_client_error :: "int \<Rightarrow> bool" where
  "http_status_is_client_error status_code \<longleftrightarrow> status_code \<ge> 400 \<and> status_code < 500"

definition http_status_is_server_error :: "int \<Rightarrow> bool" where
  "http_status_is_server_error status_code \<longleftrightarrow> status_code \<ge> 500 \<and> status_code < 600"

definition http_status_is_error :: "int \<Rightarrow> bool" where
  "http_status_is_error status_code \<longleftrightarrow>
     http_status_is_client_error status_code \<or> http_status_is_server_error status_code"

lemmas status_class_defs = http_status_get_category_def http_status_is_informational_def
  http_status_is_success_def http_status_is_redirection_def http_status_is_client_error_def
  http_status_is_server_error_def http_status_is_error_def

text \<open>Outside 100 to 599 the category is a client error although the predicate says it is not.\<close>

lemma category_client_error:
  "http_status_get_category n = HTTP_STATUS_CLIENT_ERROR \<longleftrightarrow>
     http_status_is_client_error n \<or> n < 100 \<or> n \<ge> 600"
  by (auto simp: status_class_defs)

section \<open>Header and table agree\<close>

lemma status_message_known: "http_status_get_message (status_val c) \<noteq> ''Unknown''"
  by (cases c) (simp_all add: http_status_get_message_def)

lemma status_val_range: "100 \<le> status_val c \<and> status_val c < 600"
  by (cases c) simp_all

lemma message_known_code:
  assumes "http_status_get_message n \<noteq> ''Unknown''"
  shows "\<exists>c. n = status_val c"
proof (rule ccontr)
  assume "\<not> ?thesis"
  then have ne: "n \<noteq> status_val c" for c by blast
  have "http_status_get_message n = ''Unknown''"
    unfolding http_status_get_message_def using
      ne [of HTTP_STATUS_CONTINUE] ne [of HTTP_STATUS_SWITCHING_PROTOCOLS]
      ne [of HTTP_STATUS_PROCESSING] ne [of HTTP_STATUS_EARLY_HINTS] ne [of HTTP_STATUS_OK]
      ne [of HTTP_STATUS_CREATED] ne [of HTTP_STATUS_ACCEPTED]
      ne [of HTTP_STATUS_NON_AUTHORITATIVE] ne [of HTTP_STATUS_NO_CONTENT]
      ne [of HTTP_STATUS_RESET_CONTENT] ne [of HTTP_STATUS_PARTIAL_CONTENT]
      ne [of HTTP_STATUS_MULTIPLE_CHOICES] ne [of HTTP_STATUS_MOVED_PERMANENTLY]
      ne [of HTTP_STATUS_FOUND] ne [of HTTP_STATUS_SEE_OTHER] ne [of HTTP_STATUS_NOT_MODIFIED]
      ne [of HTTP_STATUS_TEMPORARY_REDIRECT] ne [of HTTP_STATUS_PERMANENT_REDIRECT]
      ne [of HTTP_STATUS_BAD_REQUEST] ne [of HTTP_STATUS_UNAUTHORIZED]
      ne [of HTTP_STATUS_PAYMENT_REQUIRED] ne [of HTTP_STATUS_FORBIDDEN]
      ne [of HTTP_STATUS_NOT_FOUND] ne [of HTTP_STATUS_METHOD_NOT_ALLOWED]
      ne [of HTTP_STATUS_NOT_ACCEPTABLE] ne [of HTTP_STATUS_PROXY_AUTH_REQUIRED]
      ne [of HTTP_STATUS_REQUEST_TIMEOUT] ne [of HTTP_STATUS_CONFLICT] ne [of HTTP_STATUS_GONE]
      ne [of HTTP_STATUS_LENGTH_REQUIRED] ne [of HTTP_STATUS_PRECONDITION_FAILED]
      ne [of HTTP_STATUS_PAYLOAD_TOO_LARGE] ne [of HTTP_STATUS_URI_TOO_LONG]
      ne [of HTTP_STATUS_UNSUPPORTED_MEDIA_TYPE] ne [of HTTP_STATUS_RANGE_NOT_SATISFIABLE]
      ne [of HTTP_STATUS_EXPECTATION_FAILED] ne [of HTTP_STATUS_IM_A_TEAPOT]
      ne [of HTTP_STATUS_UNPROCESSABLE_ENTITY] ne [of HTTP_STATUS_TOO_MANY_REQUESTS]
      ne [of HTTP_STATUS_INTERNAL_ERROR] ne [of HTTP_STATUS_NOT_IMPLEMENTED]
      ne [of HTTP_STATUS_BAD_GATEWAY] ne [of HTTP_STATUS_SERVICE_UNAVAILABLE]
      ne [of HTTP_STATUS_GATEWAY_TIMEOUT] ne [of HTTP_STATUS_HTTP_VERSION_NOT_SUPPORTED]
    by (simp only: status_val.simps if_False)
  with assms show False by simp
qed

definition all_codes :: "http_status_code_t list" where
  "all_codes = [
    HTTP_STATUS_CONTINUE, HTTP_STATUS_SWITCHING_PROTOCOLS, HTTP_STATUS_PROCESSING,
    HTTP_STATUS_EARLY_HINTS, HTTP_STATUS_OK, HTTP_STATUS_CREATED, HTTP_STATUS_ACCEPTED,
    HTTP_STATUS_NON_AUTHORITATIVE, HTTP_STATUS_NO_CONTENT, HTTP_STATUS_RESET_CONTENT,
    HTTP_STATUS_PARTIAL_CONTENT, HTTP_STATUS_MULTIPLE_CHOICES, HTTP_STATUS_MOVED_PERMANENTLY,
    HTTP_STATUS_FOUND, HTTP_STATUS_SEE_OTHER, HTTP_STATUS_NOT_MODIFIED,
    HTTP_STATUS_TEMPORARY_REDIRECT, HTTP_STATUS_PERMANENT_REDIRECT, HTTP_STATUS_BAD_REQUEST,
    HTTP_STATUS_UNAUTHORIZED, HTTP_STATUS_PAYMENT_REQUIRED, HTTP_STATUS_FORBIDDEN,
    HTTP_STATUS_NOT_FOUND, HTTP_STATUS_METHOD_NOT_ALLOWED, HTTP_STATUS_NOT_ACCEPTABLE,
    HTTP_STATUS_PROXY_AUTH_REQUIRED, HTTP_STATUS_REQUEST_TIMEOUT, HTTP_STATUS_CONFLICT,
    HTTP_STATUS_GONE, HTTP_STATUS_LENGTH_REQUIRED, HTTP_STATUS_PRECONDITION_FAILED,
    HTTP_STATUS_PAYLOAD_TOO_LARGE, HTTP_STATUS_URI_TOO_LONG, HTTP_STATUS_UNSUPPORTED_MEDIA_TYPE,
    HTTP_STATUS_RANGE_NOT_SATISFIABLE, HTTP_STATUS_EXPECTATION_FAILED, HTTP_STATUS_IM_A_TEAPOT,
    HTTP_STATUS_UNPROCESSABLE_ENTITY, HTTP_STATUS_TOO_MANY_REQUESTS, HTTP_STATUS_INTERNAL_ERROR,
    HTTP_STATUS_NOT_IMPLEMENTED, HTTP_STATUS_BAD_GATEWAY, HTTP_STATUS_SERVICE_UNAVAILABLE,
    HTTP_STATUS_GATEWAY_TIMEOUT, HTTP_STATUS_HTTP_VERSION_NOT_SUPPORTED]"

lemma all_codes_complete: "c \<in> set all_codes"
  by (cases c) (simp_all add: all_codes_def)

lemma status_val_inj: "status_val c = status_val d \<longleftrightarrow> c = d"
proof -
  have "distinct (map status_val all_codes)" by code_simp
  then have "inj_on status_val (set all_codes)" by (simp add: distinct_map)
  then show ?thesis using all_codes_complete by (meson inj_on_eq_iff)
qed

text \<open>
  The declared codes and the message table agree: a code has a message other than
  \<open>Unknown\<close> exactly when the header declares it, different codes have different values, and every
  declared code is an error by the predicates exactly when its category is one of the error
  categories.
\<close>

lemma http_status_table:
  "(http_status_get_message n \<noteq> ''Unknown'') = (\<exists>c. n = status_val c)
   \<and> (status_val c = status_val d) = (c = d)
   \<and> http_status_is_error (status_val c) =
       (http_status_get_category (status_val c) \<in> {HTTP_STATUS_CLIENT_ERROR, HTTP_STATUS_SERVER_ERROR})"
proof (intro conjI)
  show "(http_status_get_message n \<noteq> ''Unknown'') = (\<exists>c. n = status_val c)"
    using status_message_known message_known_code by blast
  show "(status_val c = status_val d) = (c = d)"
    by (rule status_val_inj)
  show "http_status_is_error (status_val c) =
       (http_status_get_category (status_val c) \<in> {HTTP_STATUS_CLIENT_ERROR, HTTP_STATUS_SERVER_ERROR})"
    using status_val_range [of c] by (auto simp: status_class_defs)
qed

end
