(* ===== verification/Http_Parser.thy ===== *)
theory Http_Parser
  imports C_Format
begin

text \<open>
  \<^verbatim>\<open>src/http/http_parser.c\<close>: parsing a request and building and serialising a response. A buffer is
  the list of its characters; pointers into it are positions. The text of a buffer ends at its
  first NUL character, and searching a buffer that has none is undefined (\<open>None\<close>). An array of
  headers is a list of pairs of possibly NULL pointers, \<open>header_count\<close> its length.
\<close>

section \<open>Data\<close>

datatype http_method_t =
    HTTP_GET | HTTP_POST | HTTP_PUT | HTTP_DELETE | HTTP_HEAD | HTTP_OPTIONS | HTTP_PATCH | HTTP_UNKNOWN

datatype http_version_t = HTTP_1_0 | HTTP_1_1 | HTTP_2_0 | HTTP_VERSION_UNKNOWN

record http_header_t =
  header_name :: "cstr option"
  header_value :: "cstr option"

record http_request_t =
  rq_method :: http_method_t
  rq_version :: http_version_t
  rq_uri :: "cstr option"
  rq_path :: "cstr option"
  rq_query :: "cstr option"
  rq_headers :: "http_header_t list"
  rq_body :: "string option"
  rq_body_length :: u64

record http_response_t =
  rs_version :: http_version_t
  rs_status_code :: int
  rs_status_message :: cstr
  rs_headers :: "(cstr \<times> cstr) list"
  rs_body :: "string option"
  rs_body_length :: u64

section \<open>Methods\<close>

primrec http_method_to_string :: "http_method_t \<Rightarrow> cstr" where
  "http_method_to_string HTTP_GET = ''GET''"
| "http_method_to_string HTTP_POST = ''POST''"
| "http_method_to_string HTTP_PUT = ''PUT''"
| "http_method_to_string HTTP_DELETE = ''DELETE''"
| "http_method_to_string HTTP_HEAD = ''HEAD''"
| "http_method_to_string HTTP_OPTIONS = ''OPTIONS''"
| "http_method_to_string HTTP_PATCH = ''PATCH''"
| "http_method_to_string HTTP_UNKNOWN = ''UNKNOWN''"

definition http_method_from_string :: "cstr option \<Rightarrow> http_method_t" where
  "http_method_from_string method_str =
     (case method_str of
        None \<Rightarrow> HTTP_UNKNOWN
      | Some s \<Rightarrow>
          if c_strcmp s ''GET'' = 0 then HTTP_GET
          else if c_strcmp s ''POST'' = 0 then HTTP_POST
          else if c_strcmp s ''PUT'' = 0 then HTTP_PUT
          else if c_strcmp s ''DELETE'' = 0 then HTTP_DELETE
          else if c_strcmp s ''HEAD'' = 0 then HTTP_HEAD
          else if c_strcmp s ''OPTIONS'' = 0 then HTTP_OPTIONS
          else if c_strcmp s ''PATCH'' = 0 then HTTP_PATCH
          else HTTP_UNKNOWN)"

lemma http_method_roundtrip [simp]: "http_method_from_string (Some (http_method_to_string m)) = m"
  by (cases m) (simp_all add: http_method_from_string_def)

section \<open>Searching a text\<close>

abbreviation CRLF :: string where
  "CRLF \<equiv> [CHR 0x0D, CHR 0x0A]"

fun starts_with :: "string \<Rightarrow> string \<Rightarrow> bool" where
  "starts_with s [] = True"
| "starts_with [] (p # ps) = False"
| "starts_with (c # cs) (p # ps) = (c = p \<and> starts_with cs ps)"

fun strstr :: "string \<Rightarrow> string \<Rightarrow> nat option" where
  "strstr [] pat = (if pat = [] then Some 0 else None)"
| "strstr (c # cs) pat = (if starts_with (c # cs) pat then Some 0 else map_option Suc (strstr cs pat))"

fun strchr :: "string \<Rightarrow> char \<Rightarrow> nat option" where
  "strchr [] c = None"
| "strchr (x # xs) c = (if x = c then Some 0 else map_option Suc (strchr xs c))"

text \<open>The same from a position of the text, with the result as a position of the text.\<close>

definition strstr_from :: "string \<Rightarrow> nat \<Rightarrow> string \<Rightarrow> nat option" where
  "strstr_from s i pat = map_option ((+) i) (strstr (drop i s) pat)"

definition strchr_from :: "string \<Rightarrow> nat \<Rightarrow> char \<Rightarrow> nat option" where
  "strchr_from s i c = map_option ((+) i) (strchr (drop i s) c)"

definition substr :: "string \<Rightarrow> nat \<Rightarrow> nat \<Rightarrow> string" where
  "substr s i j = take (j - i) (drop i s)"

text \<open>\<open>%<width>s\<close> skips white space and takes at least one other character.\<close>

definition scan_s :: "nat \<Rightarrow> string \<Rightarrow> (string \<times> string) option" where
  "scan_s width s = scan_set width (\<lambda>c. \<not> is_space c) (dropWhile is_space s)"

lemma strstr_from_ge: "strstr_from s i pat = Some n \<Longrightarrow> i \<le> n"
  by (auto simp: strstr_from_def)

section \<open>Requests\<close>

definition http_request_create :: http_request_t where
  "http_request_create =
     \<lparr>rq_method = HTTP_UNKNOWN, rq_version = HTTP_VERSION_UNKNOWN, rq_uri = None, rq_path = None,
      rq_query = None, rq_headers = [], rq_body = None, rq_body_length = 0\<rparr>"

text \<open>The allocations \<open>http_request_destroy\<close> releases; freeing NULL does nothing.\<close>

definition freed_headers :: "http_header_t list \<Rightarrow> cstr list" where
  "freed_headers hs = fold (\<lambda>h freed. freed @ List.map_filter id [header_name h, header_value h]) hs []"

definition http_request_destroy :: "http_request_t option \<Rightarrow> string list" where
  "http_request_destroy request =
     (case request of
        None \<Rightarrow> []
      | Some r \<Rightarrow> List.map_filter id [rq_uri r, rq_path r, rq_query r, rq_body r]
          @ freed_headers (rq_headers r))"

text \<open>The request line: method, target and version, each cut to the size of its array.\<close>

definition scan_request_line :: "string \<Rightarrow> (cstr \<times> cstr \<times> cstr) option" where
  "scan_request_line s = do {
     (m, s1) \<leftarrow> scan_s 15 s;
     (u, s2) \<leftarrow> scan_s 2047 s1;
     (v, s3) \<leftarrow> scan_s 15 s2;
     Some (m, u, v)
   }"

definition parse_version :: "cstr \<Rightarrow> http_version_t \<Rightarrow> http_version_t" where
  "parse_version version_str old =
     (if c_strcmp version_str ''HTTP/1.0'' = 0 then HTTP_1_0
      else if c_strcmp version_str ''HTTP/1.1'' = 0 then HTTP_1_1
      else if c_strcmp version_str ''HTTP/2.0'' = 0 then HTTP_2_0
      else old)"

text \<open>The path up to the first question mark; the query, when there is one, is what follows.\<close>

definition parse_target :: "cstr \<Rightarrow> http_request_t \<Rightarrow> http_request_t" where
  "parse_target uri request =
     (case strchr uri (CHR ''?'') of
        Some path_len \<Rightarrow>
          request\<lparr>rq_path := Some (take path_len uri), rq_query := Some (drop (path_len + 1) uri)\<rparr>
      | None \<Rightarrow> request\<lparr>rq_path := Some uri\<rparr>)"

function count_headers :: "string \<Rightarrow> nat \<Rightarrow> nat \<Rightarrow> nat \<Rightarrow> nat" where
  "count_headers s headers_end current n =
     (if current < headers_end then
        case strstr_from s current CRLF of
          None \<Rightarrow> n
        | Some nxt \<Rightarrow>
            if nxt > headers_end then n else count_headers s headers_end (nxt + 2) (n + 1)
      else n)"
  by pat_completeness auto
termination
  by (relation "measure (\<lambda>(s, headers_end, current, n). headers_end - current)")
    (auto dest: strstr_from_ge)

declare count_headers.simps [simp del]

text \<open>
  \<open>isspace\<close> of a plain \<open>char\<close>. Its argument has to be a value of \<open>unsigned char\<close> or \<open>EOF\<close>; where
  \<open>char\<close> is signed, which is the default on x86 and which the makefile does not change, the bytes
  0x80 to 0xFE are negative numbers below \<open>EOF\<close>, and the call is undefined. The byte 0xFF is \<open>EOF\<close>, which is no space.
\<close>

definition isspace :: "char \<Rightarrow> bool option" where
  "isspace c = (let n = of_char c :: nat in if 128 \<le> n \<and> n < 255 then None else Some (is_space c))"

text \<open>\<open>value_start\<close>: past the colon and the spaces after it, but not past the end of the line.\<close>

function skip_spaces :: "string \<Rightarrow> nat \<Rightarrow> nat \<Rightarrow> nat option" where
  "skip_spaces s nxt value_start =
     (if value_start < nxt then
        case isspace (s ! value_start) of
          None \<Rightarrow> None
        | Some sp \<Rightarrow> if sp then skip_spaces s nxt (value_start + 1) else Some value_start
      else Some value_start)"
  by pat_completeness auto
termination by (relation "measure (\<lambda>(s, nxt, value_start). nxt - value_start)") auto

declare skip_spaces.simps [simp del]

definition parse_header :: "string \<Rightarrow> nat \<Rightarrow> nat \<Rightarrow> nat \<Rightarrow> http_header_t option" where
  "parse_header s current colon nxt = do {
     value_start \<leftarrow> skip_spaces s nxt (colon + 1);
     Some \<lparr>header_name = Some (substr s current colon), header_value = Some (substr s value_start nxt)\<rparr>
   }"

function fill_headers ::
  "string \<Rightarrow> nat \<Rightarrow> nat \<Rightarrow> nat \<Rightarrow> http_header_t list \<Rightarrow> http_header_t list option" where
  "fill_headers s headers_end current idx hs =
     (if current < headers_end \<and> idx < length hs then
        case strstr_from s current CRLF of
          None \<Rightarrow> Some hs
        | Some nxt \<Rightarrow>
            if nxt > headers_end then Some hs
            else
              (case strchr_from s current (CHR '':'') of
                 Some colon \<Rightarrow>
                   if colon < nxt then
                     (case parse_header s current colon nxt of
                        None \<Rightarrow> None
                      | Some h \<Rightarrow> fill_headers s headers_end (nxt + 2) (idx + 1) (hs[idx := h]))
                   else fill_headers s headers_end (nxt + 2) idx hs
               | None \<Rightarrow> fill_headers s headers_end (nxt + 2) idx hs)
      else Some hs)"
  by pat_completeness auto
termination
  by (relation "measure (\<lambda>(s, headers_end, current, idx, hs). headers_end - current)")
    (auto dest: strstr_from_ge)

declare fill_headers.simps [simp del]

abbreviation null_header :: http_header_t where
  "null_header \<equiv> \<lparr>header_name = None, header_value = None\<rparr>"

text \<open>
  Header lines and body, after \<open>headers_end\<close> has been found. The body is copied from the buffer,
  \<open>length - (body_start - raw_request)\<close> bytes of it; copying from outside is undefined.
\<close>

definition parse_headers :: "string \<Rightarrow> nat \<Rightarrow> nat \<Rightarrow> http_request_t \<Rightarrow> http_request_t option" where
  "parse_headers s header_start headers_end request =
     (let n = count_headers s headers_end header_start 0
      in if n > 0
         then map_option (\<lambda>hs. request\<lparr>rq_headers := hs\<rparr>)
                (fill_headers s headers_end header_start 0 (replicate n null_header))
         else Some request)"

definition parse_body :: "string \<Rightarrow> u64 \<Rightarrow> nat \<Rightarrow> http_request_t \<Rightarrow> http_request_t option" where
  "parse_body raw len body_start request =
     (let remaining = len - of_nat body_start
      in if remaining > 0 then
           if body_start + unat remaining \<le> length raw
           then Some (request\<lparr>rq_body := Some (take (unat remaining) (drop body_start raw)),
                              rq_body_length := remaining\<rparr>)
           else None
         else Some request)"

definition http_request_parse ::
  "http_request_t option \<Rightarrow> string option \<Rightarrow> u64 \<Rightarrow> (error_code_t \<times> http_request_t option) option" where
  "http_request_parse request raw_request len =
     (case (request, raw_request) of
        (Some rq, Some raw) \<Rightarrow>
          if len = 0 then Some (ERROR_INVALID_PARAM, request)
          else if CHR 0x00 \<notin> set raw then None
          else
            let s = takeWhile (\<lambda>c. c \<noteq> CHR 0x00) raw
            in (case strstr s CRLF of
                  None \<Rightarrow> Some (ERROR_INVALID_PARAM, request)
                | Some line_end \<Rightarrow>
                    (case scan_request_line s of
                       None \<Rightarrow> Some (ERROR_INVALID_PARAM, request)
                     | Some (m, u, v) \<Rightarrow>
                         let rq = rq\<lparr>rq_method := http_method_from_string (Some m), rq_uri := Some u,
                                     rq_version := parse_version v (rq_version rq)\<rparr>;
                             rq = parse_target u rq;
                             header_start = line_end + 2
                         in (case strstr_from s header_start (CRLF @ CRLF) of
                               None \<Rightarrow> Some (SUCCESS, Some rq)
                             | Some headers_end \<Rightarrow> do {
                                 rq \<leftarrow> parse_headers s header_start headers_end rq;
                                 rq \<leftarrow> parse_body raw len (headers_end + 4) rq;
                                 Some (SUCCESS, Some rq)
                               })))
      | _ \<Rightarrow> Some (ERROR_INVALID_PARAM, request))"

text \<open>
  \<open>strcasecmp\<close> in the C locale. Comparing with a NULL name is undefined; the value returned may
  be NULL.
\<close>

definition tolower :: "char \<Rightarrow> char" where
  "tolower c = (let n = of_char c :: nat in if 65 \<le> n \<and> n \<le> 90 then char_of (n + 32) else c)"

definition strcaseeq :: "cstr \<Rightarrow> cstr \<Rightarrow> bool" where
  "strcaseeq a b \<longleftrightarrow> map tolower a = map tolower b"

fun get_header_loop :: "cstr \<Rightarrow> http_header_t list \<Rightarrow> cstr option option" where
  "get_header_loop name [] = Some None"
| "get_header_loop name (h # hs) =
     (case header_name h of
        None \<Rightarrow> None
      | Some n \<Rightarrow> if strcaseeq n name then Some (header_value h) else get_header_loop name hs)"

definition http_request_get_header ::
  "http_request_t option \<Rightarrow> cstr option \<Rightarrow> cstr option option" where
  "http_request_get_header request name =
     (case (request, name) of
        (Some r, Some n) \<Rightarrow> get_header_loop n (rq_headers r)
      | _ \<Rightarrow> Some None)"

definition http_request_add_header ::
  "http_request_t option \<Rightarrow> cstr option \<Rightarrow> cstr option \<Rightarrow> error_code_t \<times> http_request_t option" where
  "http_request_add_header request name val =
     (case (request, name, val) of
        (Some r, Some n, Some v) \<Rightarrow>
          (SUCCESS, Some (r\<lparr>rq_headers := rq_headers r @ [\<lparr>header_name = Some n, header_value = Some v\<rparr>]\<rparr>))
      | _ \<Rightarrow> (ERROR_INVALID_PARAM, request))"

section \<open>Responses\<close>

definition http_response_create :: "int \<Rightarrow> cstr option \<Rightarrow> http_response_t" where
  "http_response_create status_code status_message =
     \<lparr>rs_version = HTTP_1_1, rs_status_code = status_code,
      rs_status_message = (case status_message of Some m \<Rightarrow> m | None \<Rightarrow> ''OK''),
      rs_headers = [], rs_body = None, rs_body_length = 0\<rparr>"

definition http_response_destroy :: "http_response_t option \<Rightarrow> string list" where
  "http_response_destroy response =
     (case response of
        None \<Rightarrow> []
      | Some r \<Rightarrow> rs_status_message r # List.map_filter id [rs_body r]
          @ fold (\<lambda>(n, v) freed. freed @ [n, v]) (rs_headers r) [])"

definition http_response_add_header ::
  "http_response_t option \<Rightarrow> cstr option \<Rightarrow> cstr option \<Rightarrow> error_code_t \<times> http_response_t option" where
  "http_response_add_header response name val =
     (case (response, name, val) of
        (Some r, Some n, Some v) \<Rightarrow> (SUCCESS, Some (r\<lparr>rs_headers := rs_headers r @ [(n, v)]\<rparr>))
      | _ \<Rightarrow> (ERROR_INVALID_PARAM, response))"

text \<open>Copying more bytes than the caller's buffer has is undefined.\<close>

definition http_response_set_body ::
  "http_response_t option \<Rightarrow> string option \<Rightarrow> u64 \<Rightarrow> (error_code_t \<times> http_response_t option) option" where
  "http_response_set_body response body len =
     (case response of
        None \<Rightarrow> Some (ERROR_INVALID_PARAM, None)
      | Some r \<Rightarrow>
          (case body of
             Some b \<Rightarrow>
               if len > 0 then
                 if unat len \<le> length b
                 then Some (SUCCESS, Some (r\<lparr>rs_body := Some (take (unat len) b), rs_body_length := len\<rparr>))
                 else None
               else Some (SUCCESS, Some (r\<lparr>rs_body := None, rs_body_length := 0\<rparr>))
           | None \<Rightarrow> Some (SUCCESS, Some (r\<lparr>rs_body := None, rs_body_length := 0\<rparr>))))"

text \<open>
  One \<open>offset += snprintf(buffer + offset, size - offset, ...)\<close>: with \<open>offset\<close> past the size the
  subtraction wraps and the call is undefined.
\<close>

definition snprintf_at :: "nat \<Rightarrow> string \<Rightarrow> nat \<times> string \<Rightarrow> (nat \<times> string) option" where
  "snprintf_at cap t = (\<lambda>(offset, buffer).
     if offset > cap then None
     else Some (offset + length t,
       if offset = cap then buffer else take offset buffer @ snprintf_buf (cap - offset) t))"

definition status_line :: "http_response_t \<Rightarrow> string" where
  "status_line r = ''HTTP/1.1 '' @ dec_int (rs_status_code r) @ '' '' @ rs_status_message r @ CRLF"

fun header_line :: "cstr \<times> cstr \<Rightarrow> string" where
  "header_line (n, v) = n @ '': '' @ v @ CRLF"

text \<open>The size of the buffer, as the code computes it.\<close>

definition response_size :: "http_response_t \<Rightarrow> nat" where
  "response_size r =
     fold (\<lambda>(n, v) sz. sz + (length n + length v + 4)) (rs_headers r) 256 + (unat (rs_body_length r) + 4)"

text \<open>The returned buffer and \<open>*out_length\<close>.\<close>

definition http_response_serialize :: "http_response_t option \<Rightarrow> (string \<times> nat) option option" where
  "http_response_serialize response =
     (case response of
        None \<Rightarrow> Some None
      | Some r \<Rightarrow> do {
          let cap = response_size r;
          st \<leftarrow> snprintf_at cap (status_line r) (0, []);
          st \<leftarrow> for_each (\<lambda>h. snprintf_at cap (header_line h)) (rs_headers r) st;
          (offset, buffer) \<leftarrow> snprintf_at cap CRLF st;
          (case rs_body r of
             Some b \<Rightarrow>
               if rs_body_length r > 0 then
                 if offset + unat (rs_body_length r) \<le> cap \<and> unat (rs_body_length r) \<le> length b
                 then Some (Some (take offset buffer @ take (unat (rs_body_length r)) b,
                                  offset + unat (rs_body_length r)))
                 else None
               else Some (Some (buffer, offset))
           | None \<Rightarrow> Some (Some (buffer, offset)))
        })"

section \<open>Serialisation\<close>

text \<open>The body field is as long as the length field says; every operation keeps this.\<close>

definition response_ok :: "http_response_t \<Rightarrow> bool" where
  "response_ok r \<longleftrightarrow>
     (case rs_body r of None \<Rightarrow> rs_body_length r = 0 | Some b \<Rightarrow> length b = unat (rs_body_length r))"

lemma response_ok_create: "response_ok (http_response_create code msg)"
  by (simp add: response_ok_def http_response_create_def)

lemma response_ok_add_header:
  "response_ok r \<Longrightarrow> http_response_add_header (Some r) n v = (e, Some r') \<Longrightarrow> response_ok r'"
  by (auto simp: response_ok_def http_response_add_header_def split: option.splits)

lemma response_ok_set_body:
  "http_response_set_body (Some r) body len = Some (e, Some r') \<Longrightarrow> response_ok r'"
  by (auto simp: response_ok_def http_response_set_body_def split: option.splits if_splits)

lemma snprintf_at_fits:
  "length b + length t < cap \<Longrightarrow> snprintf_at cap t (length b, b) = Some (length (b @ t), b @ t)"
  by (simp add: snprintf_at_def snprintf_buf_fits)

abbreviation header_lines :: "(cstr \<times> cstr) list \<Rightarrow> string" where
  "header_lines hs \<equiv> concat (map header_line hs)"

lemma header_lines_fit:
  assumes "length b + length (header_lines hs) < cap"
  shows "for_each (\<lambda>h. snprintf_at cap (header_line h)) hs (length b, b)
    = Some (length (b @ header_lines hs), b @ header_lines hs)"
  using assms
proof (induction hs arbitrary: b)
  case (Cons h hs)
  then show ?case using Cons.IH [of "b @ header_line h"]
    by (simp add: snprintf_at_fits add.assoc)
qed simp

lemma response_size_eq:
  "response_size r = 260 + length (header_lines (rs_headers r)) + unat (rs_body_length r)"
proof -
  have "fold (\<lambda>(n, v) sz. sz + (length n + length v + 4)) hs k = k + length (header_lines hs)" for hs k
    by (induction hs arbitrary: k) auto
  then show ?thesis by (simp add: response_size_def)
qed

text \<open>The bytes a response stands for.\<close>

definition response_text :: "http_response_t \<Rightarrow> string" where
  "response_text r = status_line r @ header_lines (rs_headers r) @ CRLF
     @ (case rs_body r of None \<Rightarrow> [] | Some b \<Rightarrow> b)"

lemma serialize_exact:
  assumes "response_ok r" and "length (status_line r) \<le> 256"
  shows "http_response_serialize (Some r) = Some (Some (response_text r, length (response_text r)))"
proof -
  let ?cap = "response_size r" and ?h = "header_lines (rs_headers r)"
  let ?t = "status_line r @ ?h @ CRLF"
  have cap: "length ?t + unat (rs_body_length r) < ?cap"
    using assms(2) by (simp add: response_size_eq)
  have 1: "snprintf_at ?cap (status_line r) (0, []) = Some (length (status_line r), status_line r)"
    using snprintf_at_fits [of "[]" "status_line r" ?cap] cap by simp
  have 2: "for_each (\<lambda>h. snprintf_at ?cap (header_line h)) (rs_headers r) (length (status_line r), status_line r)
      = Some (length (status_line r @ ?h), status_line r @ ?h)"
    by (rule header_lines_fit) (use cap in simp)
  have 3: "snprintf_at ?cap CRLF (length (status_line r @ ?h), status_line r @ ?h) = Some (length ?t, ?t)"
    using snprintf_at_fits [of "status_line r @ ?h" CRLF ?cap] cap by simp
  show ?thesis
  proof (cases "rs_body r")
    case None
    then show ?thesis using 1 2 3
      by (simp add: http_response_serialize_def response_text_def)
  next
    case (Some b)
    then have "length b = unat (rs_body_length r)" using assms(1) by (simp add: response_ok_def)
    moreover from this have "rs_body_length r = 0 \<longleftrightarrow> b = []"
      by (metis length_0_conv unsigned_eq_0_iff)
    ultimately show ?thesis using 1 2 3 cap Some
      by (auto simp: http_response_serialize_def response_text_def word_gt_0)
  qed
qed

text \<open>
  C22: Serialising is exact. For every response whose body is as long as its length field says, as
  all operations keep it, and whose status line has at most 256 characters, the
  returned buffer holds the status line, the headers in the order they were added, an empty line
  and the whole body, whatever bytes that has; the reported length is the length of that text
  and nothing is written outside the buffer.
\<close>

theorem http_response_serialize_exact:
  assumes "response_ok r" and "length (status_line r) \<le> 256"
  shows "http_response_serialize (Some r) = Some (Some (response_text r, length (response_text r)))"
  using assms by (rule serialize_exact)

theorem http_response_serialize_exact_witness:
  "http_response_serialize (Some (http_response_create 404 (Some ''Not Found'')))
   = Some (Some (''HTTP/1.1 404 Not Found'' @ CRLF @ CRLF, 26))"
proof -
  let ?r = "http_response_create 404 (Some ''Not Found'')"
  have "length (status_line ?r) \<le> 256" by code_simp
  moreover have "response_text ?r = ''HTTP/1.1 404 Not Found'' @ CRLF @ CRLF" by code_simp
  ultimately show ?thesis using http_response_serialize_exact [OF response_ok_create, of 404 "Some ''Not Found''"] by simp
qed

end
