(* ===== verification/Http_Request.thy ===== *)
theory Http_Request
  imports Http_Parser
begin

text \<open>
  Correctness of \<open>http_request_parse\<close>: on every buffer a caller can pass, what it answers, which
  headers it stores and exactly when its behaviour is undefined; and that on the text of a
  request it gives back the parts the text was made of.
\<close>

section \<open>No access outside the buffer\<close>

lemma starts_with_length: "starts_with s pat \<Longrightarrow> length pat \<le> length s"
  by (induction s pat rule: starts_with.induct) auto

lemma strstr_bound: "strstr s pat = Some n \<Longrightarrow> n + length pat \<le> length s"
  by (induction s pat arbitrary: n rule: strstr.induct)
    (auto split: if_splits dest: starts_with_length)

lemma strstr_from_bound:
  assumes "strstr_from s i pat = Some n" and "pat \<noteq> []"
  shows "n + length pat \<le> length s"
proof -
  from assms(1) obtain k where k: "strstr (drop i s) pat = Some k" "n = i + k"
    by (auto simp: strstr_from_def)
  from strstr_bound [OF k(1)] have "k + length pat \<le> length s - i" by simp
  moreover have "0 < length pat" using assms(2) by simp
  ultimately show ?thesis using k(2) by linarith
qed

lemma unat_length_minus:
  assumes "b \<le> n" and "n < 2 ^ 64"
  shows "unat (of_nat n - of_nat b :: u64) = n - b"
proof -
  have "of_nat n - of_nat b = (of_nat (n - b) :: u64)" using assms(1) by (simp add: of_nat_diff)
  then show ?thesis using assms(2) by (simp add: unat_of_nat)
qed

lemma parse_body_eq:
  assumes "b \<le> n" and "n < 2 ^ 64" and "n \<le> length raw"
  shows "parse_body raw (of_nat n) b rq = Some
    (if b < n then rq\<lparr>rq_body := Some (take (n - b) (drop b raw)), rq_body_length := of_nat n - of_nat b\<rparr> else rq)"
proof -
  have "(of_nat n - of_nat b :: u64) > 0 \<longleftrightarrow> b < n"
    using unat_length_minus [OF assms(1,2)] by (metis diff_is_0_eq linorder_not_le unsigned_eq_0_iff word_gt_0)
  then show ?thesis
    using unat_length_minus [OF assms(1,2)] assms by (simp add: parse_body_def Let_def)
qed

section \<open>Searching\<close>

lemma strchr_eq: "strchr s c = (if c \<in> set s then Some (length (takeWhile (\<lambda>x. x \<noteq> c) s)) else None)"
  by (induction s) auto

lemma starts_with_append [simp]: "starts_with (pat @ s) pat"
  by (induction pat) simp_all

lemma strstr_CRLF: "CHR 0x0D \<notin> set a \<Longrightarrow> strstr (a @ CHR 0x0D # CHR 0x0A # rest) CRLF = Some (length a)"
  by (induction a) auto

lemma strstr_CRLF2:
  "CHR 0x0D \<notin> set a \<Longrightarrow> strstr (a @ CRLF @ CRLF @ rest) (CRLF @ CRLF) = Some (length a)"
  by (induction a) auto

lemma strstr_CRLF2_skip:
  assumes "CHR 0x0D \<notin> set a" and "x \<noteq> CHR 0x0D"
  shows "strstr (a @ CRLF @ x # rest) (CRLF @ CRLF)
    = map_option ((+) (length a + 2)) (strstr (x # rest) (CRLF @ CRLF))"
  using assms(1)
proof (induction a)
  case Nil
  then show ?case using assms(2) by (cases "strstr rest (CRLF @ CRLF)") simp_all
next
  case (Cons c a)
  then show ?case
    by (cases "strstr (x # rest) (CRLF @ CRLF)") (auto simp del: strstr.simps simp: strstr.simps(2) [of c])
qed

text \<open>The lines of the header section, each with its line end.\<close>

definition lines_text :: "string list \<Rightarrow> string" where
  "lines_text ls = concat (map (\<lambda>l. l @ CRLF) ls)"

lemma lines_text_simps [simp]:
  "lines_text [] = []" "lines_text (l # ls) = l @ CRLF @ lines_text ls"
  by (simp_all add: lines_text_def)

definition line_ok :: "string \<Rightarrow> bool" where
  "line_ok l \<longleftrightarrow> l \<noteq> [] \<and> CHR 0x0D \<notin> set l \<and> CHR 0x00 \<notin> set l"

lemma strstr_headers_end:
  assumes "ls \<noteq> []" and "\<forall>l \<in> set ls. line_ok l"
  shows "strstr (lines_text ls @ CRLF @ rest) (CRLF @ CRLF) = Some (length (lines_text ls) - 2)"
  using assms
proof (induction ls)
  case (Cons l ls)
  show ?case
  proof (cases ls)
    case Nil
    then show ?thesis using Cons.prems strstr_CRLF2 [of l rest] by (simp add: line_ok_def)
  next
    case (Cons l2 ls2)
    then obtain x xs where x: "l2 = x # xs" "x \<noteq> CHR 0x0D"
      using Cons.prems by (cases l2) (auto simp: line_ok_def)
    have "length (lines_text ls) \<ge> 2" using Cons by simp
    with x Cons Cons.IH Cons.prems
      strstr_CRLF2_skip [of l x "xs @ CRLF @ lines_text ls2 @ CRLF @ rest"]
    show ?thesis by (simp add: line_ok_def del: strstr.simps)
  qed
qed simp

text \<open>The lines of any text: they are what lies between its line ends.\<close>

function crlf_lines :: "string \<Rightarrow> string list" where
  "crlf_lines t =
     (if t = [] then []
      else case strstr t CRLF of
             None \<Rightarrow> [t]
           | Some i \<Rightarrow> take i t # crlf_lines (drop (i + 2) t))"
  by pat_completeness auto
termination by (relation "measure length") auto

declare crlf_lines.simps [simp del]

lemma crlf_lines_Nil [simp]: "crlf_lines [] = []"
  by (subst crlf_lines.simps) simp

lemma crlf_lines_eq_Nil [simp]: "crlf_lines t = [] \<longleftrightarrow> t = []"
  by (subst crlf_lines.simps) (simp split: option.split)

lemma strstr_CRLF_end:
  "strstr (t @ CHR 0x0D # CHR 0x0A # rest) CRLF = Some (case strstr t CRLF of None \<Rightarrow> length t | Some i \<Rightarrow> i)"
proof (induction t)
  case (Cons c t)
  then show ?case by (cases t) (auto split: option.splits)
qed simp

lemma starts_with_iff: "starts_with s pat \<longleftrightarrow> (\<exists>r. s = pat @ r)"
  by (induction s pat rule: starts_with.induct) auto

lemma strstr_split: "strstr t pat = Some i \<Longrightarrow> t = take i t @ pat @ drop (i + length pat) t"
proof (induction t pat arbitrary: i rule: strstr.induct)
  case (2 c cs pat)
  show ?case
  proof (cases "starts_with (c # cs) pat")
    case True
    then obtain r where r: "c # cs = pat @ r" by (auto simp: starts_with_iff)
    from True "2.prems" have "i = 0" by simp
    then show ?thesis by (simp add: r)
  next
    case False
    with "2.prems" obtain k where "i = Suc k" "strstr cs pat = Some k" by auto
    with "2.IH" [OF False] show ?thesis by simp
  qed
qed (simp split: if_splits)

lemma lines_end: "ls \<noteq> [] \<Longrightarrow> \<exists>u. lines_text ls = u @ CRLF"
proof (induction ls)
  case (Cons l ls)
  then show ?case by (cases ls) (auto simp: append_eq_append_conv2)
qed simp

lemma crlf_lines_text:
  assumes "ls \<noteq> []" and "\<forall>l \<in> set ls. line_ok l" and "lines_text ls = t @ CRLF"
  shows "crlf_lines t = ls"
  using assms
proof (induction ls arbitrary: t)
  case (Cons l ls)
  have no_end: "strstr l CRLF = None"
  proof (cases "strstr l CRLF")
    case (Some i)
    then have "CHR 0x0D \<in> set l" by (subst strstr_split [OF Some]) simp
    with Cons.prems(2) show ?thesis by (simp add: line_ok_def)
  qed
  show ?case
  proof (cases "ls = []")
    case True
    with Cons.prems no_end show ?thesis by (subst crlf_lines.simps) (simp add: line_ok_def)
  next
    case False
    from lines_end [OF False] obtain u where u: "lines_text ls = u @ CRLF" by blast
    with Cons.prems(3) have t: "t = l @ CRLF @ u" by simp
    have "crlf_lines u = ls" by (rule Cons.IH [OF False _ u]) (use Cons.prems(2) in simp)
    with no_end strstr_CRLF_end [of l u] show ?thesis
      by (subst crlf_lines.simps) (simp add: t del: strstr.simps)
  qed
qed simp

section \<open>The header loops\<close>

lemma strstr_from_end:
  "strstr_from (pre @ t @ CRLF @ rest) (length pre) CRLF
    = Some (length pre + (case strstr t CRLF of None \<Rightarrow> length t | Some i \<Rightarrow> i))"
  by (simp add: strstr_from_def strstr_CRLF_end del: strstr.simps)

text \<open>
  One step of the loops over a text \<open>t\<close> of lines: the first line, and the text after it.
\<close>

lemma first_line:
  assumes "t \<noteq> []"
  obtains (last) "strstr t CRLF = None" and "crlf_lines t = [t]"
    | (more) l u where "strstr t CRLF = Some (length l)" and "t = l @ CRLF @ u" and "crlf_lines t = l # crlf_lines u"
proof (cases "strstr t CRLF")
  case None
  then show ?thesis using assms by (intro last) (simp_all add: crlf_lines.simps [of t])
next
  case (Some i)
  from strstr_split [OF Some] have t: "t = take i t @ CRLF @ drop (i + 2) t" by simp
  have "length (take i t) = i" using strstr_bound [OF Some] by simp
  then show ?thesis using Some t assms by (intro more [of "take i t" "drop (i + 2) t"]) (simp_all add: crlf_lines.simps [of t])
qed

lemma count_headers_text:
  "count_headers (pre @ t @ CRLF @ rest) (length pre + length t) (length pre) n = n + length (crlf_lines t)"
proof (induction t arbitrary: pre n rule: measure_induct_rule [of length])
  case (less t)
  show ?case
  proof (cases "t = []")
    case True
    then show ?thesis by (subst count_headers.simps) simp
  next
    case False
    then show ?thesis
    proof (cases rule: first_line)
      case last
      with False strstr_from_end [of pre t rest] show ?thesis
        by (subst count_headers.simps) (simp add: count_headers.simps [of _ _ "Suc (Suc _)"])
    next
      case (more l u)
      then have "count_headers ((pre @ l @ CRLF) @ u @ CRLF @ rest) (length (pre @ l @ CRLF) + length u) (length (pre @ l @ CRLF)) (n + 1)
          = n + 1 + length (crlf_lines u)"
        by (intro less.IH) simp
      with more strstr_from_end [of pre t rest] False show ?thesis
        by (subst count_headers.simps) (simp add: add.assoc)
    qed
  qed
qed

text \<open>A value whose first character after white space is one that \<open>isspace\<close> is defined for.\<close>

definition start_defined :: "string \<Rightarrow> bool" where
  "start_defined v = (case dropWhile is_space v of [] \<Rightarrow> True | c # _ \<Rightarrow> isspace c \<noteq> None)"

lemma isspace_space: "is_space c \<Longrightarrow> isspace c = Some True"
  by (auto simp: isspace_def is_space_def Let_def)

lemma isspace_other: "\<not> is_space c \<Longrightarrow> isspace c \<noteq> None \<Longrightarrow> isspace c = Some False"
  by (auto simp: isspace_def Let_def split: if_splits)

lemma start_defined_Nil [simp]: "start_defined []"
  by (simp add: start_defined_def)

lemma start_defined_space: "is_space c \<Longrightarrow> start_defined (c # v) = start_defined v"
  by (simp add: start_defined_def)

lemma start_defined_other: "\<not> is_space c \<Longrightarrow> start_defined (c # v) \<longleftrightarrow> isspace c \<noteq> None"
  by (simp add: start_defined_def)

lemma substr_skip_spaces:
  assumes "i \<le> j" and "j \<le> length s"
  shows "map_option (\<lambda>k. substr s k j) (skip_spaces s j i)
    = (if start_defined (substr s i j) then Some (dropWhile is_space (substr s i j)) else None)"
  using assms
proof (induction s j i rule: skip_spaces.induct)
  case (1 s j i)
  show ?case
  proof (cases "i < j")
    case True
    then have sub: "substr s i j = s ! i # substr s (i + 1) j"
      using "1.prems" by (simp add: substr_def take_Suc_conv_app_nth Cons_nth_drop_Suc [symmetric] Suc_diff_Suc [symmetric])
    show ?thesis
    proof (cases "is_space (s ! i)")
      case space: True
      have "map_option (\<lambda>k. substr s k j) (skip_spaces s j (i + 1))
        = (if start_defined (substr s (i + 1) j) then Some (dropWhile is_space (substr s (i + 1) j)) else None)"
        by (rule "1.IH" [OF True isspace_space [OF space]]) (use True "1.prems" in simp_all)
      then show ?thesis using True space
        by (subst skip_spaces.simps) (simp add: sub isspace_space start_defined_space)
    next
      case False
      then show ?thesis using True sub isspace_other [OF False]
        by (cases "isspace (s ! i) = None") (simp_all add: start_defined_other skip_spaces.simps [of s j i])
    qed
  next
    case False
    then show ?thesis by (subst skip_spaces.simps) (simp add: substr_def)
  qed
qed

definition has_colon :: "string \<Rightarrow> bool" where
  "has_colon l \<longleftrightarrow> CHR '':'' \<in> set l"

text \<open>The header a line with a colon stands for.\<close>

definition header_of :: "string \<Rightarrow> http_header_t" where
  "header_of l = \<lparr>header_name = Some (takeWhile (\<lambda>c. c \<noteq> CHR '':'') l),
     header_value = Some (dropWhile is_space (tl (dropWhile (\<lambda>c. c \<noteq> CHR '':'') l)))\<rparr>"

text \<open>Reading the header of a line is defined: it has none, or a value with a good start.\<close>

definition value_defined :: "string \<Rightarrow> bool" where
  "value_defined l \<longleftrightarrow> has_colon l \<longrightarrow> start_defined (tl (dropWhile (\<lambda>c. c \<noteq> CHR '':'') l))"

lemma strchr_from_line:
  assumes "has_colon l"
  shows "strchr_from (pre @ l @ rest) (length pre) (CHR '':'')
    = Some (length pre + length (takeWhile (\<lambda>c. c \<noteq> CHR '':'') l))"
  using assms by (auto simp: strchr_from_def strchr_eq has_colon_def takeWhile_append1)

lemma strchr_from_no_colon:
  assumes "\<not> has_colon l" and "strchr_from (pre @ l @ rest) (length pre) (CHR '':'') = Some i"
  shows "length pre + length l \<le> i"
proof -
  have "takeWhile (\<lambda>c. c \<noteq> CHR '':'') (l @ rest) = l @ takeWhile (\<lambda>c. c \<noteq> CHR '':'') rest"
    using assms(1) by (intro takeWhile_append2) (auto simp: has_colon_def)
  then show ?thesis using assms(2) by (auto simp: strchr_from_def strchr_eq split: if_splits)
qed

lemma split_colon:
  assumes "has_colon l"
  obtains n v where "l = n @ CHR '':'' # v" and "takeWhile (\<lambda>c. c \<noteq> CHR '':'') l = n"
    and "dropWhile (\<lambda>c. c \<noteq> CHR '':'') l = CHR '':'' # v"
proof -
  obtain n v where "l = n @ CHR '':'' # v" "CHR '':'' \<notin> set n"
    using assms split_list_first [of "CHR '':''" l] unfolding has_colon_def by blast
  moreover from this have "takeWhile (\<lambda>c. c \<noteq> CHR '':'') l = n" "dropWhile (\<lambda>c. c \<noteq> CHR '':'') l = CHR '':'' # v"
    by (auto simp: takeWhile_append dropWhile_append)
  ultimately show thesis using that by blast
qed

lemma colon_before_end:
  assumes "has_colon l"
  shows "length (takeWhile (\<lambda>c. c \<noteq> CHR '':'') l) < length l"
proof -
  from assms obtain n v where l: "l = n @ CHR '':'' # v" "takeWhile (\<lambda>c. c \<noteq> CHR '':'') l = n"
    by (rule split_colon)
  have "length l = length n + 1 + length v" unfolding l(1) by simp
  then show ?thesis unfolding l(2) by simp
qed

lemma parse_header_line:
  assumes "has_colon l"
  shows "parse_header (pre @ l @ rest) (length pre)
      (length pre + length (takeWhile (\<lambda>c. c \<noteq> CHR '':'') l)) (length pre + length l)
    = (if value_defined l then Some (header_of l) else None)"
proof -
  from assms obtain n v where l: "l = n @ CHR '':'' # v" "takeWhile (\<lambda>c. c \<noteq> CHR '':'') l = n"
    "dropWhile (\<lambda>c. c \<noteq> CHR '':'') l = CHR '':'' # v" by (rule split_colon)
  let ?s = "pre @ l @ rest" and ?i = "length pre + length n + 1" and ?j = "length pre + length l"
  have "map_option (\<lambda>k. substr ?s k ?j) (skip_spaces ?s ?j ?i)
      = (if start_defined (substr ?s ?i ?j) then Some (dropWhile is_space (substr ?s ?i ?j)) else None)"
    by (rule substr_skip_spaces) (simp_all add: l(1))
  moreover have "substr ?s ?i ?j = v" and n: "substr ?s (length pre) (length pre + length n) = n"
    by (simp_all add: l(1) substr_def)
  ultimately have "map_option (\<lambda>k. substr ?s k ?j) (skip_spaces ?s ?j ?i)
      = (if value_defined l then Some (dropWhile is_space v) else None)"
    using assms by (simp add: value_defined_def l(3))
  then show ?thesis
    using n by (cases "skip_spaces ?s ?j ?i") (auto simp: parse_header_def header_of_def l(2,3) split: if_splits)
qed

lemma fill_headers_line:
  assumes "strstr_from (pre @ l @ rest) (length pre) CRLF = Some (length pre + length l)"
    and "length pre < hend" and "length pre + length l \<le> hend" and "idx < length hs"
  shows "fill_headers (pre @ l @ rest) hend (length pre) idx hs =
    (if \<not> has_colon l then fill_headers (pre @ l @ rest) hend (length pre + length l + 2) idx hs
     else if value_defined l
     then fill_headers (pre @ l @ rest) hend (length pre + length l + 2) (idx + 1) (hs[idx := header_of l])
     else None)"
proof (cases "has_colon l")
  case True
  then show ?thesis
    using assms colon_before_end [OF True] strchr_from_line [OF True, of pre rest] parse_header_line [OF True, of pre rest]
    by (subst fill_headers.simps) simp
next
  case False
  show ?thesis
  proof (cases "strchr_from (pre @ l @ rest) (length pre) (CHR '':'')")
    case None
    then show ?thesis using assms False by (subst fill_headers.simps) simp
  next
    case (Some i)
    then have "\<not> i < length pre + length l" using strchr_from_no_colon [OF False, of pre rest i] by simp
    then show ?thesis using assms False Some by (subst fill_headers.simps) simp
  qed
qed

text \<open>The array after the lines \<open>ls\<close>, written from the position \<open>idx\<close> on.\<close>

abbreviation filled :: "string list \<Rightarrow> nat \<Rightarrow> http_header_t list \<Rightarrow> http_header_t list option" where
  "filled ls idx hs \<equiv>
     (if list_all value_defined ls
      then Some (take idx hs @ map header_of (filter has_colon ls) @ drop (idx + length (filter has_colon ls)) hs)
      else None)"

lemma filled_Nil: "filled [] idx hs = Some hs"
  by simp

lemma filled_Cons:
  assumes "idx < length hs"
  shows "filled (l # ls) idx hs =
    (if \<not> has_colon l then filled ls idx hs
     else if value_defined l then filled ls (idx + 1) (hs[idx := header_of l]) else None)"
  using assms by (simp add: take_Suc_conv_app_nth value_defined_def)

lemma fill_headers_end: "hend \<le> current \<Longrightarrow> fill_headers s hend current idx hs = Some hs"
  by (subst fill_headers.simps) simp

lemma fill_headers_text:
  assumes "idx + length (crlf_lines t) \<le> length hs"
  shows "fill_headers (pre @ t @ CRLF @ rest) (length pre + length t) (length pre) idx hs = filled (crlf_lines t) idx hs"
  using assms
proof (induction t arbitrary: pre idx hs rule: measure_induct_rule [of length])
  case (less t)
  show ?case
  proof (cases "t = []")
    case True
    then show ?thesis by (simp add: fill_headers_end)
  next
    case False
    then show ?thesis
    proof (cases rule: first_line)
      case last
      then have idx: "idx < length hs" using less.prems by simp
      have "fill_headers (pre @ t @ CRLF @ rest) (length pre + length t) (length pre) idx hs = filled [t] idx hs"
        unfolding filled_Cons [OF idx] filled_Nil
        using fill_headers_line [of pre t "CRLF @ rest"] strstr_from_end [of pre t rest] last(1) False idx
        by (simp add: fill_headers_end)
      then show ?thesis by (simp only: last(2))
    next
      case (more l u)
      then have idx: "idx < length hs" using less.prems by simp
      have "fill_headers ((pre @ l @ CRLF) @ u @ CRLF @ rest) (length (pre @ l @ CRLF) + length u) (length (pre @ l @ CRLF)) i gs
          = filled (crlf_lines u) i gs" if "i + length (crlf_lines u) \<le> length gs" for i gs
        using that more(2) by (intro less.IH) simp_all
      then have rest: "fill_headers (pre @ t @ CRLF @ rest) (length pre + length t) (length pre + length l + 2) i gs
          = filled (crlf_lines u) i gs" if "i + length (crlf_lines u) \<le> length gs" for i gs
        using that more(2) by (simp add: add.assoc)
      have "fill_headers (pre @ t @ CRLF @ rest) (length pre + length t) (length pre) idx hs =
        (if \<not> has_colon l then fill_headers (pre @ t @ CRLF @ rest) (length pre + length t) (length pre + length l + 2) idx hs
         else if value_defined l
         then fill_headers (pre @ t @ CRLF @ rest) (length pre + length t) (length pre + length l + 2) (idx + 1) (hs[idx := header_of l])
         else None)"
        using fill_headers_line [of pre l "CRLF @ u @ CRLF @ rest"] strstr_from_end [of pre t rest] more idx by simp
      also have "\<dots> = filled (l # crlf_lines u) idx hs"
        unfolding filled_Cons [OF idx] using rest less.prems more(3) by simp
      finally show ?thesis by (simp only: more(3))
    qed
  qed
qed

section \<open>Any buffer\<close>

text \<open>
  A text is a request when it has a line end and three words to read. Its header lines lie
  between the end of the first line and the first empty line after it.
\<close>

definition is_request :: "string \<Rightarrow> bool" where
  "is_request s \<longleftrightarrow> strstr s CRLF \<noteq> None \<and> scan_request_line s \<noteq> None"

definition header_section :: "string \<Rightarrow> string list" where
  "header_section s =
     (case strstr s CRLF of
        None \<Rightarrow> []
      | Some line_end \<Rightarrow>
          (case strstr_from s (line_end + 2) (CRLF @ CRLF) of
             None \<Rightarrow> []
           | Some headers_end \<Rightarrow> crlf_lines (substr s (line_end + 2) headers_end)))"

text \<open>The headers stored for these lines: those with a colon, then the ones never written.\<close>

definition parsed_headers :: "string list \<Rightarrow> http_header_t list" where
  "parsed_headers ls =
     map header_of (filter has_colon ls) @ replicate (length (filter (\<lambda>l. \<not> has_colon l) ls)) null_header"

lemma parse_headers_text:
  assumes "strstr_from s i (CRLF @ CRLF) = Some n" and "ls = crlf_lines (substr s i n)"
  shows "parse_headers s i n rq =
    (if list_all value_defined ls then Some (if ls = [] then rq else rq\<lparr>rq_headers := parsed_headers ls\<rparr>) else None)"
proof -
  from assms(1) obtain k where k: "strstr (drop i s) (CRLF @ CRLF) = Some k" "n = i + k"
    by (auto simp: strstr_from_def)
  define t where "t = take k (drop i s)"
  obtain rest where d: "drop i s = t @ CRLF @ rest"
    using strstr_split [OF k(1)] unfolding t_def by (metis append_assoc)
  have "length t = k" using strstr_bound [OF k(1)] by (simp add: t_def)
  moreover have "length (take i s) = i" using d by (cases "i \<le> length s") simp_all
  moreover have "s = take i s @ t @ CRLF @ rest" using d by (metis append_take_drop_id)
  ultimately have
    count: "count_headers s n i 0 = length (crlf_lines t)" and
    fill: "fill_headers s n i 0 (replicate (length (crlf_lines t)) null_header)
      = filled (crlf_lines t) 0 (replicate (length (crlf_lines t)) null_header)"
    using count_headers_text [of "take i s" t rest 0] fill_headers_text [of 0 t _ "take i s" rest] k(2) by simp_all
  have "ls = crlf_lines t" by (simp add: assms(2) k(2) substr_def t_def)
  moreover have "length ls - length (filter has_colon ls) = length (filter (\<lambda>l. \<not> has_colon l) ls)"
    using sum_length_filter_compl [of has_colon ls] by linarith
  ultimately show ?thesis using count fill by (simp add: parse_headers_def parsed_headers_def)
qed

lemma of_nat_u64_nonzero: "0 < n \<Longrightarrow> n < 2 ^ 64 \<Longrightarrow> (of_nat n :: u64) \<noteq> 0"
  by (simp add: word_of_nat_eq_0_iff) (metis nat_dvd_not_less)

lemma text_of_buffer:
  "takeWhile (\<lambda>c. c \<noteq> CHR 0x00) (data @ [CHR 0x00]) = takeWhile (\<lambda>c. c \<noteq> CHR 0x00) data"
  by (induction data) simp_all

lemma parse_other:
  assumes "s = takeWhile (\<lambda>c. c \<noteq> CHR 0x00) data" and "\<not> is_request s"
  shows "http_request_parse (Some rq) (Some (data @ [CHR 0x00])) (of_nat (length data))
    = Some (ERROR_INVALID_PARAM, Some rq)"
  using assms text_of_buffer [of data] unfolding http_request_parse_def
  by (auto simp: Let_def is_request_def split: option.splits)

lemma parse_request:
  assumes "length data < 2 ^ 64" and "s = takeWhile (\<lambda>c. c \<noteq> CHR 0x00) data" and "is_request s"
  shows "\<exists>rq'. http_request_parse (Some rq) (Some (data @ [CHR 0x00])) (of_nat (length data)) =
      (if list_all value_defined (header_section s) then Some (SUCCESS, Some rq') else None)
    \<and> rq_headers rq' = (if header_section s = [] then rq_headers rq else parsed_headers (header_section s))"
proof -
  define raw where "raw = data @ [CHR 0x00]"
  have s: "takeWhile (\<lambda>c. c \<noteq> CHR 0x00) raw = s" and nul: "CHR 0x00 \<in> set raw"
    by (simp_all add: raw_def assms(2) text_of_buffer)
  obtain i m u v where line: "strstr s CRLF = Some i" "scan_request_line s = Some (m, u, v)"
    using assms(3) by (auto simp: is_request_def)
  have len: "length s \<le> length data" by (simp add: assms(2) length_takeWhile_le)
  have "0 < length data" using line(1) len by (cases s) auto
  then have nz: "(of_nat (length data) :: u64) \<noteq> 0" using assms(1) by (intro of_nat_u64_nonzero)
  define q where "q = parse_target u (rq\<lparr>rq_method := http_method_from_string (Some m), rq_uri := Some u,
    rq_version := parse_version v (rq_version rq)\<rparr>)"
  have q: "rq_headers q = rq_headers rq" by (simp add: q_def parse_target_def split: option.split)
  show ?thesis
  proof (cases "strstr_from s (i + 2) (CRLF @ CRLF)")
    case None
    with line nz nul q show ?thesis
      unfolding raw_def [symmetric] http_request_parse_def
      by (auto simp: s Let_def header_section_def q_def intro!: exI [of _ q])
  next
    case (Some n)
    define ls where "ls = header_section s"
    have ls: "ls = crlf_lines (substr s (i + 2) n)" using line(1) Some by (simp add: ls_def header_section_def)
    define q1 where "q1 = (if ls = [] then q else q\<lparr>rq_headers := parsed_headers ls\<rparr>)"
    have "n + 4 \<le> length data" using strstr_from_bound [OF Some] len by simp
    then obtain q2 where q2: "parse_body raw (of_nat (length data)) (n + 4) q1 = Some q2" "rq_headers q2 = rq_headers q1"
      using parse_body_eq [of "n + 4" "length data" raw q1] assms(1) by (simp add: raw_def)
    have "http_request_parse (Some rq) (Some raw) (of_nat (length data))
        = (if list_all value_defined ls then Some (SUCCESS, Some q2) else None)"
      unfolding http_request_parse_def
      using nz nul line Some q2(1) parse_headers_text [OF Some ls, of q] by (simp add: s Let_def q_def [symmetric] q1_def)
    then show ?thesis using q q2(2) by (auto simp: raw_def ls_def [symmetric] q1_def)
  qed
qed

text \<open>
  C12: What parsing does with whatever a client sends. For any bytes, NUL characters included, in a
  buffer with a terminating NUL after them: a text that has no line end or not three words is
  refused with \<open>ERROR_INVALID_PARAM\<close> and the request is unchanged; otherwise the answer is \<open>SUCCESS\<close> and
  the headers are those of the lines up to the empty line, unless one of these lines has a value
  whose first character after white space is a byte from 0x80 to 0xFE. Exactly then the
  behaviour is undefined, because \<open>isspace\<close> is called on a negative \<open>char\<close>; in every other case the
  parser ends and reads only inside the buffer.
\<close>

theorem http_request_parse_defined:
  assumes "length data < 2 ^ 64" and "s = takeWhile (\<lambda>c. c \<noteq> CHR 0x00) data"
  shows "\<exists>rq'. http_request_parse (Some rq) (Some (data @ [CHR 0x00])) (of_nat (length data)) =
      (if \<not> is_request s then Some (ERROR_INVALID_PARAM, Some rq)
       else if list_all value_defined (header_section s) then Some (SUCCESS, Some rq')
       else None)
    \<and> rq_headers rq' = (if header_section s = [] then rq_headers rq else parsed_headers (header_section s))"
proof (cases "is_request s")
  case True
  with parse_request [OF assms True, of rq] show ?thesis by simp
next
  case False
  define rq' where "rq' = rq\<lparr>rq_headers := (if header_section s = [] then rq_headers rq else parsed_headers (header_section s))\<rparr>"
  then show ?thesis using False parse_other [OF assms(2) False, of rq] by (intro exI [of _ rq']) simp
qed

text \<open>A request with a value that starts with the Latin-1 letter 0xE9, and one without.\<close>

definition latin1_request :: string where
  "latin1_request = ''GET / HTTP/1.1'' @ CRLF @ ''A: '' @ [CHR 0xE9] @ CRLF @ CRLF"

definition plain_request :: string where
  "plain_request = ''GET / HTTP/1.1'' @ CRLF @ ''A:b'' @ [CHR 0xE9] @ CRLF @ ''junk'' @ CRLF @ CRLF @ [CHR 0x00, CHR 0xE9]"

theorem http_request_parse_defined_witness:
  "http_request_parse (Some http_request_create) (Some (latin1_request @ [CHR 0x00])) (of_nat (length latin1_request)) = None
   \<and> (\<exists>rq. http_request_parse (Some http_request_create) (Some (plain_request @ [CHR 0x00])) (of_nat (length plain_request))
         = Some (SUCCESS, Some rq)
       \<and> rq_headers rq = [\<lparr>header_name = Some ''A'', header_value = Some [CHR ''b'', CHR 0xE9]\<rparr>, null_header])"
proof (rule conjI)
  let ?s = "takeWhile (\<lambda>c. c \<noteq> CHR 0x00) latin1_request"
  have "length latin1_request < 2 ^ 64" by (simp add: latin1_request_def)
  moreover have "is_request ?s" by code_simp
  moreover have "\<not> list_all value_defined (header_section ?s)" by code_simp
  ultimately show "http_request_parse (Some http_request_create) (Some (latin1_request @ [CHR 0x00]))
      (of_nat (length latin1_request)) = None"
    using http_request_parse_defined [OF _ refl, of latin1_request http_request_create] by auto
next
  let ?s = "takeWhile (\<lambda>c. c \<noteq> CHR 0x00) plain_request"
  have "length plain_request < 2 ^ 64" by (simp add: plain_request_def)
  moreover have "is_request ?s" by code_simp
  moreover have "list_all value_defined (header_section ?s)" by code_simp
  moreover have "header_section ?s \<noteq> []" by code_simp
  moreover have "parsed_headers (header_section ?s)
      = [\<lparr>header_name = Some ''A'', header_value = Some [CHR ''b'', CHR 0xE9]\<rparr>, null_header]" by code_simp
  ultimately show "\<exists>rq. http_request_parse (Some http_request_create) (Some (plain_request @ [CHR 0x00]))
      (of_nat (length plain_request)) = Some (SUCCESS, Some rq)
       \<and> rq_headers rq = [\<lparr>header_name = Some ''A'', header_value = Some [CHR ''b'', CHR 0xE9]\<rparr>, null_header]"
    using http_request_parse_defined [OF _ refl, of plain_request http_request_create] by auto
qed

section \<open>The text of a request\<close>

definition word_ok :: "nat \<Rightarrow> string \<Rightarrow> bool" where
  "word_ok n w \<longleftrightarrow> w \<noteq> [] \<and> length w \<le> n \<and> (\<forall>c \<in> set w. \<not> is_space c \<and> c \<noteq> CHR 0x00)"

definition request_text :: "string \<Rightarrow> string \<Rightarrow> string \<Rightarrow> string list \<Rightarrow> string \<Rightarrow> string" where
  "request_text m u v ls body =
     (m @ '' '' @ u @ '' '' @ v @ CRLF) @ lines_text ls @ CRLF @ body"

lemma space_chars [simp]: "is_space (CHR '' '')" "is_space (CHR 0x0D)"
  by (simp_all add: is_space_def)

lemma scan_s_word:
  assumes "word_ok n w" and "is_space d"
  shows "scan_s n (w @ d # rest) = Some (w, d # rest)" and "scan_s n (CHR '' '' # w @ d # rest) = Some (w, d # rest)"
proof -
  have "dropWhile is_space (w @ d # rest) = w @ d # rest"
    using assms(1) by (cases w) (auto simp: word_ok_def)
  moreover have "scan_set n (\<lambda>c. \<not> is_space c) (w @ d # rest) = Some (w, d # rest)"
    using assms by (intro scan_set_word) (auto simp: word_ok_def)
  ultimately show "scan_s n (w @ d # rest) = Some (w, d # rest)"
    and "scan_s n (CHR '' '' # w @ d # rest) = Some (w, d # rest)"
    by (simp_all add: scan_s_def)
qed

lemma scan_request_text:
  assumes "word_ok 15 m" and "word_ok 2047 u" and "word_ok 15 v"
  shows "scan_request_line (m @ '' '' @ u @ '' '' @ v @ CRLF @ rest) = Some (m, u, v)"
  by (simp add: scan_request_line_def scan_s_word(1) [OF assms(1)] scan_s_word(2) [OF assms(2)]
      scan_s_word(2) [OF assms(3)])

lemma word_ok_no_CR: "word_ok n w \<Longrightarrow> CHR 0x0D \<notin> set w"
  unfolding word_ok_def using space_chars(2) by blast

lemma request_text_string:
  assumes "word_ok 15 m" and "word_ok 2047 u" and "word_ok 15 v" and "\<forall>l \<in> set ls. line_ok l"
  shows "takeWhile (\<lambda>c. c \<noteq> CHR 0x00) (request_text m u v ls body @ [CHR 0x00])
    = request_text m u v ls (takeWhile (\<lambda>c. c \<noteq> CHR 0x00) body)"
proof -
  have "\<forall>c \<in> set (lines_text ls). c \<noteq> CHR 0x00"
    using assms(4) by (induction ls) (auto simp: line_ok_def)
  then have "\<forall>c \<in> set ((m @ '' '' @ u @ '' '' @ v @ CRLF) @ lines_text ls @ CRLF). c \<noteq> CHR 0x00"
    using assms(1-3) unfolding word_ok_def by (simp add: ball_Un)
  then have "takeWhile (\<lambda>c. c \<noteq> CHR 0x00) (((m @ '' '' @ u @ '' '' @ v @ CRLF) @ lines_text ls @ CRLF) @ body @ [CHR 0x00])
      = ((m @ '' '' @ u @ '' '' @ v @ CRLF) @ lines_text ls @ CRLF) @ takeWhile (\<lambda>c. c \<noteq> CHR 0x00) (body @ [CHR 0x00])"
    by (intro takeWhile_append2) blast
  moreover have "takeWhile (\<lambda>c. c \<noteq> CHR 0x00) (body @ [CHR 0x00]) = takeWhile (\<lambda>c. c \<noteq> CHR 0x00) body"
    by (induction body) simp_all
  ultimately show ?thesis by (simp only: request_text_def append_assoc)
qed

text \<open>The request those parts stand for, parsed into a fresh request.\<close>

definition request_of :: "string \<Rightarrow> string \<Rightarrow> string \<Rightarrow> string list \<Rightarrow> string \<Rightarrow> http_request_t" where
  "request_of m u v ls body =
     \<lparr>rq_method = http_method_from_string (Some m), rq_version = parse_version v HTTP_VERSION_UNKNOWN,
      rq_uri = Some u, rq_path = Some (takeWhile (\<lambda>c. c \<noteq> CHR ''?'') u),
      rq_query = (if CHR ''?'' \<in> set u then Some (tl (dropWhile (\<lambda>c. c \<noteq> CHR ''?'') u)) else None),
      rq_headers = parsed_headers ls,
      rq_body = (if body = [] then None else Some body), rq_body_length = of_nat (length body)\<rparr>"

lemma parse_target_eq:
  "parse_target u rq = rq\<lparr>rq_path := Some (takeWhile (\<lambda>c. c \<noteq> CHR ''?'') u),
     rq_query := (if CHR ''?'' \<in> set u then Some (tl (dropWhile (\<lambda>c. c \<noteq> CHR ''?'') u)) else rq_query rq)\<rparr>"
proof (cases "CHR ''?'' \<in> set u")
  case True
  then show ?thesis
    by (simp add: parse_target_def strchr_eq dropWhile_eq_drop tl_drop drop_Suc flip: takeWhile_eq_take)
next
  case False
  then have "takeWhile (\<lambda>c. c \<noteq> CHR ''?'') u = u"
    by (simp add: takeWhile_eq_all_conv) metis
  with False show ?thesis by (simp add: parse_target_def strchr_eq del: takeWhile_eq_all_conv)
qed

lemma request_text_search:
  assumes "word_ok 15 m" and "word_ok 2047 u" and "word_ok 15 v"
    and "ls \<noteq> []" and "\<forall>l \<in> set ls. line_ok l"
  defines "pre \<equiv> m @ '' '' @ u @ '' '' @ v @ CRLF"
  shows "strstr (pre @ lines_text ls @ CRLF @ b) CRLF = Some (length pre - 2)"
    and "scan_request_line (pre @ lines_text ls @ CRLF @ b) = Some (m, u, v)"
    and "strstr_from (pre @ lines_text ls @ CRLF @ b) (length pre) (CRLF @ CRLF)
      = Some (length pre + (length (lines_text ls) - 2))"
proof -
  have "CHR 0x0D \<notin> set (m @ '' '' @ u @ '' '' @ v)"
    using assms(1-3) [THEN word_ok_no_CR] by simp
  from strstr_CRLF [OF this, of "lines_text ls @ CRLF @ b"]
  show "strstr (pre @ lines_text ls @ CRLF @ b) CRLF = Some (length pre - 2)"
    by (simp add: pre_def del: strstr.simps)
  show "scan_request_line (pre @ lines_text ls @ CRLF @ b) = Some (m, u, v)"
    using scan_request_text [OF assms(1-3), of "lines_text ls @ CRLF @ b"] by (simp add: pre_def)
  show "strstr_from (pre @ lines_text ls @ CRLF @ b) (length pre) (CRLF @ CRLF)
      = Some (length pre + (length (lines_text ls) - 2))"
    using strstr_headers_end [OF assms(4,5), of b] by (simp add: strstr_from_def del: strstr.simps)
qed

lemma http_request_parse_text:
  assumes "word_ok 15 m" and "word_ok 2047 u" and "word_ok 15 v"
    and "ls \<noteq> []" and "\<forall>l \<in> set ls. line_ok l \<and> value_defined l"
    and "length (request_text m u v ls body) < 2 ^ 64"
  shows "http_request_parse (Some http_request_create) (Some (request_text m u v ls body @ [CHR 0x00]))
      (of_nat (length (request_text m u v ls body))) = Some (SUCCESS, Some (request_of m u v ls body))"
proof -
  have lines: "\<forall>l \<in> set ls. line_ok l" "list_all value_defined ls" using assms(5) by (auto simp: list_all_iff)
  define pre where "pre = m @ '' '' @ u @ '' '' @ v @ CRLF"
  define t where "t = request_text m u v ls body"
  define hend where "hend = length pre + (length (lines_text ls) - 2)"
  define s where "s = pre @ lines_text ls @ CRLF @ takeWhile (\<lambda>c. c \<noteq> CHR 0x00) body"
  have t: "t = pre @ lines_text ls @ CRLF @ body" by (simp add: t_def pre_def request_text_def)
  have two: "2 \<le> length (lines_text ls)" using assms(4) by (cases ls) simp_all
  have len: "length t = hend + 4 + length body" using two by (simp add: t hend_def)
  then have nz: "(of_nat (length t) :: u64) \<noteq> 0"
    using assms(6) by (intro of_nat_u64_nonzero) (simp_all add: t_def)
  have s: "takeWhile (\<lambda>c. c \<noteq> CHR 0x00) (t @ [CHR 0x00]) = s"
    using request_text_string [OF assms(1-3) lines(1)] by (simp add: t_def s_def pre_def request_text_def)
  note search = request_text_search [OF assms(1-4) lines(1), of "takeWhile (\<lambda>c. c \<noteq> CHR 0x00) body",
      folded pre_def, folded s_def hend_def]
  have pre2: "Suc (Suc (length pre - 2)) = length pre" by (simp add: pre_def)
  have headers: "parse_headers s (length pre) hend rq = Some (rq\<lparr>rq_headers := parsed_headers ls\<rparr>)" for rq
  proof -
    obtain w where w: "lines_text ls = w @ CRLF" using lines_end [OF assms(4)] by blast
    then have "substr s (length pre) hend = w" by (simp add: s_def hend_def substr_def)
    then have "ls = crlf_lines (substr s (length pre) hend)" using crlf_lines_text [OF assms(4) lines(1) w] by simp
    from parse_headers_text [OF search(3) this] show ?thesis using assms(4) lines(2) by simp
  qed
  have body: "parse_body (t @ [CHR 0x00]) (of_nat (length t)) (hend + 4) rq = Some
      (if body = [] then rq else rq\<lparr>rq_body := Some body, rq_body_length := of_nat (length body)\<rparr>)" for rq
  proof -
    have "drop (hend + 4) (t @ [CHR 0x00]) = body @ [CHR 0x00]" using two by (simp add: t hend_def)
    moreover have "(of_nat (length t) - of_nat (hend + 4) :: u64) = of_nat (length body)"
      by (simp add: len)
    ultimately show ?thesis
      using parse_body_eq [of "hend + 4" "length t" "t @ [CHR 0x00]" rq] len assms(6) by (simp add: t_def)
  qed
  show ?thesis
    unfolding t_def [symmetric] http_request_parse_def
    using nz search
    by (simp add: s pre2 headers body parse_target_eq request_of_def http_request_create_def Let_def)
qed

section \<open>What the parser gives back\<close>

definition version_string :: "http_version_t \<Rightarrow> cstr" where
  "version_string v = (case v of HTTP_1_0 \<Rightarrow> ''HTTP/1.0'' | HTTP_1_1 \<Rightarrow> ''HTTP/1.1''
     | HTTP_2_0 \<Rightarrow> ''HTTP/2.0'' | HTTP_VERSION_UNKNOWN \<Rightarrow> ''HTTP/3.0'')"

fun header_ok :: "cstr \<times> cstr \<Rightarrow> bool" where
  "header_ok (n, v) \<longleftrightarrow> set n \<inter> {CHR '':'', CHR 0x0D, CHR 0x00} = {} \<and> set v \<inter> {CHR 0x0D, CHR 0x00} = {}
     \<and> (v = [] \<or> isspace (hd v) = Some False)"

fun header_text :: "cstr \<times> cstr \<Rightarrow> string" where
  "header_text (n, v) = n @ '': '' @ v"

lemma isspace_False: "isspace c = Some False \<Longrightarrow> \<not> is_space c"
  by (auto simp: isspace_space)

lemma header_text_ok:
  assumes "header_ok h"
  shows "line_ok (header_text h)" and "has_colon (header_text h)"
    and "header_of (header_text h) = \<lparr>header_name = Some (fst h), header_value = Some (snd h)\<rparr>"
    and "value_defined (header_text h)"
proof -
  obtain n v where h: "h = (n, v)" by fastforce
  show "line_ok (header_text h)" and "has_colon (header_text h)"
    using assms unfolding h by (auto simp: line_ok_def has_colon_def)
  have n: "takeWhile (\<lambda>c. c \<noteq> CHR '':'') (n @ '': '' @ v) = n"
    "dropWhile (\<lambda>c. c \<noteq> CHR '':'') (n @ '': '' @ v) = '': '' @ v"
    using assms unfolding h by (simp_all add: takeWhile_append dropWhile_append disjoint_iff)
  have v: "dropWhile is_space (CHR '' '' # v) = v"
    using assms isspace_False unfolding h by (cases v) simp_all
  with n have "value_defined (header_text h) = (case v of [] \<Rightarrow> True | c # _ \<Rightarrow> isspace c \<noteq> None)"
    unfolding h by (simp add: value_defined_def start_defined_def has_colon_def del: append.simps) simp
  then show "value_defined (header_text h)" using assms unfolding h by (cases v) auto
  from n v show "header_of (header_text h) = \<lparr>header_name = Some (fst h), header_value = Some (snd h)\<rparr>"
    unfolding h by (simp add: header_of_def del: append.simps) simp
qed

lemma version_roundtrip [simp]: "parse_version (version_string v) HTTP_VERSION_UNKNOWN = v"
  by (cases v) (simp_all add: version_string_def parse_version_def)

lemma word_ok_version: "word_ok 15 (version_string v)"
  by (cases v) (simp_all add: word_ok_def version_string_def is_space_def)

lemma word_ok_method: "word_ok 15 (http_method_to_string m)"
  by (cases m) (simp_all add: word_ok_def is_space_def)

lemma parsed_header_texts:
  assumes "\<forall>h \<in> set hs. header_ok h"
  shows "parsed_headers (map header_text hs) = map (\<lambda>(n, v). \<lparr>header_name = Some n, header_value = Some v\<rparr>) hs"
  using assms header_text_ok by (induction hs) (auto simp: parsed_headers_def)

text \<open>
  C5: Parsing inverts printing. A request printed with one of the methods and versions, a target
  without white space of at most 2047 characters, at least one header whose name has no colon
  and whose value starts neither with white space nor with a byte from 0x80 to 0xFE, and any body is parsed into exactly these
  parts: the target split at its first question mark, the headers in order, and the body byte
  for byte.
\<close>

theorem http_request_roundtrip:
  assumes "word_ok 2047 u" and "hs \<noteq> []" and "\<forall>h \<in> set hs. header_ok h"
    and "t = request_text (http_method_to_string m) u (version_string v) (map header_text hs) body"
    and "length t < 2 ^ 64"
  shows "\<exists>rq. http_request_parse (Some http_request_create) (Some (t @ [CHR 0x00])) (of_nat (length t)) = Some (SUCCESS, Some rq)
    \<and> rq_method rq = m \<and> rq_version rq = v \<and> rq_uri rq = Some u
    \<and> u = the (rq_path rq) @ (case rq_query rq of None \<Rightarrow> [] | Some q \<Rightarrow> ''?'' @ q)
    \<and> rq_headers rq = map (\<lambda>(n, v). \<lparr>header_name = Some n, header_value = Some v\<rparr>) hs
    \<and> rq_body rq = (if body = [] then None else Some body) \<and> rq_body_length rq = of_nat (length body)"
proof -
  let ?rq = "request_of (http_method_to_string m) u (version_string v) (map header_text hs) body"
  have "http_request_parse (Some http_request_create) (Some (t @ [CHR 0x00])) (of_nat (length t)) = Some (SUCCESS, Some ?rq)"
    unfolding assms(4)
    by (rule http_request_parse_text [OF word_ok_method assms(1) word_ok_version])
      (use assms(2-5) header_text_ok(1,4) in auto)
  moreover have "takeWhile (\<lambda>c. c \<noteq> CHR ''?'') u
      @ (if CHR ''?'' \<in> set u then ''?'' @ tl (dropWhile (\<lambda>c. c \<noteq> CHR ''?'') u) else []) = u"
    by (induction u) auto
  then have "u = the (rq_path ?rq) @ (case rq_query ?rq of None \<Rightarrow> [] | Some q \<Rightarrow> ''?'' @ q)"
    by (cases "CHR ''?'' \<in> set u") (simp_all add: request_of_def del: takeWhile_eq_all_conv)
  moreover have "rq_headers ?rq = map (\<lambda>(n, v). \<lparr>header_name = Some n, header_value = Some v\<rparr>) hs"
    using parsed_header_texts [OF assms(3)] by (simp add: request_of_def)
  moreover have "rq_method ?rq = m" "rq_version ?rq = v" "rq_uri ?rq = Some u"
      "rq_body ?rq = (if body = [] then None else Some body)" "rq_body_length ?rq = of_nat (length body)"
    by (simp_all add: request_of_def)
  ultimately show ?thesis by blast
qed

theorem http_request_roundtrip_witness:
  "\<exists>rq. http_request_parse (Some http_request_create)
       (Some (request_text ''GET'' ''/a?b=1'' ''HTTP/1.1'' [''Host: x'', ''A: b:c''] ''body'' @ [CHR 0x00]))
       (of_nat (length (request_text ''GET'' ''/a?b=1'' ''HTTP/1.1'' [''Host: x'', ''A: b:c''] ''body'')))
     = Some (SUCCESS, Some rq) \<and> rq_method rq = HTTP_GET \<and> rq_body rq = Some ''body''"
proof -
  have "word_ok 2047 ''/a?b=1''" "\<forall>h \<in> set [(''Host'', ''x''), (''A'', ''b:c'')]. header_ok h"
    and "length (request_text ''GET'' ''/a?b=1'' ''HTTP/1.1'' [''Host: x'', ''A: b:c''] ''body'') < 2 ^ 64"
    by (simp_all add: word_ok_def isspace_def is_space_def request_text_def)
  moreover have "request_text ''GET'' ''/a?b=1'' ''HTTP/1.1'' [''Host: x'', ''A: b:c''] ''body'' =
    request_text (http_method_to_string HTTP_GET) ''/a?b=1'' (version_string HTTP_1_1)
      (map header_text [(''Host'', ''x''), (''A'', ''b:c'')]) ''body''"
    by (simp add: version_string_def)
  ultimately show ?thesis
    using http_request_roundtrip [of "''/a?b=1''" "[(''Host'', ''x''), (''A'', ''b:c'')]"
      "request_text ''GET'' ''/a?b=1'' ''HTTP/1.1'' [''Host: x'', ''A: b:c''] ''body''" HTTP_GET HTTP_1_1 "''body''"]
    by auto
qed

lemma get_header_null:
  assumes "\<forall>h \<in> set hs. \<exists>n. header_name h = Some n \<and> \<not> strcaseeq n name"
  shows "get_header_loop name (hs @ null_header # rest) = None"
  using assms by (induction hs) auto

text \<open>
  A header line without a colon leaves a NULL header. It is counted when the array is
  allocated but not stored, so after a request with such a line, looking up any header that is
  not present compares with a NULL pointer, which is undefined.
\<close>

theorem http_request_header_without_colon:
  assumes "word_ok 15 m" and "word_ok 2047 u" and "word_ok 15 v" and "\<forall>l \<in> set ls. line_ok l \<and> value_defined l"
    and "length (request_text m u v ls body) < 2 ^ 64"
    and "\<exists>l \<in> set ls. \<not> has_colon l"
    and "\<forall>l \<in> set ls. \<not> strcaseeq (takeWhile (\<lambda>c. c \<noteq> CHR '':'') l) name"
  shows "\<exists>rq. http_request_parse (Some http_request_create) (Some (request_text m u v ls body @ [CHR 0x00]))
      (of_nat (length (request_text m u v ls body))) = Some (SUCCESS, Some rq)
    \<and> http_request_get_header (Some rq) (Some name) = None"
proof -
  have "ls \<noteq> []" using assms(6) by auto
  note parse = http_request_parse_text [OF assms(1-3) this assms(4,5)]
  obtain k where "length (filter (\<lambda>l. \<not> has_colon l) ls) = Suc k"
    using assms(6) by (metis (mono_tags, lifting) filter_empty_conv length_0_conv not0_implies_Suc)
  then have "rq_headers (request_of m u v ls body)
      = map header_of (filter has_colon ls) @ null_header # replicate k null_header"
    by (simp add: request_of_def parsed_headers_def)
  moreover have "\<forall>h \<in> set (map header_of (filter has_colon ls)). \<exists>n. header_name h = Some n \<and> \<not> strcaseeq n name"
    using assms(7) by (simp add: header_of_def)
  ultimately have "http_request_get_header (Some (request_of m u v ls body)) (Some name) = None"
    by (simp only: http_request_get_header_def option.case prod.case get_header_null)
  with parse show ?thesis by blast
qed

theorem http_request_header_without_colon_witness:
  "\<exists>rq. http_request_parse (Some http_request_create)
       (Some (request_text ''GET'' ''/'' ''HTTP/1.1'' [''Host: x'', ''junk''] [] @ [CHR 0x00]))
       (of_nat (length (request_text ''GET'' ''/'' ''HTTP/1.1'' [''Host: x'', ''junk''] []))) = Some (SUCCESS, Some rq)
     \<and> http_request_get_header (Some rq) (Some ''Accept'') = None"
  by (rule http_request_header_without_colon)
    (simp_all add: word_ok_def line_ok_def is_space_def has_colon_def request_text_def strcaseeq_def tolower_def
      value_defined_def start_defined_def isspace_def)

text \<open>
  The search for the end of the headers starts after the line end of the request line, so a
  request without headers has none: its body is ignored.
\<close>

lemma http_request_without_headers:
  assumes "word_ok 15 m" and "word_ok 2047 u" and "word_ok 15 v"
    and "strstr (CRLF @ takeWhile (\<lambda>c. c \<noteq> CHR 0x00) body) (CRLF @ CRLF) = None"
    and "length (request_text m u v [] body) < 2 ^ 64"
  shows "\<exists>rq. http_request_parse (Some http_request_create) (Some (request_text m u v [] body @ [CHR 0x00]))
      (of_nat (length (request_text m u v [] body))) = Some (SUCCESS, Some rq)
    \<and> rq_headers rq = [] \<and> rq_body rq = None"
proof -
  define pre where "pre = m @ '' '' @ u @ '' '' @ v @ CRLF"
  define b where "b = takeWhile (\<lambda>c. c \<noteq> CHR 0x00) body"
  have printed: "request_text m u v [] b = pre @ CRLF @ b" by (simp add: request_text_def pre_def)
  have s: "takeWhile (\<lambda>c. c \<noteq> CHR 0x00) (request_text m u v [] body @ [CHR 0x00]) = pre @ CRLF @ b"
    using request_text_string [OF assms(1-3), of "[]"] printed by (simp add: b_def)
  have "CHR 0x0D \<notin> set (m @ '' '' @ u @ '' '' @ v)" using assms(1-3) [THEN word_ok_no_CR] by simp
  from strstr_CRLF [OF this, of "CRLF @ b"] have 1: "strstr (pre @ CRLF @ b) CRLF = Some (length pre - 2)"
    by (simp add: pre_def del: strstr.simps)
  have 2: "scan_request_line (pre @ CRLF @ b) = Some (m, u, v)"
    using scan_request_text [OF assms(1-3), of "CRLF @ b"] by (simp add: pre_def)
  have 3: "strstr_from (pre @ CRLF @ b) (length pre) (CRLF @ CRLF) = None"
    using assms(4) by (simp add: strstr_from_def b_def del: strstr.simps)
  have nz: "(of_nat (length (request_text m u v [] body)) :: u64) \<noteq> 0"
    using assms(5) by (intro of_nat_u64_nonzero) (simp_all add: request_text_def)
  have pre2: "Suc (Suc (length pre - 2)) = length pre" by (simp add: pre_def)
  show ?thesis
    unfolding http_request_parse_def
    using nz 1 2 3 by (simp add: s pre2 parse_target_eq http_request_create_def Let_def)
qed

end
