(* ===== verification/Webserver.thy ===== *)
theory Webserver
  imports Http_Request
begin

text \<open>
  \<^verbatim>\<open>src/webserver/webserver.c\<close>: the life cycle of the listening socket, the accept loop and the
  thread that serves one client. What the kernel answers (\<open>socket\<close>, \<open>bind\<close>, \<open>recv\<close>, ...) is an
  argument; the set of open descriptors is part of the state, and closing a descriptor that is
  not open is an error of the program (\<open>None\<close>). Handlers are arbitrary functions on the response
  and the user data, \<open>None\<close> where they misbehave.
\<close>

section \<open>Data\<close>

type_synonym 'u request_handler_t =
  "http_request_t \<Rightarrow> http_response_t \<Rightarrow> 'u \<Rightarrow> (http_response_t \<times> 'u) option"

record 'u webserver_t =
  ws_port :: int
  ws_socket_fd :: int
  ws_is_running :: bool
  ws_handler :: "'u request_handler_t option"
  ws_user_data :: 'u

definition BUFFER_SIZE :: nat where
  "BUFFER_SIZE = 8192"

section \<open>Serving one client\<close>

definition default_body :: cstr where
  "default_body = ''Hello from backend-in-c!''"

definition default_response :: "http_response_t \<Rightarrow> http_response_t option" where
  "default_response response = do {
     (_, response) \<leftarrow> http_response_set_body (Some response) (Some default_body) (of_nat (length default_body));
     snd (http_response_add_header response (Some ''Content-Type'') (Some ''text/plain''))
   }"

definition call_handler :: "'u webserver_t \<Rightarrow> http_request_t \<Rightarrow> (http_response_t \<times> 'u) option" where
  "call_handler server request =
     (let response = http_response_create 200 (Some ''OK'')
      in case ws_handler server of
           Some h \<Rightarrow> h request response (ws_user_data server)
         | None \<Rightarrow> map_option (\<lambda>r. (r, ws_user_data server)) (default_response response))"

text \<open>Sending reads \<open>response_length\<close> bytes from the buffer of the serialised response.\<close>

definition send_response :: "http_response_t \<Rightarrow> string option" where
  "send_response response =
     (case http_response_serialize (Some response) of
        Some (Some (response_data, response_length)) \<Rightarrow>
          if response_length \<le> length response_data then Some (take response_length response_data) else None
      | _ \<Rightarrow> None)"

text \<open>
  The thread of one client, given what \<open>recv\<close> delivered (\<open>None\<close> on error, the empty list at the end
  of the stream): what it sends, if anything, and the user data afterwards.
\<close>

definition handle_client :: "'u webserver_t \<Rightarrow> string option \<Rightarrow> (string option \<times> 'u) option" where
  "handle_client server received =
     (case received of
        None \<Rightarrow> Some (None, ws_user_data server)
      | Some data \<Rightarrow>
          if data = [] then Some (None, ws_user_data server)
          else
          (case http_request_parse (Some http_request_create) (Some (data @ [CHR 0x00])) (of_nat (length data)) of
             Some (SUCCESS, Some request) \<Rightarrow>
               (case call_handler server request of
                  None \<Rightarrow> None
                | Some (response, ud) \<Rightarrow> map_option (\<lambda>sent. (Some sent, ud)) (send_response response))
           | Some (_, _) \<Rightarrow> Some (None, ws_user_data server)
           | None \<Rightarrow> None))"

section \<open>Life cycle\<close>

text \<open>What the kernel answers to the calls of \<open>webserver_start\<close>, in their order.\<close>

record start_answers =
  os_socket :: int
  os_setsockopt :: int
  os_bind :: int
  os_listen :: int
  os_pthread_create :: int

definition webserver_create :: "int \<Rightarrow> 'u \<Rightarrow> 'u webserver_t" where
  "webserver_create port null =
     \<lparr>ws_port = port, ws_socket_fd = -1, ws_is_running = False, ws_handler = None, ws_user_data = null\<rparr>"

definition webserver_set_handler ::
  "'u webserver_t option \<Rightarrow> 'u request_handler_t option \<Rightarrow> 'u \<Rightarrow> error_code_t \<times> 'u webserver_t option" where
  "webserver_set_handler server h ud =
     (case server of
        None \<Rightarrow> (ERROR_INVALID_PARAM, None)
      | Some s \<Rightarrow> (SUCCESS, Some (s\<lparr>ws_handler := h, ws_user_data := ud\<rparr>)))"

definition webserver_start ::
  "'u webserver_t option \<Rightarrow> start_answers \<Rightarrow> int set \<Rightarrow> (error_code_t \<times> 'u webserver_t option \<times> int set) option" where
  "webserver_start server os fds =
     (case server of
        None \<Rightarrow> Some (ERROR_INVALID_PARAM, None, fds)
      | Some s \<Rightarrow>
          if ws_is_running s then Some (ERROR_INVALID_PARAM, server, fds)
          else
            let s = s\<lparr>ws_socket_fd := os_socket os\<rparr>
            in if ws_socket_fd s < 0 then Some (ERROR_IO, Some s, fds)
               else
                 let fds = insert (ws_socket_fd s) fds;
                     fail = map_option (\<lambda>fds. (ERROR_IO, Some s, fds)) (close_fd (ws_socket_fd s) fds)
                 in if os_setsockopt os < 0 then fail
                    else if os_bind os < 0 then fail
                    else if os_listen os < 0 then fail
                    else if os_pthread_create os \<noteq> 0 then fail
                    else Some (SUCCESS, Some (s\<lparr>ws_is_running := True\<rparr>), fds))"

definition webserver_stop ::
  "'u webserver_t option \<Rightarrow> int set \<Rightarrow> ('u webserver_t option \<times> int set) option" where
  "webserver_stop server fds =
     (case server of
        None \<Rightarrow> Some (None, fds)
      | Some s \<Rightarrow>
          if \<not> ws_is_running s then Some (server, fds)
          else
            let s = s\<lparr>ws_is_running := False\<rparr>
            in if ws_socket_fd s \<ge> 0
               then map_option (\<lambda>fds. (Some s, fds)) (close_fd (ws_socket_fd s) fds)
               else Some (Some s, fds))"

definition webserver_destroy ::
  "'u webserver_t option \<Rightarrow> int set \<Rightarrow> ('u webserver_t option \<times> int set) option" where
  "webserver_destroy server fds =
     (case server of
        None \<Rightarrow> Some (None, fds)
      | Some s \<Rightarrow>
          if ws_is_running s then map_option (\<lambda>(_, fds). (None, fds)) (webserver_stop server fds)
          else Some (None, fds))"

definition webserver_is_running :: "'u webserver_t option \<Rightarrow> bool" where
  "webserver_is_running server = (case server of None \<Rightarrow> False | Some s \<Rightarrow> ws_is_running s)"

section \<open>Answers\<close>

lemma send_response_exact:
  "response_ok r \<Longrightarrow> length (status_line r) \<le> 256 \<Longrightarrow> send_response r = Some (response_text r)"
  using serialize_exact [of r] by (simp add: send_response_def)

text \<open>
  What serving a client relies on: a parser that accepts every well-formed request and refuses
  whatever is none, and a sender that is exact on well-formed responses. With these every
  handler that builds well-formed responses gets its response through exactly when it is asked.
\<close>

definition sendable :: "http_response_t \<Rightarrow> bool" where
  "sendable r \<longleftrightarrow> response_ok r \<and> length (status_line r) \<le> 256"

text \<open>
  The text of the received bytes is a request; the values of its header lines do not start with
  a byte on which \<open>isspace\<close> is undefined.
\<close>

definition data_request :: "string \<Rightarrow> bool" where
  "data_request data = is_request (takeWhile (\<lambda>c. c \<noteq> CHR 0x00) data)"

definition data_defined :: "string \<Rightarrow> bool" where
  "data_defined data = list_all value_defined (header_section (takeWhile (\<lambda>c. c \<noteq> CHR 0x00) data))"

locale http_codec =
  fixes parse :: "string \<Rightarrow> (error_code_t \<times> http_request_t option) option"
    and request :: "string \<Rightarrow> bool"
    and send :: "http_response_t \<Rightarrow> string option"
  assumes accepts: "length data < 2 ^ 64 \<Longrightarrow> data_defined data \<Longrightarrow> request data \<Longrightarrow> \<exists>rq. parse data = Some (SUCCESS, Some rq)"
    and refuses: "\<not> request data \<Longrightarrow> \<exists>rq. parse data = Some (ERROR_INVALID_PARAM, Some rq)"
    and send_text: "sendable r \<Longrightarrow> send r = Some (response_text r)"
begin

lemma serve_request:
  assumes "length data < 2 ^ 64" and "data_defined data" and "request data"
    and "\<And>rq. \<exists>r ud. handler rq = Some (r, ud) \<and> sendable r"
  obtains rq r ud where "parse data = Some (SUCCESS, Some rq)" and "handler rq = Some (r, ud)"
    and "send r = Some (response_text r)"
  using accepts [OF assms(1-3)] assms(4) send_text by metis

end

interpretation codec: http_codec
  "\<lambda>data. http_request_parse (Some http_request_create) (Some (data @ [CHR 0x00])) (of_nat (length data))"
  data_request send_response
proof (unfold_locales, goal_cases)
  case (1 data)
  then show ?case
    using parse_request [OF _ refl, of data http_request_create] by (auto simp: data_request_def data_defined_def)
next
  case (2 data)
  then show ?case using parse_other [OF refl, of data http_request_create] by (auto simp: data_request_def)
next
  case (3 r)
  then show ?case by (simp add: send_response_exact sendable_def)
qed

lemma handle_client_request:
  assumes "length data < BUFFER_SIZE" and "data_defined data" and "data_request data"
    and "\<And>rq. \<exists>r ud. call_handler server rq = Some (r, ud) \<and> sendable r"
  shows "\<exists>rq r ud. call_handler server rq = Some (r, ud)
    \<and> handle_client server (Some data) = Some (Some (response_text r), ud)"
proof -
  have "data \<noteq> []" using assms(3) by (auto simp: data_request_def is_request_def)
  moreover have len: "length data < 2 ^ 64" using assms(1) by (simp add: BUFFER_SIZE_def)
  obtain rq r ud where
    "http_request_parse (Some http_request_create) (Some (data @ [CHR 0x00])) (of_nat (length data)) = Some (SUCCESS, Some rq)"
    "call_handler server rq = Some (r, ud)" "send_response r = Some (response_text r)"
    by (rule codec.serve_request [OF len assms(2-4)])
  ultimately show ?thesis by (auto simp: handle_client_def)
qed

lemma handle_client_other:
  assumes "\<not> data_request data"
  shows "handle_client server (Some data) = Some (None, ws_user_data server)"
  using codec.refuses [OF assms] by (auto simp: handle_client_def)

definition default_text :: string where
  "default_text = ''HTTP/1.1 200 OK'' @ CRLF @ ''Content-Type: text/plain'' @ CRLF @ CRLF @ default_body"

lemma default_response_text:
  "\<exists>r. default_response (http_response_create 200 (Some ''OK'')) = Some r \<and> sendable r
     \<and> response_text r = default_text"
proof -
  let ?r = "\<lparr>rs_version = HTTP_1_1, rs_status_code = 200, rs_status_message = ''OK'',
    rs_headers = [(''Content-Type'', ''text/plain'')], rs_body = Some default_body, rs_body_length = 24\<rparr>"
  have "default_response (http_response_create 200 (Some ''OK'')) = Some ?r"
    by (simp add: default_response_def http_response_create_def http_response_set_body_def
        http_response_add_header_def default_body_def)
  moreover have "response_ok ?r" by (simp add: response_ok_def default_body_def)
  moreover have "status_line ?r = ''HTTP/1.1 200 OK'' @ CRLF" by code_simp
  ultimately show ?thesis by (simp add: sendable_def response_text_def default_text_def)
qed

text \<open>
  C23: Without a handler the server answers every request with its default page and nothing else.
  Whatever bytes a client sends, at most as many as the buffer holds: if their text, up to the
  first NUL, has a line end and three words, the client's thread sends exactly the default page;
  if not, it sends nothing. The user data is unchanged and no behaviour is
  undefined, as long as no header value starts with a byte from 0x80 to 0xFE.
\<close>

theorem webserver_default_answer:
  assumes "ws_handler server = None" and "length data < BUFFER_SIZE" and "data_defined data"
  shows "handle_client server (Some data)
    = Some (if data_request data then Some default_text else None, ws_user_data server)"
proof (cases "data_request data")
  case True
  from default_response_text obtain r where
    r: "default_response (http_response_create 200 (Some ''OK'')) = Some r" "sendable r" "response_text r = default_text"
    by blast
  have c: "call_handler server rq = Some (r, ws_user_data server)" for rq
    using r(1) assms(1) by (simp add: call_handler_def)
  from handle_client_request [OF assms(2,3) True, of server] c r(2,3) True show ?thesis by auto
next
  case False
  then show ?thesis by (simp add: handle_client_other)
qed

theorem webserver_default_answer_witness:
  "handle_client (webserver_create 8080 ()) (Some (''GET / HTTP/1.1'' @ CRLF @ ''Host: x'' @ CRLF @ CRLF))
     = Some (Some (''HTTP/1.1 200 OK'' @ CRLF @ ''Content-Type: text/plain'' @ CRLF @ CRLF @ ''Hello from backend-in-c!''), ())
   \<and> handle_client (webserver_create 8080 ()) (Some (''GET /'' @ CRLF @ CRLF)) = Some (None, ())"
proof -
  let ?a = "''GET / HTTP/1.1'' @ CRLF @ ''Host: x'' @ CRLF @ CRLF" and ?b = "''GET /'' @ CRLF @ CRLF"
  have "data_defined ?a" "data_request ?a" "data_defined ?b" "\<not> data_request ?b" by code_simp+
  then show ?thesis
    using webserver_default_answer [of "webserver_create 8080 ()" ?a] webserver_default_answer [of "webserver_create 8080 ()" ?b]
    by (simp add: webserver_create_def BUFFER_SIZE_def default_text_def default_body_def)
qed

section \<open>Threads and descriptors\<close>

text \<open>A client thread is before \<open>recv\<close> or has its answer; the sent texts are a history.\<close>

datatype client_pc = CL_Recv | CL_Got "string option"

record 'u ws_sys =
  sys_server :: "'u webserver_t option"
  sys_fds :: "int set"
  sys_clients :: "int \<rightharpoonup> client_pc"
  sys_sent :: "(int \<times> string) list"

definition ws_init :: "'u webserver_t \<Rightarrow> 'u ws_sys" where
  "ws_init server = \<lparr>sys_server = Some server, sys_fds = {}, sys_clients = Map.empty, sys_sent = []\<rparr>"

text \<open>
  The kernel gives out descriptors that are not in use. A thread that has read a request uses
  the server to answer it, so that step needs the server to exist.
\<close>

inductive ws_step :: "'u ws_sys \<Rightarrow> 'u ws_sys \<Rightarrow> bool" where
  set_handler: "webserver_set_handler (sys_server w) h ud = (e, server') \<Longrightarrow>
    ws_step w (w\<lparr>sys_server := server'\<rparr>)"
| start: "os_socket os \<notin> sys_fds w \<Longrightarrow> webserver_start (sys_server w) os (sys_fds w) = Some (e, server', fds') \<Longrightarrow>
    ws_step w (w\<lparr>sys_server := server', sys_fds := fds'\<rparr>)"
| stop: "webserver_stop (sys_server w) (sys_fds w) = Some (server', fds') \<Longrightarrow>
    ws_step w (w\<lparr>sys_server := server', sys_fds := fds'\<rparr>)"
| destroy: "webserver_destroy (sys_server w) (sys_fds w) = Some (server', fds') \<Longrightarrow>
    ws_step w (w\<lparr>sys_server := server', sys_fds := fds'\<rparr>)"
| accept: "sys_server w = Some s \<Longrightarrow> ws_is_running s \<Longrightarrow> 0 \<le> fd \<Longrightarrow> fd \<notin> sys_fds w \<Longrightarrow>
    ws_step w (w\<lparr>sys_fds := insert fd (sys_fds w), sys_clients := (sys_clients w)(fd \<mapsto> CL_Recv)\<rparr>)"
| accept_no_thread: "sys_server w = Some s \<Longrightarrow> ws_is_running s \<Longrightarrow> 0 \<le> fd \<Longrightarrow> fd \<notin> sys_fds w \<Longrightarrow>
    close_fd fd (insert fd (sys_fds w)) = Some fds' \<Longrightarrow> ws_step w (w\<lparr>sys_fds := fds'\<rparr>)"
| recv: "sys_clients w fd = Some CL_Recv \<Longrightarrow> \<forall>data. received = Some data \<longrightarrow> length data < BUFFER_SIZE \<Longrightarrow>
    ws_step w (w\<lparr>sys_clients := (sys_clients w)(fd \<mapsto> CL_Got received)\<rparr>)"
| nothing: "sys_clients w fd = Some (CL_Got received) \<Longrightarrow> received = None \<or> received = Some [] \<Longrightarrow>
    close_fd fd (sys_fds w) = Some fds' \<Longrightarrow>
    ws_step w (w\<lparr>sys_fds := fds', sys_clients := (sys_clients w)(fd := None)\<rparr>)"
| serve: "sys_clients w fd = Some (CL_Got (Some data)) \<Longrightarrow> data \<noteq> [] \<Longrightarrow> sys_server w = Some s \<Longrightarrow>
    handle_client s (Some data) = Some (sent, ud) \<Longrightarrow> close_fd fd (sys_fds w) = Some fds' \<Longrightarrow>
    ws_step w (w\<lparr>sys_server := Some (s\<lparr>ws_user_data := ud\<rparr>), sys_fds := fds',
      sys_clients := (sys_clients w)(fd := None),
      sys_sent := sys_sent w @ (case sent of None \<Rightarrow> [] | Some t \<Rightarrow> [(fd, t)])\<rparr>)"

definition listening :: "'u webserver_t option \<Rightarrow> int set" where
  "listening server = (case server of Some s \<Rightarrow> if ws_is_running s then {ws_socket_fd s} else {} | None \<Rightarrow> {})"

definition fds_ok :: "'u webserver_t option \<Rightarrow> int set \<Rightarrow> (int \<rightharpoonup> client_pc) \<Rightarrow> bool" where
  "fds_ok server fds clients \<longleftrightarrow> fds = listening server \<union> dom clients
     \<and> listening server \<inter> dom clients = {} \<and> (\<forall>fd \<in> fds. 0 \<le> fd)"

definition ws_inv :: "'u ws_sys \<Rightarrow> bool" where
  "ws_inv w \<longleftrightarrow> fds_ok (sys_server w) (sys_fds w) (sys_clients w)"

lemma listening_simps [simp]:
  "listening None = {}" "listening (Some s) = (if ws_is_running s then {ws_socket_fd s} else {})"
  by (simp_all add: listening_def)

lemma fds_ok_start:
  assumes "fds_ok server fds clients" and "os_socket os \<notin> fds"
    and "webserver_start server os fds = Some (e, server', fds')"
  shows "fds_ok server' fds' clients"
  using assms by (cases server)
    (auto simp: fds_ok_def webserver_start_def close_fd_def Let_def split: if_splits)

lemma fds_ok_stop:
  assumes "fds_ok server fds clients"
  shows "\<exists>server' fds'. webserver_stop server fds = Some (server', fds')
    \<and> fds_ok server' fds' clients \<and> listening server' = {} \<and> (server' = None \<longleftrightarrow> server = None)"
  using assms by (cases server)
    (auto simp: fds_ok_def webserver_stop_def close_fd_def Let_def split: if_splits)

lemma fds_ok_destroy:
  assumes "fds_ok server fds clients"
  shows "\<exists>fds'. webserver_destroy server fds = Some (None, fds') \<and> fds_ok None fds' clients"
  using assms by (cases server)
    (auto simp: fds_ok_def webserver_destroy_def webserver_stop_def close_fd_def Let_def split: if_splits)

lemma ws_inv_step: "ws_step w w' \<Longrightarrow> ws_inv w \<Longrightarrow> ws_inv w'"
proof (induction rule: ws_step.induct)
  case (set_handler w h ud e server')
  then show ?case
    by (cases "sys_server w") (auto simp: ws_inv_def fds_ok_def webserver_set_handler_def)
next
  case (start os w e server' fds')
  then show ?case using fds_ok_start by (auto simp: ws_inv_def)
next
  case (stop w server' fds')
  then show ?case using fds_ok_stop by (fastforce simp: ws_inv_def)
next
  case (destroy w server' fds')
  then show ?case using fds_ok_destroy by (fastforce simp: ws_inv_def)
qed (auto simp: ws_inv_def fds_ok_def close_fd_def split: if_splits)

interpretation ws: invariant_system
  "\<lambda>w. \<exists>server. \<not> ws_is_running server \<and> w = ws_init server" ws_step ws_inv
proof (unfold_locales, goal_cases)
  case (1 w)
  then show ?case by (auto simp: ws_inv_def ws_init_def fds_ok_def)
next
  case (2 w w')
  then show ?case using ws_inv_step by blast
qed

text \<open>
  C7: No descriptor is leaked or closed twice. In every state reached by starting, stopping and
  destroying the server, accepting and serving clients in any order, the open descriptors are
  exactly the listening socket of a running server and one for each client thread; so stopping
  and destroying the server always close an open descriptor, and so does every client thread.
  Starting, stopping and destroying are single steps: they are called by the one thread that owns
  the server.
\<close>

theorem webserver_descriptors:
  assumes "ws_step\<^sup>*\<^sup>* (ws_init (webserver_create port ud)) w"
  shows "sys_fds w = listening (sys_server w) \<union> dom (sys_clients w)
    \<and> webserver_stop (sys_server w) (sys_fds w) \<noteq> None
    \<and> webserver_destroy (sys_server w) (sys_fds w) \<noteq> None
    \<and> (\<forall>fd \<in> dom (sys_clients w). close_fd fd (sys_fds w) \<noteq> None)"
proof -
  have "\<not> ws_is_running (webserver_create port ud)" by (simp add: webserver_create_def)
  then have "ws_inv w" by (intro ws.invar_reachable [OF _ assms]) blast
  then have ok: "fds_ok (sys_server w) (sys_fds w) (sys_clients w)" by (simp add: ws_inv_def)
  then have "\<forall>fd \<in> dom (sys_clients w). close_fd fd (sys_fds w) \<noteq> None"
    by (auto simp: fds_ok_def close_fd_def)
  with fds_ok_stop [OF ok] fds_ok_destroy [OF ok] ok show ?thesis
    by (auto simp: fds_ok_def)
qed

text \<open>A run of the system: the server is started, and one client connects.\<close>

definition answers_ok :: "int \<Rightarrow> start_answers" where
  "answers_ok fd = \<lparr>os_socket = fd, os_setsockopt = 0, os_bind = 0, os_listen = 0, os_pthread_create = 0\<rparr>"

definition ws_connected :: "int \<Rightarrow> 'u \<Rightarrow> 'u ws_sys" where
  "ws_connected port ud = \<lparr>sys_server = Some ((webserver_create port ud)\<lparr>ws_socket_fd := 3, ws_is_running := True\<rparr>),
     sys_fds = {3, 4}, sys_clients = [4 \<mapsto> CL_Recv], sys_sent = []\<rparr>"

lemma ws_connected_reachable:
  "ws_step\<^sup>*\<^sup>* (ws_init (webserver_create port ud)) (ws_connected port ud)"
proof -
  let ?s = "(webserver_create port ud)\<lparr>ws_socket_fd := 3, ws_is_running := True\<rparr>"
  let ?w = "ws_init (webserver_create port ud)"
  have "webserver_start (sys_server ?w) (answers_ok 3) (sys_fds ?w) = Some (SUCCESS, Some ?s, {3})"
    by (simp add: webserver_start_def ws_init_def webserver_create_def answers_ok_def)
  then have 1: "ws_step ?w (?w\<lparr>sys_server := Some ?s, sys_fds := {3}\<rparr>)"
    by (rule ws_step.start [rotated]) (simp add: ws_init_def answers_ok_def)
  have 2: "ws_step (?w\<lparr>sys_server := Some ?s, sys_fds := {3}\<rparr>) (ws_connected port ud)"
    using ws_step.accept [of "?w\<lparr>sys_server := Some ?s, sys_fds := {3}\<rparr>" ?s 4]
    by (simp add: ws_init_def ws_connected_def insert_commute)
  show ?thesis by (rule converse_rtranclp_into_rtranclp [OF 1 r_into_rtranclp [where r = ws_step, OF 2]])
qed

theorem webserver_descriptors_witness:
  "sys_fds (ws_connected 80 ()) = {3, 4} \<and> webserver_stop (sys_server (ws_connected 80 ())) {3, 4} \<noteq> None"
proof -
  have "sys_fds (ws_connected 80 ()) = {3, 4}" by (simp add: ws_connected_def)
  with webserver_descriptors [OF ws_connected_reachable [of 80 "()"]] show ?thesis by metis
qed

text \<open>
  C40: Destroying the server does not wait for the client threads: a state is reachable in which
  the server has been freed while a client thread holds a complete request, which it can only
  answer by reading the handler from the freed server.
\<close>

theorem webserver_destroyed_in_use:
  "\<exists>w fd data rq. ws_step\<^sup>*\<^sup>* (ws_init (webserver_create port ud)) w \<and> sys_server w = None
     \<and> sys_clients w fd = Some (CL_Got (Some data)) \<and> data \<noteq> []
     \<and> http_request_parse (Some http_request_create) (Some (data @ [CHR 0x00])) (of_nat (length data))
       = Some (SUCCESS, Some rq)"
proof -
  let ?data = "request_text ''GET'' ''/'' ''HTTP/1.1'' [''Host: x''] []"
  let ?w = "ws_connected port ud"
  let ?w1 = "?w\<lparr>sys_clients := (sys_clients ?w)(4 \<mapsto> CL_Got (Some ?data))\<rparr>"
  have len: "length ?data < BUFFER_SIZE" by (simp add: request_text_def BUFFER_SIZE_def)
  have 1: "ws_step ?w ?w1" by (rule ws_step.recv) (simp_all add: ws_connected_def len)
  have 2: "ws_step ?w1 (?w1\<lparr>sys_server := None, sys_fds := {4}\<rparr>)"
    by (rule ws_step.destroy)
      (simp add: ws_connected_def webserver_destroy_def webserver_stop_def close_fd_def)
  have "ws_step\<^sup>*\<^sup>* (ws_init (webserver_create port ud)) ?w1"
    using ws_connected_reachable 1 by (rule rtranclp.rtrancl_into_rtrancl)
  then have 3: "ws_step\<^sup>*\<^sup>* (ws_init (webserver_create port ud)) (?w1\<lparr>sys_server := None, sys_fds := {4}\<rparr>)"
    using 2 by (rule rtranclp.rtrancl_into_rtrancl)
  have 4: "http_request_parse (Some http_request_create) (Some (?data @ [CHR 0x00])) (of_nat (length ?data))
      = Some (SUCCESS, Some (request_of ''GET'' ''/'' ''HTTP/1.1'' [''Host: x''] []))"
    by (rule http_request_parse_text)
      (simp_all add: word_ok_def line_ok_def is_space_def request_text_def value_defined_def start_defined_def isspace_def)
  have "?data \<noteq> []" by (simp add: request_text_def)
  then show ?thesis
    by (intro exI [of _ "?w1\<lparr>sys_server := None, sys_fds := {4}\<rparr>"] exI [of _ 4] exI [of _ ?data]
        exI [of _ "request_of ''GET'' ''/'' ''HTTP/1.1'' [''Host: x''] []"] conjI 3 4) simp_all
qed

end
