(* ===== verification/Tcp_Udp.thy ===== *)
theory Tcp_Udp
  imports C_Format
begin

text \<open>
  \<^verbatim>\<open>src/tcp_udp/tcp_udp.c\<close> with the structures of \<^verbatim>\<open>include/tcp_udp.h\<close>. Most bodies are placeholders: they
  check their arguments and set a flag. The model keeps them as they are; the flags, the guards,
  the close calls on the set of open descriptors and the list of address nodes are explicit.
  \<open>calloc\<close> may fail here (its success is an argument), and arrays of characters hold a string
  cut to their size by \<open>strncpy\<close>.
\<close>

section \<open>Data\<close>

datatype socket_type_t = SOCKET_TCP | SOCKET_UDP

datatype socket_state_t =
  SOCKET_STATE_CLOSED | SOCKET_STATE_LISTENING | SOCKET_STATE_CONNECTED | SOCKET_STATE_ERROR

datatype socket_family_t = SOCKET_FAMILY_IPV4 | SOCKET_FAMILY_IPV6 | SOCKET_FAMILY_UNSPEC

datatype socket_option_t =
    SOCKET_OPT_REUSEADDR | SOCKET_OPT_REUSEPORT | SOCKET_OPT_KEEPALIVE | SOCKET_OPT_NODELAY
  | SOCKET_OPT_RCVBUF | SOCKET_OPT_SNDBUF | SOCKET_OPT_RCVTIMEO | SOCKET_OPT_SNDTIMEO
  | SOCKET_OPT_BROADCAST

datatype multiplexer_type_t =
  MULTIPLEXER_SELECT | MULTIPLEXER_POLL | MULTIPLEXER_EPOLL | MULTIPLEXER_KQUEUE

text \<open>The union is the bytes of its largest member, \<open>sockaddr_storage\<close>.\<close>

record socket_address_t =
  sa_bytes :: bytes
  sa_addr_len :: u32

definition zero_address :: socket_address_t where
  "zero_address = \<lparr>sa_bytes = replicate 128 0, sa_addr_len = 0\<rparr>"

record address_info_t =
  ai_family :: socket_family_t
  ai_socktype :: int
  ai_protocol :: int
  ai_address :: socket_address_t
  ai_host :: cstr
  ai_service :: cstr
  ai_next :: "addr option"

record socket_event_t =
  ev_sockfd :: int
  ev_events :: u32
  ev_user_data :: "addr option"

record tcp_connection_t =
  conn_sockfd :: int
  conn_remote_addr :: socket_address_t
  conn_is_active :: bool

record tcp_server_t =
  srv_sockfd :: int
  srv_backlog :: int
  srv_host :: cstr
  srv_port :: cstr
  srv_is_listening :: bool

record tcp_client_t =
  cli_sockfd :: int
  cli_host :: cstr
  cli_port :: int
  cli_is_connected :: bool

record udp_socket_t =
  udp_sockfd :: int
  udp_bind_addr :: socket_address_t
  udp_is_bound :: bool
  udp_is_connected :: bool

record socket_multiplexer_t =
  mux_type :: multiplexer_type_t
  mux_max_events :: int
  mux_internal_data :: "addr option"

text \<open>\<open>strncpy(dst, src, n)\<close> into a zeroed array of \<open>n + 1\<close> characters.\<close>

definition strncpy_array :: "nat \<Rightarrow> cstr option \<Rightarrow> cstr" where
  "strncpy_array n src = (case src of None \<Rightarrow> [] | Some s \<Rightarrow> take n s)"

text \<open>\<open>if (fd >= 0) { close(fd); fd = -1; }\<close>\<close>

definition close_if_open :: "int \<Rightarrow> int set \<Rightarrow> (int \<times> int set) option" where
  "close_if_open fd fds = (if fd \<ge> 0 then map_option (\<lambda>fds. (-1, fds)) (close_fd fd fds) else Some (fd, fds))"

section \<open>TCP server\<close>

definition tcp_server_create :: "bool \<Rightarrow> cstr option \<Rightarrow> cstr option \<Rightarrow> int \<Rightarrow> tcp_server_t option" where
  "tcp_server_create calloc_ok host port backlog =
     (if \<not> calloc_ok then None
      else Some \<lparr>srv_sockfd = -1, srv_backlog = backlog, srv_host = strncpy_array 255 host,
                 srv_port = strncpy_array 31 port, srv_is_listening = False\<rparr>)"

text \<open>\<open>client\<close> says whether the result pointer is given; the result is stored through it.\<close>

definition tcp_server_accept ::
  "bool \<Rightarrow> tcp_server_t option \<Rightarrow> bool \<Rightarrow> error_code_t \<times> tcp_connection_t option" where
  "tcp_server_accept calloc_ok server client =
     (if server = None \<or> \<not> client then (ERROR_INVALID_PARAM, None)
      else if \<not> calloc_ok then (ERROR_MEMORY, None)
      else (SUCCESS, Some \<lparr>conn_sockfd = -1, conn_remote_addr = zero_address, conn_is_active = False\<rparr>))"

definition tcp_server_listen :: "tcp_server_t option \<Rightarrow> error_code_t \<times> tcp_server_t option" where
  "tcp_server_listen server =
     (case server of
        None \<Rightarrow> (ERROR_INVALID_PARAM, None)
      | Some s \<Rightarrow> (SUCCESS, Some (s\<lparr>srv_is_listening := True\<rparr>)))"

definition tcp_server_stop :: "tcp_server_t option \<Rightarrow> int set \<Rightarrow> (tcp_server_t option \<times> int set) option" where
  "tcp_server_stop server fds =
     (case server of
        None \<Rightarrow> Some (None, fds)
      | Some s \<Rightarrow> map_option (\<lambda>(fd, fds). (Some (s\<lparr>srv_sockfd := fd, srv_is_listening := False\<rparr>), fds))
          (close_if_open (srv_sockfd s) fds))"

definition tcp_server_destroy :: "tcp_server_t option \<Rightarrow> int set \<Rightarrow> (tcp_server_t option \<times> int set) option" where
  "tcp_server_destroy server fds =
     (case server of
        None \<Rightarrow> Some (None, fds)
      | Some s \<Rightarrow> map_option (\<lambda>(_, fds). (None, fds)) (tcp_server_stop server fds))"

section \<open>TCP client and connections\<close>

definition tcp_client_create :: "bool \<Rightarrow> cstr option \<Rightarrow> int \<Rightarrow> tcp_client_t option" where
  "tcp_client_create calloc_ok host port =
     (if \<not> calloc_ok then None
      else Some \<lparr>cli_sockfd = -1, cli_host = strncpy_array 255 host, cli_port = port, cli_is_connected = False\<rparr>)"

definition tcp_client_connect :: "tcp_client_t option \<Rightarrow> error_code_t \<times> tcp_client_t option" where
  "tcp_client_connect client =
     (case client of
        None \<Rightarrow> (ERROR_INVALID_PARAM, None)
      | Some c \<Rightarrow> (SUCCESS, Some (c\<lparr>cli_is_connected := True\<rparr>)))"

text \<open>
  The transfers. The result is the length converted to \<open>ssize_t\<close>; \<open>sint\<close> reads the 64 bits as a
  signed number. Nothing is read from or stored into the buffer.
\<close>

definition tcp_send :: "tcp_connection_t option \<Rightarrow> bytes option \<Rightarrow> u64 \<Rightarrow> int" where
  "tcp_send conn data len = (if conn = None \<or> data = None \<or> len = 0 then -1 else sint len)"

definition tcp_recv :: "tcp_connection_t option \<Rightarrow> bytes option \<Rightarrow> u64 \<Rightarrow> int" where
  "tcp_recv conn buffer len = (if conn = None \<or> buffer = None \<or> len = 0 then -1 else 0)"

definition tcp_close :: "tcp_connection_t option \<Rightarrow> int set \<Rightarrow> (tcp_connection_t option \<times> int set) option" where
  "tcp_close conn fds =
     (case conn of
        None \<Rightarrow> Some (None, fds)
      | Some c \<Rightarrow> map_option (\<lambda>(fd, fds). (Some (c\<lparr>conn_sockfd := fd, conn_is_active := False\<rparr>), fds))
          (close_if_open (conn_sockfd c) fds))"

definition tcp_client_destroy :: "tcp_client_t option \<Rightarrow> int set \<Rightarrow> (tcp_client_t option \<times> int set) option" where
  "tcp_client_destroy client fds =
     (case client of
        None \<Rightarrow> Some (None, fds)
      | Some c \<Rightarrow> map_option (\<lambda>(_, fds). (None, fds)) (close_if_open (cli_sockfd c) fds))"

section \<open>UDP sockets\<close>

definition udp_socket_create :: "bool \<Rightarrow> socket_family_t \<Rightarrow> udp_socket_t option" where
  "udp_socket_create calloc_ok family =
     (if \<not> calloc_ok then None
      else Some \<lparr>udp_sockfd = -1, udp_bind_addr = zero_address, udp_is_bound = False, udp_is_connected = False\<rparr>)"

definition udp_bind :: "udp_socket_t option \<Rightarrow> cstr option \<Rightarrow> int \<Rightarrow> error_code_t \<times> udp_socket_t option" where
  "udp_bind socket address port =
     (case socket of
        None \<Rightarrow> (ERROR_INVALID_PARAM, None)
      | Some s \<Rightarrow> (SUCCESS, Some (s\<lparr>udp_is_bound := True\<rparr>)))"

definition udp_sendto :: "udp_socket_t option \<Rightarrow> bytes option \<Rightarrow> u64 \<Rightarrow> cstr option \<Rightarrow> int \<Rightarrow> int" where
  "udp_sendto socket data len dest_addr dest_port =
     (if socket = None \<or> data = None \<or> len = 0 then -1 else sint len)"

definition udp_recvfrom ::
  "udp_socket_t option \<Rightarrow> bytes option \<Rightarrow> u64 \<Rightarrow> cstr option \<Rightarrow> u64 \<Rightarrow> int option \<Rightarrow> int" where
  "udp_recvfrom socket buffer len src_addr addr_len src_port =
     (if socket = None \<or> buffer = None \<or> len = 0 then -1 else 0)"

definition udp_connect :: "udp_socket_t option \<Rightarrow> cstr option \<Rightarrow> int \<Rightarrow> error_code_t \<times> udp_socket_t option" where
  "udp_connect socket address port =
     (case socket of
        None \<Rightarrow> (ERROR_INVALID_PARAM, None)
      | Some s \<Rightarrow> (SUCCESS, Some (s\<lparr>udp_is_connected := True\<rparr>)))"

definition udp_send :: "udp_socket_t option \<Rightarrow> bytes option \<Rightarrow> u64 \<Rightarrow> int" where
  "udp_send socket data len = (if socket = None \<or> data = None \<or> len = 0 then -1 else sint len)"

definition udp_recv :: "udp_socket_t option \<Rightarrow> bytes option \<Rightarrow> u64 \<Rightarrow> int" where
  "udp_recv socket buffer len = (if socket = None \<or> buffer = None \<or> len = 0 then -1 else 0)"

definition udp_close :: "udp_socket_t option \<Rightarrow> int set \<Rightarrow> (udp_socket_t option \<times> int set) option" where
  "udp_close socket fds =
     (case socket of
        None \<Rightarrow> Some (None, fds)
      | Some s \<Rightarrow> map_option (\<lambda>(fd, fds). (Some (s\<lparr>udp_sockfd := fd, udp_is_bound := False,
            udp_is_connected := False\<rparr>), fds)) (close_if_open (udp_sockfd s) fds))"

definition udp_socket_destroy :: "udp_socket_t option \<Rightarrow> int set \<Rightarrow> (udp_socket_t option \<times> int set) option" where
  "udp_socket_destroy socket fds =
     (case socket of
        None \<Rightarrow> Some (None, fds)
      | Some s \<Rightarrow> map_option (\<lambda>(_, fds). (None, fds)) (udp_close socket fds))"

section \<open>Addresses\<close>

text \<open>The result list stored through \<open>results\<close>, when the pointers are given.\<close>

definition resolve_address ::
  "cstr option \<Rightarrow> cstr option \<Rightarrow> bool \<Rightarrow> int \<Rightarrow> error_code_t \<times> addr option option" where
  "resolve_address hostname service results socktype =
     (if hostname = None \<or> \<not> results then (ERROR_INVALID_PARAM, None) else (SUCCESS, Some None))"

partial_function (option) free_address_info ::
  "addr option \<Rightarrow> address_info_t heap \<Rightarrow> address_info_t heap option" where
  "free_address_info info h =
     (case info of
        None \<Rightarrow> Some h
      | Some a \<Rightarrow> do { i \<leftarrow> h a; free_address_info (ai_next i) (h(a := None)) })"

declare free_address_info.simps [code]

definition address_to_string ::
  "socket_address_t option \<Rightarrow> bool \<Rightarrow> u64 \<Rightarrow> error_code_t \<times> cstr option" where
  "address_to_string a buffer len =
     (if a = None \<or> \<not> buffer \<or> len = 0 then (ERROR_INVALID_PARAM, None)
      else (SUCCESS, Some (snprintf_buf (unat len) ''0.0.0.0'')))"

definition string_to_address ::
  "cstr option \<Rightarrow> int \<Rightarrow> socket_address_t option \<Rightarrow> error_code_t \<times> socket_address_t option" where
  "string_to_address str port a =
     (if str = None \<or> a = None then (ERROR_INVALID_PARAM, a) else (SUCCESS, Some zero_address))"

section \<open>Socket options\<close>

definition socket_set_option ::
  "int \<Rightarrow> int \<Rightarrow> socket_option_t \<Rightarrow> bytes option \<Rightarrow> u64 \<Rightarrow> error_code_t" where
  "socket_set_option sockfd level opt val len =
     (if sockfd < 0 \<or> val = None then ERROR_INVALID_PARAM else SUCCESS)"

definition socket_get_option ::
  "int \<Rightarrow> int \<Rightarrow> socket_option_t \<Rightarrow> bytes option \<Rightarrow> u64 option \<Rightarrow> error_code_t" where
  "socket_get_option sockfd level opt val len =
     (if sockfd < 0 \<or> val = None \<or> len = None then ERROR_INVALID_PARAM else SUCCESS)"

definition socket_set_nonblocking :: "int \<Rightarrow> bool \<Rightarrow> error_code_t" where
  "socket_set_nonblocking sockfd nonblocking = (if sockfd < 0 then ERROR_INVALID_PARAM else SUCCESS)"

definition socket_set_reuseaddr :: "int \<Rightarrow> bool \<Rightarrow> error_code_t" where
  "socket_set_reuseaddr sockfd reuse = (if sockfd < 0 then ERROR_INVALID_PARAM else SUCCESS)"

definition socket_set_keepalive :: "int \<Rightarrow> bool \<Rightarrow> error_code_t" where
  "socket_set_keepalive sockfd keepalive = (if sockfd < 0 then ERROR_INVALID_PARAM else SUCCESS)"

definition socket_set_nodelay :: "int \<Rightarrow> bool \<Rightarrow> error_code_t" where
  "socket_set_nodelay sockfd nodelay = (if sockfd < 0 then ERROR_INVALID_PARAM else SUCCESS)"

definition socket_set_recv_timeout :: "int \<Rightarrow> int \<Rightarrow> error_code_t" where
  "socket_set_recv_timeout sockfd timeout = (if sockfd < 0 then ERROR_INVALID_PARAM else SUCCESS)"

definition socket_set_send_timeout :: "int \<Rightarrow> int \<Rightarrow> error_code_t" where
  "socket_set_send_timeout sockfd timeout = (if sockfd < 0 then ERROR_INVALID_PARAM else SUCCESS)"

definition socket_set_rcvbuf :: "int \<Rightarrow> int \<Rightarrow> error_code_t" where
  "socket_set_rcvbuf sockfd sz = (if sockfd < 0 then ERROR_INVALID_PARAM else SUCCESS)"

definition socket_set_sndbuf :: "int \<Rightarrow> int \<Rightarrow> error_code_t" where
  "socket_set_sndbuf sockfd sz = (if sockfd < 0 then ERROR_INVALID_PARAM else SUCCESS)"

section \<open>Multiplexer\<close>

definition multiplexer_create :: "bool \<Rightarrow> multiplexer_type_t \<Rightarrow> socket_multiplexer_t option" where
  "multiplexer_create calloc_ok t =
     (if \<not> calloc_ok then None
      else Some \<lparr>mux_type = t, mux_max_events = 1024, mux_internal_data = None\<rparr>)"

definition multiplexer_add ::
  "socket_multiplexer_t option \<Rightarrow> int \<Rightarrow> u32 \<Rightarrow> addr option \<Rightarrow> error_code_t" where
  "multiplexer_add mux sockfd events user_data =
     (if mux = None \<or> sockfd < 0 then ERROR_INVALID_PARAM else SUCCESS)"

definition multiplexer_modify :: "socket_multiplexer_t option \<Rightarrow> int \<Rightarrow> u32 \<Rightarrow> error_code_t" where
  "multiplexer_modify mux sockfd events =
     (if mux = None \<or> sockfd < 0 then ERROR_INVALID_PARAM else SUCCESS)"

definition multiplexer_remove :: "socket_multiplexer_t option \<Rightarrow> int \<Rightarrow> error_code_t" where
  "multiplexer_remove mux sockfd =
     (if mux = None \<or> sockfd < 0 then ERROR_INVALID_PARAM else SUCCESS)"

text \<open>The result is an error code or the number of events stored, always 0.\<close>

definition multiplexer_wait ::
  "socket_multiplexer_t option \<Rightarrow> socket_event_t list option \<Rightarrow> int \<Rightarrow> int \<Rightarrow> int" where
  "multiplexer_wait mux events max_events timeout =
     (if mux = None \<or> events = None \<or> max_events \<le> 0 then error_code_val ERROR_INVALID_PARAM else 0)"

text \<open>The allocations released: the internal data, when there are any, on the set of live ones.\<close>

definition multiplexer_destroy :: "socket_multiplexer_t option \<Rightarrow> addr set \<Rightarrow> addr set option" where
  "multiplexer_destroy mux live =
     (case mux of
        None \<Rightarrow> Some live
      | Some m \<Rightarrow> map_option snd (safe_free (Some (mux_internal_data m)) live))"

section \<open>Utilities\<close>

definition tcp_echo_server :: "int \<Rightarrow> int \<Rightarrow> error_code_t" where
  "tcp_echo_server port backlog = SUCCESS"

definition tcp_echo_client :: "cstr option \<Rightarrow> int \<Rightarrow> cstr option \<Rightarrow> error_code_t" where
  "tcp_echo_client host port msg =
     (if host = None \<or> msg = None then ERROR_INVALID_PARAM else SUCCESS)"

definition udp_echo_server :: "int \<Rightarrow> error_code_t" where
  "udp_echo_server port = SUCCESS"

definition udp_echo_client :: "cstr option \<Rightarrow> int \<Rightarrow> cstr option \<Rightarrow> error_code_t" where
  "udp_echo_client host port msg =
     (if host = None \<or> msg = None then ERROR_INVALID_PARAM else SUCCESS)"

definition socket_error_string :: "int \<Rightarrow> cstr" where
  "socket_error_string code =
     (if code = error_code_val SUCCESS then ''Success''
      else if code = error_code_val ERROR_MEMORY then ''Memory allocation error''
      else if code = error_code_val ERROR_INVALID_PARAM then ''Invalid parameter''
      else if code = error_code_val ERROR_NOT_FOUND then ''Not found''
      else if code = error_code_val ERROR_TIMEOUT then ''Timeout''
      else ''Unknown error'')"

definition socket_get_last_error :: "int \<Rightarrow> int" where
  "socket_get_last_error errno = errno"

section \<open>What the placeholders do\<close>

interpretation address_release: list_release ai_next free_address_info
  by unfold_locales (subst free_address_info.simps, simp split: option.split)

lemma free_address_info_all:
  assumes "chain (fld ai_next h) p as" and "distinct as" and "set as \<subseteq> dom h"
  shows "free_address_info p h = Some (\<lambda>a. if a \<in> set as then None else h a)"
  using assms by (rule address_release.free_loop_chain)

text \<open>No operation opens a descriptor, so none is ever closed.\<close>

lemma tcp_server_no_descriptor:
  assumes "tcp_server_create ok host port backlog = Some s" and "tcp_server_listen (Some s) = (e, Some s')"
  shows "tcp_server_stop (Some s') fds = Some (Some s, fds)" and "tcp_server_destroy (Some s') fds = Some (None, fds)"
  using assms
  by (auto simp: tcp_server_create_def tcp_server_listen_def tcp_server_stop_def tcp_server_destroy_def
      close_if_open_def split: if_splits)

lemma udp_socket_no_descriptor:
  assumes "udp_socket_create ok family = Some s" and "udp_bind (Some s) address port = (e, Some s')"
    and "udp_connect (Some s') address' port' = (e', Some s'')"
  shows "udp_close (Some s'') fds = Some (Some s, fds)"
  using assms by (auto simp: udp_socket_create_def udp_bind_def udp_connect_def udp_close_def
      close_if_open_def split: if_splits)

text \<open>
  A transfer reports the whole length; from \<open>2 ^ 63\<close> bytes on the conversion to \<open>ssize_t\<close> makes
  the result negative, like an error.
\<close>

lemma sint_u64_small: "unat (w :: u64) < 2 ^ 63 \<Longrightarrow> sint w = int (unat w)"
proof -
  assume "unat w < 2 ^ 63"
  then have "int (unat w) < int (2 ^ 63)" by (simp only: of_nat_less_iff)
  then have "uint w < 2 ^ 63" by simp
  moreover have "- (2 ^ 63) \<le> uint w" by (rule order_trans [of _ 0]) simp_all
  ultimately have "signed_take_bit 63 (uint w) = uint w" by (intro signed_take_bit_int_eq_self)
  then show ?thesis by (simp add: sint_uint)
qed

lemma sint_u64_large: "2 ^ 63 \<le> unat (w :: u64) \<Longrightarrow> sint w < 0"
proof -
  assume "2 ^ 63 \<le> unat w"
  then have "int (2 ^ 63) \<le> int (unat w)" by (simp only: of_nat_le_iff)
  then have "2 ^ 63 \<le> uint w" by simp
  moreover have "uint w < 2 ^ 64" using unsigned_less [of w] by simp
  ultimately have "uint w div 2 ^ 63 = 1" by auto
  then have "bit (uint w) 63" by (simp add: bit_iff_odd)
  then show ?thesis by (simp add: sint_uint signed_take_bit_negative_iff)
qed

lemma tcp_send_result:
  assumes "0 < len"
  shows "unat len < 2 ^ 63 \<Longrightarrow> tcp_send (Some c) (Some d) len = int (unat len)"
    and "2 ^ 63 \<le> unat len \<Longrightarrow> tcp_send (Some c) (Some d) len < 0"
  using assms sint_u64_small [of len] sint_u64_large [of len] by (auto simp: tcp_send_def)

end
