(* ===== verification/Concurrency.thy ===== *)
theory Concurrency
  imports Common
begin

text \<open>
  \<^verbatim>\<open>src/concurrency/concurrency.c\<close> with the structures of \<^verbatim>\<open>include/concurrency.h\<close>. Apart from the counters the
  bodies are placeholders: they allocate an opaque block, release it, clear a statistics structure
  or return a constant. They are modelled as they are, so that what they do not provide can be
  stated. Opaque objects are their addresses (NULL is \<open>None\<close>); the answer of \<open>calloc\<close> is an argument;
  \<open>double\<close> is a type variable with its zero as an argument.
\<close>

text \<open>\<open>free\<close> on the set of live allocations.\<close>

definition c_free :: "addr option \<Rightarrow> addr set \<Rightarrow> addr set option" where
  "c_free p live = (case p of None \<Rightarrow> Some live | Some a \<Rightarrow> if a \<in> live then Some (live - {a}) else None)"

section \<open>Thread pool\<close>

datatype thread_pool_type_t =
    THREAD_POOL_FIXED | THREAD_POOL_CACHED | THREAD_POOL_WORK_STEALING

datatype task_priority_t =
    TASK_PRIORITY_LOW | TASK_PRIORITY_NORMAL | TASK_PRIORITY_HIGH | TASK_PRIORITY_CRITICAL

datatype task_state_t =
    TASK_STATE_PENDING | TASK_STATE_RUNNING | TASK_STATE_COMPLETED | TASK_STATE_FAILED
  | TASK_STATE_CANCELLED

record task_t =
  task_id :: cstr
  task_function :: "addr option"
  task_arg :: "addr option"
  task_priority :: task_priority_t
  task_state :: task_state_t
  task_on_complete :: "addr option"
  task_completion_arg :: "addr option"
  task_submitted_at :: u64
  task_started_at :: u64
  task_completed_at :: u64

definition zero_task :: "task_t" where
  "zero_task =
     \<lparr>task_id = [], task_function = None, task_arg = None,
    task_priority = TASK_PRIORITY_LOW, task_state = TASK_STATE_PENDING, task_on_complete = None,
    task_completion_arg = None, task_submitted_at = 0, task_started_at = 0, task_completed_at = 0\<rparr>"

record thread_pool_config_t =
  tpc_type :: thread_pool_type_t
  tpc_min_threads :: u64
  tpc_max_threads :: u64
  tpc_queue_size :: u64
  tpc_thread_idle_timeout_ms :: u64
  tpc_enable_work_stealing :: bool
  tpc_enable_priority_queue :: bool

record 'd thread_pool_stats_t =
  tps_active_threads :: u64
  tps_idle_threads :: u64
  tps_total_threads :: u64
  tps_queued_tasks :: u64
  tps_completed_tasks :: u64
  tps_failed_tasks :: u64
  tps_rejected_tasks :: u64
  tps_avg_task_time_ms :: 'd
  tps_avg_wait_time_ms :: 'd
  tps_thread_utilization :: 'd

definition zero_thread_pool_stats :: "'d \<Rightarrow> 'd thread_pool_stats_t" where
  "zero_thread_pool_stats z =
     \<lparr>tps_active_threads = 0, tps_idle_threads = 0, tps_total_threads = 0,
    tps_queued_tasks = 0, tps_completed_tasks = 0, tps_failed_tasks = 0, tps_rejected_tasks = 0,
    tps_avg_task_time_ms = z, tps_avg_wait_time_ms = z, tps_thread_utilization = z\<rparr>"

definition thread_pool_create ::
  "addr option \<Rightarrow> thread_pool_config_t option \<Rightarrow> addr option" where
  "thread_pool_create alloc config = alloc"

definition thread_pool_destroy :: "addr option \<Rightarrow> addr set \<Rightarrow> addr set option" where
  "thread_pool_destroy pool live = c_free pool live"

definition thread_pool_start :: "addr option \<Rightarrow> error_code_t" where
  "thread_pool_start pool = SUCCESS"

definition thread_pool_shutdown :: "addr option \<Rightarrow> bool \<Rightarrow> error_code_t" where
  "thread_pool_shutdown pool wait_for_completion = SUCCESS"

definition thread_pool_submit ::
  "bool \<Rightarrow> addr option \<Rightarrow> addr option \<Rightarrow> addr option \<Rightarrow> task_t option" where
  "thread_pool_submit calloc_ok pool function arg = (if calloc_ok then Some zero_task else None)"

definition thread_pool_submit_with_priority ::
  "bool \<Rightarrow> addr option \<Rightarrow> addr option \<Rightarrow> addr option \<Rightarrow> task_priority_t \<Rightarrow> task_t option" where
  "thread_pool_submit_with_priority calloc_ok pool function arg priority = (if calloc_ok then Some zero_task else None)"

definition thread_pool_cancel_task :: "addr option \<Rightarrow> addr option \<Rightarrow> error_code_t" where
  "thread_pool_cancel_task pool task = SUCCESS"

definition thread_pool_wait_for_task :: "addr option \<Rightarrow> error_code_t" where
  "thread_pool_wait_for_task task = SUCCESS"

definition thread_pool_wait_all :: "addr option \<Rightarrow> error_code_t" where
  "thread_pool_wait_all pool = SUCCESS"

definition thread_pool_get_stats ::
  "'d \<Rightarrow> addr option \<Rightarrow> 'd thread_pool_stats_t option \<Rightarrow> error_code_t \<times> 'd thread_pool_stats_t option" where
  "thread_pool_get_stats z pool stats = (SUCCESS, map_option (\<lambda>_. zero_thread_pool_stats z) stats)"

definition thread_pool_resize :: "addr option \<Rightarrow> u64 \<Rightarrow> error_code_t" where
  "thread_pool_resize pool new_size = SUCCESS"

section \<open>Asynchronous I/O\<close>

datatype async_io_backend_t =
    ASYNC_IO_EPOLL | ASYNC_IO_KQUEUE | ASYNC_IO_IOCP | ASYNC_IO_SELECT | ASYNC_IO_IO_URING

datatype io_event_type_t =
    IO_EVENT_READ | IO_EVENT_WRITE | IO_EVENT_ACCEPT | IO_EVENT_CONNECT | IO_EVENT_CLOSE
  | IO_EVENT_ERROR | IO_EVENT_TIMEOUT

datatype io_op_status_t =
    IO_OP_PENDING | IO_OP_COMPLETED | IO_OP_FAILED | IO_OP_CANCELLED | IO_OP_TIMEOUT

record async_io_config_t =
  aic_backend :: async_io_backend_t
  aic_max_events :: u64
  aic_event_timeout_ms :: u64
  aic_worker_threads :: u64
  aic_enable_edge_triggered :: bool

record 'd async_io_stats_t =
  ais_total_events :: u64
  ais_read_events :: u64
  ais_write_events :: u64
  ais_error_events :: u64
  ais_timeout_events :: u64
  ais_avg_event_latency_ms :: 'd
  ais_events_per_second :: 'd

definition zero_async_io_stats :: "'d \<Rightarrow> 'd async_io_stats_t" where
  "zero_async_io_stats z =
     \<lparr>ais_total_events = 0, ais_read_events = 0, ais_write_events = 0, ais_error_events = 0,
    ais_timeout_events = 0, ais_avg_event_latency_ms = z, ais_events_per_second = z\<rparr>"

definition async_io_create ::
  "addr option \<Rightarrow> async_io_config_t option \<Rightarrow> addr option" where
  "async_io_create alloc config = alloc"

definition async_io_destroy :: "addr option \<Rightarrow> addr set \<Rightarrow> addr set option" where
  "async_io_destroy ctx live = c_free ctx live"

definition async_io_run :: "addr option \<Rightarrow> error_code_t" where
  "async_io_run ctx = SUCCESS"

definition async_io_stop :: "addr option \<Rightarrow> error_code_t" where
  "async_io_stop ctx = SUCCESS"

definition async_io_register ::
  "addr option \<Rightarrow> int \<Rightarrow> io_event_type_t \<Rightarrow> addr option \<Rightarrow> addr option \<Rightarrow> error_code_t" where
  "async_io_register ctx fd event callback user_data = SUCCESS"

definition async_io_unregister :: "addr option \<Rightarrow> int \<Rightarrow> error_code_t" where
  "async_io_unregister ctx fd = SUCCESS"

definition async_io_modify ::
  "addr option \<Rightarrow> int \<Rightarrow> io_event_type_t \<Rightarrow> error_code_t" where
  "async_io_modify ctx fd event = SUCCESS"

definition async_read ::
  "addr option \<Rightarrow> addr option \<Rightarrow> int \<Rightarrow> addr option \<Rightarrow> u64 \<Rightarrow> addr option \<Rightarrow> addr option \<Rightarrow> addr option" where
  "async_read alloc ctx fd buffer sz callback data = alloc"

definition async_write ::
  "addr option \<Rightarrow> addr option \<Rightarrow> int \<Rightarrow> addr option \<Rightarrow> u64 \<Rightarrow> addr option \<Rightarrow> addr option \<Rightarrow> addr option" where
  "async_write alloc ctx fd buffer sz callback data = alloc"

definition async_accept ::
  "addr option \<Rightarrow> addr option \<Rightarrow> int \<Rightarrow> addr option \<Rightarrow> addr option \<Rightarrow> addr option" where
  "async_accept alloc ctx listen_fd callback data = alloc"

definition async_connect ::
  "addr option \<Rightarrow> addr option \<Rightarrow> cstr option \<Rightarrow> int \<Rightarrow> addr option \<Rightarrow> addr option \<Rightarrow> addr option" where
  "async_connect alloc ctx host port callback data = alloc"

definition async_operation_cancel :: "addr option \<Rightarrow> error_code_t" where
  "async_operation_cancel op = SUCCESS"

definition async_operation_wait :: "addr option \<Rightarrow> error_code_t" where
  "async_operation_wait op = SUCCESS"

definition async_operation_status :: "addr option \<Rightarrow> io_op_status_t" where
  "async_operation_status op = IO_OP_COMPLETED"

definition async_io_get_stats ::
  "'d \<Rightarrow> addr option \<Rightarrow> 'd async_io_stats_t option \<Rightarrow> error_code_t \<times> 'd async_io_stats_t option" where
  "async_io_get_stats z ctx stats = (SUCCESS, map_option (\<lambda>_. zero_async_io_stats z) stats)"

section \<open>Backpressure\<close>

datatype backpressure_strategy_t =
    BACKPRESSURE_DROP | BACKPRESSURE_BLOCK | BACKPRESSURE_QUEUE | BACKPRESSURE_REJECT
  | BACKPRESSURE_ADAPTIVE

record 'd backpressure_config_t =
  bpc_strategy :: backpressure_strategy_t
  bpc_max_queue_size :: u64
  bpc_max_wait_time_ms :: u64
  bpc_high_water_mark :: 'd
  bpc_low_water_mark :: 'd
  bpc_enable_circuit_breaker :: bool

record 'd backpressure_stats_t =
  bps_current_load :: u64
  bps_max_load :: u64
  bps_load_factor :: 'd
  bps_requests_accepted :: u64
  bps_requests_rejected :: u64
  bps_requests_dropped :: u64
  bps_is_throttling :: bool

definition zero_backpressure_stats :: "'d \<Rightarrow> 'd backpressure_stats_t" where
  "zero_backpressure_stats z =
     \<lparr>bps_current_load = 0, bps_max_load = 0, bps_load_factor = z,
    bps_requests_accepted = 0, bps_requests_rejected = 0, bps_requests_dropped = 0,
    bps_is_throttling = False\<rparr>"

definition backpressure_create ::
  "addr option \<Rightarrow> 'd backpressure_config_t option \<Rightarrow> addr option" where
  "backpressure_create alloc config = alloc"

definition backpressure_destroy :: "addr option \<Rightarrow> addr set \<Rightarrow> addr set option" where
  "backpressure_destroy bp live = c_free bp live"

definition backpressure_can_accept :: "addr option \<Rightarrow> bool" where
  "backpressure_can_accept bp = True"

definition backpressure_acquire :: "addr option \<Rightarrow> error_code_t" where
  "backpressure_acquire bp = SUCCESS"

definition backpressure_release :: "addr option \<Rightarrow> error_code_t" where
  "backpressure_release bp = SUCCESS"

definition backpressure_get_stats ::
  "'d \<Rightarrow> addr option \<Rightarrow> 'd backpressure_stats_t option \<Rightarrow> error_code_t \<times> 'd backpressure_stats_t option" where
  "backpressure_get_stats z bp stats = (SUCCESS, map_option (\<lambda>_. zero_backpressure_stats z) stats)"

definition backpressure_update_metrics ::
  "addr option \<Rightarrow> 'd \<Rightarrow> bool \<Rightarrow> error_code_t" where
  "backpressure_update_metrics bp latency_ms success = SUCCESS"

definition backpressure_adjust_limits :: "addr option \<Rightarrow> error_code_t" where
  "backpressure_adjust_limits bp = SUCCESS"

section \<open>Locks\<close>

datatype lock_type_t =
    LOCK_TYPE_MUTEX | LOCK_TYPE_SPINLOCK | LOCK_TYPE_RWLOCK | LOCK_TYPE_RECURSIVE
  | LOCK_TYPE_ADAPTIVE

record 'd lock_t =
  lock_type :: lock_type_t
  lock_name :: cstr
  lock_mutex_ptr :: "addr option"
  lock_rwlock_ptr :: "addr option"
  lock_acquisitions :: u64
  lock_contentions :: u64
  lock_avg_hold_time_ms :: 'd
  lock_max_wait_time_ms :: u64

definition zero_lock :: "'d \<Rightarrow> 'd lock_t" where
  "zero_lock z =
     \<lparr>lock_type = LOCK_TYPE_MUTEX, lock_name = [], lock_mutex_ptr = None,
    lock_rwlock_ptr = None, lock_acquisitions = 0, lock_contentions = 0,
    lock_avg_hold_time_ms = z, lock_max_wait_time_ms = 0\<rparr>"

record 'd lock_stats_t =
  lks_acquire_count :: u64
  lks_contention_count :: u64
  lks_wait_time_total_ms :: u64
  lks_contention_rate :: 'd
  lks_avg_hold_time_ms :: 'd
  lks_max_hold_time_ms :: 'd

definition zero_lock_stats :: "'d \<Rightarrow> 'd lock_stats_t" where
  "zero_lock_stats z =
     \<lparr>lks_acquire_count = 0, lks_contention_count = 0, lks_wait_time_total_ms = 0,
    lks_contention_rate = z, lks_avg_hold_time_ms = z, lks_max_hold_time_ms = z\<rparr>"

definition lock_create ::
  "bool \<Rightarrow> 'd \<Rightarrow> lock_type_t \<Rightarrow> cstr option \<Rightarrow> 'd lock_t option" where
  "lock_create calloc_ok z type name = (if calloc_ok then Some (zero_lock z) else None)"

definition lock_destroy :: "addr option \<Rightarrow> addr set \<Rightarrow> addr set option" where
  "lock_destroy lock live = c_free lock live"

definition lock_acquire :: "addr option \<Rightarrow> error_code_t" where
  "lock_acquire lock = SUCCESS"

definition lock_try_acquire :: "addr option \<Rightarrow> error_code_t" where
  "lock_try_acquire lock = SUCCESS"

definition lock_release :: "addr option \<Rightarrow> error_code_t" where
  "lock_release lock = SUCCESS"

definition lock_read_acquire :: "addr option \<Rightarrow> error_code_t" where
  "lock_read_acquire lock = SUCCESS"

definition lock_write_acquire :: "addr option \<Rightarrow> error_code_t" where
  "lock_write_acquire lock = SUCCESS"

definition lock_read_release :: "addr option \<Rightarrow> error_code_t" where
  "lock_read_release lock = SUCCESS"

definition lock_write_release :: "addr option \<Rightarrow> error_code_t" where
  "lock_write_release lock = SUCCESS"

definition lock_get_stats ::
  "'d \<Rightarrow> addr option \<Rightarrow> 'd lock_stats_t option \<Rightarrow> error_code_t \<times> 'd lock_stats_t option" where
  "lock_get_stats z lock stats = (SUCCESS, map_option (\<lambda>_. zero_lock_stats z) stats)"

definition lock_reset_stats :: "addr option \<Rightarrow> error_code_t" where
  "lock_reset_stats lock = SUCCESS"

section \<open>Lock-free structures\<close>

definition lock_free_queue_create :: "addr option \<Rightarrow> u64 \<Rightarrow> addr option" where
  "lock_free_queue_create alloc capacity = alloc"

definition lock_free_queue_destroy :: "addr option \<Rightarrow> addr set \<Rightarrow> addr set option" where
  "lock_free_queue_destroy queue live = c_free queue live"

definition lock_free_queue_push :: "addr option \<Rightarrow> addr option \<Rightarrow> error_code_t" where
  "lock_free_queue_push queue data = SUCCESS"

definition lock_free_queue_pop :: "addr option \<Rightarrow> addr option" where
  "lock_free_queue_pop queue = None"

definition lock_free_queue_is_empty :: "addr option \<Rightarrow> bool" where
  "lock_free_queue_is_empty queue = True"

definition lock_free_queue_size :: "addr option \<Rightarrow> u64" where
  "lock_free_queue_size queue = 0"

definition lock_free_stack_create :: "addr option \<Rightarrow> addr option" where
  "lock_free_stack_create alloc = alloc"

definition lock_free_stack_destroy :: "addr option \<Rightarrow> addr set \<Rightarrow> addr set option" where
  "lock_free_stack_destroy stack live = c_free stack live"

definition lock_free_stack_push :: "addr option \<Rightarrow> addr option \<Rightarrow> error_code_t" where
  "lock_free_stack_push stack data = SUCCESS"

definition lock_free_stack_pop :: "addr option \<Rightarrow> addr option" where
  "lock_free_stack_pop stack = None"

definition lock_free_stack_is_empty :: "addr option \<Rightarrow> bool" where
  "lock_free_stack_is_empty stack = True"

definition lock_free_hashmap_create :: "addr option \<Rightarrow> u64 \<Rightarrow> addr option" where
  "lock_free_hashmap_create alloc capacity = alloc"

definition lock_free_hashmap_destroy ::
  "addr option \<Rightarrow> addr set \<Rightarrow> addr set option" where
  "lock_free_hashmap_destroy m live = c_free m live"

definition lock_free_hashmap_put ::
  "addr option \<Rightarrow> cstr option \<Rightarrow> addr option \<Rightarrow> error_code_t" where
  "lock_free_hashmap_put m key value = SUCCESS"

definition lock_free_hashmap_get :: "addr option \<Rightarrow> cstr option \<Rightarrow> addr option" where
  "lock_free_hashmap_get m key = None"

definition lock_free_hashmap_remove ::
  "addr option \<Rightarrow> cstr option \<Rightarrow> error_code_t" where
  "lock_free_hashmap_remove m key = SUCCESS"

definition lock_free_hashmap_size :: "addr option \<Rightarrow> u64" where
  "lock_free_hashmap_size m = 0"

section \<open>Counters\<close>

record atomic_counter_t =
  counter_value :: u64

definition atomic_counter_create :: "bool \<Rightarrow> u64 \<Rightarrow> atomic_counter_t option" where
  "atomic_counter_create calloc_ok initial_value = (if calloc_ok then Some \<lparr>counter_value = initial_value\<rparr> else None)"

definition atomic_counter_destroy :: "addr option \<Rightarrow> addr set \<Rightarrow> addr set option" where
  "atomic_counter_destroy counter live = c_free counter live"

text \<open>The other operations dereference the pointer without a check.\<close>

definition atomic_counter_increment :: "atomic_counter_t option \<Rightarrow> (u64 \<times> atomic_counter_t) option" where
  "atomic_counter_increment counter =
     map_option (\<lambda>c. let v = counter_value c + 1 in (v, c\<lparr>counter_value := v\<rparr>)) counter"

definition atomic_counter_decrement :: "atomic_counter_t option \<Rightarrow> (u64 \<times> atomic_counter_t) option" where
  "atomic_counter_decrement counter =
     map_option (\<lambda>c. let v = counter_value c - 1 in (v, c\<lparr>counter_value := v\<rparr>)) counter"

definition atomic_counter_add :: "atomic_counter_t option \<Rightarrow> u64 \<Rightarrow> (u64 \<times> atomic_counter_t) option" where
  "atomic_counter_add counter delta =
     map_option (\<lambda>c. let v = counter_value c + delta in (v, c\<lparr>counter_value := v\<rparr>)) counter"

definition atomic_counter_get :: "atomic_counter_t option \<Rightarrow> u64 option" where
  "atomic_counter_get counter = map_option counter_value counter"

definition atomic_counter_set :: "atomic_counter_t option \<Rightarrow> u64 \<Rightarrow> atomic_counter_t option" where
  "atomic_counter_set counter v = map_option (\<lambda>c. c\<lparr>counter_value := v\<rparr>) counter"

section \<open>Contention monitor\<close>

record 'd contention_config_t =
  ctc_enable_tracking :: bool
  ctc_hotspot_threshold :: 'd
  ctc_sampling_interval_ms :: u64
  ctc_max_tracked_resources :: u64

definition contention_monitor_create ::
  "addr option \<Rightarrow> 'd contention_config_t option \<Rightarrow> addr option" where
  "contention_monitor_create alloc config = alloc"

definition contention_monitor_destroy ::
  "addr option \<Rightarrow> addr set \<Rightarrow> addr set option" where
  "contention_monitor_destroy monitor live = c_free monitor live"

definition contention_monitor_track_lock ::
  "addr option \<Rightarrow> addr option \<Rightarrow> error_code_t" where
  "contention_monitor_track_lock monitor lock = SUCCESS"

definition contention_monitor_record_wait ::
  "addr option \<Rightarrow> cstr option \<Rightarrow> 'd \<Rightarrow> error_code_t" where
  "contention_monitor_record_wait monitor resource wait_time_ms = SUCCESS"

definition contention_monitor_get_hotspots ::
  "addr option \<Rightarrow> bool \<Rightarrow> bool \<Rightarrow> (error_code_t \<times> addr option \<times> u64) option" where
  "contention_monitor_get_hotspots monitor hotspots count = (if hotspots \<and> count then Some (SUCCESS, None, 0) else None)"

definition contention_monitor_reset :: "addr option \<Rightarrow> error_code_t" where
  "contention_monitor_reset monitor = SUCCESS"

section \<open>Coordination\<close>

definition producer_consumer_create :: "addr option \<Rightarrow> u64 \<Rightarrow> addr option" where
  "producer_consumer_create alloc buffer_size = alloc"

definition producer_consumer_destroy ::
  "addr option \<Rightarrow> addr set \<Rightarrow> addr set option" where
  "producer_consumer_destroy pc live = c_free pc live"

definition producer_consumer_produce ::
  "addr option \<Rightarrow> addr option \<Rightarrow> error_code_t" where
  "producer_consumer_produce pc item = SUCCESS"

definition producer_consumer_consume :: "addr option \<Rightarrow> addr option" where
  "producer_consumer_consume pc = None"

definition reader_writer_create :: "addr option \<Rightarrow> addr option" where
  "reader_writer_create alloc = alloc"

definition reader_writer_destroy :: "addr option \<Rightarrow> addr set \<Rightarrow> addr set option" where
  "reader_writer_destroy rw live = c_free rw live"

definition reader_writer_read_lock :: "addr option \<Rightarrow> error_code_t" where
  "reader_writer_read_lock rw = SUCCESS"

definition reader_writer_read_unlock :: "addr option \<Rightarrow> error_code_t" where
  "reader_writer_read_unlock rw = SUCCESS"

definition reader_writer_write_lock :: "addr option \<Rightarrow> error_code_t" where
  "reader_writer_write_lock rw = SUCCESS"

definition reader_writer_write_unlock :: "addr option \<Rightarrow> error_code_t" where
  "reader_writer_write_unlock rw = SUCCESS"

definition barrier_create :: "addr option \<Rightarrow> u64 \<Rightarrow> addr option" where
  "barrier_create alloc thread_count = alloc"

definition barrier_destroy :: "addr option \<Rightarrow> addr set \<Rightarrow> addr set option" where
  "barrier_destroy barrier live = c_free barrier live"

definition barrier_wait :: "addr option \<Rightarrow> error_code_t" where
  "barrier_wait barrier = SUCCESS"

definition future_create :: "addr option \<Rightarrow> addr option" where
  "future_create alloc = alloc"

definition future_destroy :: "addr option \<Rightarrow> addr set \<Rightarrow> addr set option" where
  "future_destroy future live = c_free future live"

definition future_set :: "addr option \<Rightarrow> addr option \<Rightarrow> error_code_t" where
  "future_set future value = SUCCESS"

definition future_get :: "addr option \<Rightarrow> addr option" where
  "future_get future = None"

definition future_is_ready :: "addr option \<Rightarrow> bool" where
  "future_is_ready future = False"

definition future_wait :: "addr option \<Rightarrow> u64 \<Rightarrow> error_code_t" where
  "future_wait future timeout_ms = SUCCESS"

section \<open>Throughput and parallel loops\<close>

record 'd throughput_metrics_t =
  tpm_requests_per_second :: u64
  tpm_transactions_per_second :: u64
  tpm_avg_response_time_ms :: 'd
  tpm_p95_response_time_ms :: 'd
  tpm_p99_response_time_ms :: 'd
  tpm_cpu_utilization :: 'd
  tpm_memory_utilization :: 'd
  tpm_active_connections :: u64
  tpm_thread_count :: u64

definition zero_throughput_metrics :: "'d \<Rightarrow> 'd throughput_metrics_t" where
  "zero_throughput_metrics z =
     \<lparr>tpm_requests_per_second = 0, tpm_transactions_per_second = 0,
    tpm_avg_response_time_ms = z, tpm_p95_response_time_ms = z, tpm_p99_response_time_ms = z,
    tpm_cpu_utilization = z, tpm_memory_utilization = z, tpm_active_connections = 0,
    tpm_thread_count = 0\<rparr>"

definition throughput_optimizer_create :: "addr option \<Rightarrow> addr option" where
  "throughput_optimizer_create alloc = alloc"

definition throughput_optimizer_destroy ::
  "addr option \<Rightarrow> addr set \<Rightarrow> addr set option" where
  "throughput_optimizer_destroy optimizer live = c_free optimizer live"

definition throughput_record_request :: "addr option \<Rightarrow> 'd \<Rightarrow> error_code_t" where
  "throughput_record_request optimizer duration_ms = SUCCESS"

definition throughput_get_metrics ::
  "'d \<Rightarrow> addr option \<Rightarrow> 'd throughput_metrics_t option \<Rightarrow> error_code_t \<times> 'd throughput_metrics_t option" where
  "throughput_get_metrics z optimizer metrics = (SUCCESS, map_option (\<lambda>_. zero_throughput_metrics z) metrics)"

definition throughput_analyze ::
  "addr option \<Rightarrow> bool \<Rightarrow> bool \<Rightarrow> (error_code_t \<times> addr option \<times> u64) option" where
  "throughput_analyze optimizer recommendations count = (if recommendations \<and> count then Some (SUCCESS, None, 0) else None)"

definition parallel_for ::
  "addr option \<Rightarrow> u64 \<Rightarrow> u64 \<Rightarrow> addr option \<Rightarrow> addr option \<Rightarrow> error_code_t" where
  "parallel_for pool first_index last_index function arg = SUCCESS"

definition parallel_map_reduce ::
  "addr option \<Rightarrow> addr option \<Rightarrow> u64 \<Rightarrow> addr option \<Rightarrow> addr option \<Rightarrow> addr option \<Rightarrow> addr option \<Rightarrow> addr option" where
  "parallel_map_reduce pool inputs count map_func reduce_func initial_value context = initial_value"

section \<open>Counters in sequence and in parallel\<close>

lemma atomic_counter_increments:
  "((\<lambda>c. snd (the (atomic_counter_increment (Some c)))) ^^ n) c = c\<lparr>counter_value := counter_value c + of_nat n\<rparr>"
  by (induction n) (simp_all add: atomic_counter_increment_def Let_def add.assoc add.commute)

text \<open>
  \<open>++counter->value\<close> on a volatile field is a load and a store. Two threads that both load before
  either stores leave the counter incremented once.
\<close>

datatype count_pc = N_Start | N_Loaded u64 | N_Done u64

inductive count_step ::
  "atomic_counter_t \<times> (nat \<Rightarrow> count_pc) \<Rightarrow> atomic_counter_t \<times> (nat \<Rightarrow> count_pc) \<Rightarrow> bool" where
  load: "pc t = N_Start \<Longrightarrow> count_step (c, pc) (c, pc(t := N_Loaded (counter_value c)))"
| store: "pc t = N_Loaded v \<Longrightarrow> count_step (c, pc) (c\<lparr>counter_value := v + 1\<rparr>, pc(t := N_Done (v + 1)))"

lemma atomic_counter_lost_update:
  "\<exists>pc. count_step\<^sup>*\<^sup>* (c, \<lambda>t. N_Start) (c\<lparr>counter_value := counter_value c + 1\<rparr>, pc)
     \<and> pc 0 = N_Done (counter_value c + 1) \<and> pc (Suc 0) = N_Done (counter_value c + 1)"
proof -
  let ?v = "counter_value c" and ?p = "\<lambda>t::nat. N_Start" and ?c = "c\<lparr>counter_value := counter_value c + 1\<rparr>"
  let ?p2 = "?p(0 := N_Loaded ?v, Suc 0 := N_Loaded ?v)"
  have "count_step (c, ?p) (c, ?p(0 := N_Loaded ?v))"
    using count_step.load [of ?p 0 c] by simp
  moreover have "count_step (c, ?p(0 := N_Loaded ?v)) (c, ?p2)"
    using count_step.load [of "?p(0 := N_Loaded ?v)" "Suc 0" c] by simp
  moreover have "count_step (c, ?p2) (?c, ?p2(0 := N_Done (?v + 1)))"
    using count_step.store [of ?p2 0 ?v c] by simp
  moreover have "count_step (?c, ?p2(0 := N_Done (?v + 1))) (?c, ?p2(0 := N_Done (?v + 1), Suc 0 := N_Done (?v + 1)))"
    using count_step.store [of "?p2(0 := N_Done (?v + 1))" "Suc 0" ?v ?c] by simp
  ultimately have "count_step\<^sup>*\<^sup>* (c, ?p) (?c, ?p2(0 := N_Done (?v + 1), Suc 0 := N_Done (?v + 1)))" by simp
  then show ?thesis by (intro exI conjI) (assumption, simp_all)
qed

section \<open>What the placeholders do not provide\<close>

text \<open>Threads that enter a critical section when \<open>lock_acquire\<close> succeeds.\<close>

inductive critical_step :: "addr option \<Rightarrow> nat set \<Rightarrow> nat set \<Rightarrow> bool" for lock where
  enter: "t \<notin> inside \<Longrightarrow> lock_acquire lock = SUCCESS \<Longrightarrow> critical_step lock inside (insert t inside)"
| leave: "t \<in> inside \<Longrightarrow> lock_release lock = SUCCESS \<Longrightarrow> critical_step lock inside (inside - {t})"

lemma lock_no_mutual_exclusion: "(critical_step lock)\<^sup>*\<^sup>* {} {0, Suc 0}"
proof -
  have "critical_step lock {} {Suc 0}"
    using critical_step.enter [of "Suc 0" "{}" lock] by (simp add: lock_acquire_def)
  moreover have "critical_step lock {Suc 0} {0, Suc 0}"
    using critical_step.enter [of 0 "{Suc 0}" lock] by (simp add: lock_acquire_def)
  ultimately show ?thesis by simp
qed

lemma lock_free_queue_drops:
  "lock_free_queue_push queue (Some x) = SUCCESS \<and> lock_free_queue_pop queue = None"
  by (simp add: lock_free_queue_push_def lock_free_queue_pop_def)

lemma future_never_ready:
  "future_set future v = SUCCESS \<and> future_wait future timeout = SUCCESS \<and> \<not> future_is_ready future"
  by (simp add: future_set_def future_wait_def future_is_ready_def)

end
