(* ===== verification/C_Alloc.thy ===== *)
theory C_Alloc
  imports Common
begin

text \<open>
  Allocation and release of objects that a module hands out by pointer. A typed heap maps the
  addresses of the live objects to their contents; the answer of \<open>malloc\<close> or \<open>calloc\<close> is an argument
  (\<open>None\<close> is NULL). Modules whose interface is a pair of a creating and a releasing function promise
  the contract \<open>handle_pair\<close>; what a client may rely on is shown once, for all of them.
\<close>

definition c_alloc :: "addr option \<Rightarrow> 'n \<Rightarrow> 'n heap \<Rightarrow> addr option \<times> 'n heap" where
  "c_alloc ans content h = (ans, case ans of None \<Rightarrow> h | Some a \<Rightarrow> h(a \<mapsto> content))"

definition h_free :: "addr option \<Rightarrow> 'n heap \<Rightarrow> 'n heap option" where
  "h_free p h =
     (case p of
        None \<Rightarrow> Some h
      | Some a \<Rightarrow> if h a = None then None else Some (h(a := None)))"

text \<open>The block of \<open>calloc(1, 64)\<close> behind an opaque pointer.\<close>

definition opaque_block :: bytes where
  "opaque_block = replicate 64 0"

text \<open>\<open>if (buffer && size > 0) buffer[0] = 0\<close>\<close>

definition put_nul :: "bytes option \<Rightarrow> u64 \<Rightarrow> bytes option option" where
  "put_nul buffer sz =
     (case buffer of
        None \<Rightarrow> Some None
      | Some b \<Rightarrow> if 0 < sz then map_option Some (arr_set b 0 0) else Some (Some b))"

lemma put_nul_empty_string:
  assumes "unat sz \<le> length b" and "0 < sz"
  shows "\<exists>b'. put_nul (Some b) sz = Some (Some b') \<and> length b' = length b \<and> hd b' = 0 \<and> tl b' = tl b"
proof -
  have "0 < unat sz" using assms(2) by (simp add: word_less_nat_alt)
  with assms(1) have "0 < length b" by linarith
  then show ?thesis using assms(2) by (cases b) (simp_all add: put_nul_def)
qed

section \<open>Handles\<close>

datatype handle_op = H_Create "addr option" | H_Destroy "addr option"

fun handle_exec ::
  "(addr option \<Rightarrow> 'n heap \<Rightarrow> addr option \<times> 'n heap) \<Rightarrow> (addr option \<Rightarrow> 'n heap \<Rightarrow> 'n heap option) \<Rightarrow>
     'n heap \<Rightarrow> handle_op \<Rightarrow> 'n heap option" where
  "handle_exec create destroy h (H_Create ans) = Some (snd (create ans h))"
| "handle_exec create destroy h (H_Destroy p) = destroy p h"

text \<open>The addresses in use, and what a correct client and allocator respect.\<close>

fun live_after :: "addr set \<Rightarrow> handle_op \<Rightarrow> addr set" where
  "live_after L (H_Create ans) = L \<union> set_option ans"
| "live_after L (H_Destroy p) = L - set_option p"

fun handle_ok :: "addr set \<Rightarrow> handle_op \<Rightarrow> bool" where
  "handle_ok L (H_Create ans) \<longleftrightarrow> set_option ans \<inter> L = {}"
| "handle_ok L (H_Destroy p) \<longleftrightarrow> set_option p \<subseteq> L"

locale handle_pair =
  fixes create :: "addr option \<Rightarrow> 'n heap \<Rightarrow> addr option \<times> 'n heap"
    and destroy :: "addr option \<Rightarrow> 'n heap \<Rightarrow> 'n heap option"
    and fresh :: 'n
  assumes create_null: "create None h = (None, h)"
    and create_some: "create (Some a) h = (Some a, h(a \<mapsto> fresh))"
    and destroy_null: "destroy None h = Some h"
    and destroy_live: "h a \<noteq> None \<Longrightarrow> destroy (Some a) h = Some (h(a := None))"
    and destroy_dead: "h a = None \<Longrightarrow> destroy (Some a) h = None"
begin

lemma handle_step:
  assumes "dom h = L" and "handle_ok L x"
  shows "\<exists>h'. handle_exec create destroy h x = Some h' \<and> dom h' = live_after L x"
proof (cases x)
  case (H_Create ans)
  with assms show ?thesis by (cases ans) (auto simp: create_null create_some)
next
  case (H_Destroy p)
  with assms destroy_live [of h] show ?thesis by (cases p) (auto simp: destroy_null)
qed

text \<open>What was created and not yet destroyed is allocated, nothing else.\<close>

lemma create_destroy: "h a = None \<Longrightarrow> destroy (fst (create (Some a) h)) (snd (create (Some a) h)) = Some h"
  using destroy_live [of "h(a \<mapsto> fresh)" a] by (auto simp: create_some fun_upd_idem)

lemma double_destroy: "destroy (Some a) h = Some h' \<Longrightarrow> destroy (Some a) h' = None"
  using destroy_live [of h a] destroy_dead [of h a] destroy_dead [of h' a] by (cases "h a") auto

lemma create_content: "b \<noteq> a \<Longrightarrow> snd (create (Some a) h) b = h b"
  by (simp add: create_some)

end

sublocale handle_pair \<subseteq> live: checked_refinement "handle_exec create destroy" handle_ok live_after "\<lambda>h L. dom h = L"
  by unfold_locales (rule handle_step)

lemmas handle_simps = c_alloc_def h_free_def

lemma creates_all:
  "distinct as \<Longrightarrow> set as \<inter> L = {} \<Longrightarrow> checked live_after handle_ok L (map (H_Create \<circ> Some) as)
     \<and> foldl live_after L (map (H_Create \<circ> Some) as) = L \<union> set as"
  by (induction as arbitrary: L) auto

end
