(* ===== verification/Db_Performance.thy ===== *)
theory Db_Performance
  imports C_Alloc
begin

text \<open>
  \<^verbatim>\<open>src/db_performance/db_performance.c\<close> with the structures of \<^verbatim>\<open>include/db_performance.h\<close>: indexes,
  query plans, query tracking, pagination, the connection pool and bulk operations. The bodies are
  placeholders that allocate, release or clear a structure and report success; they are modelled
  as they are. An object behind a pointer lives in a typed heap, the answer of the allocator is an
  argument, an array pointer that is set to NULL is \<open>None\<close>, an output pointer that is written without
  a check is a flag whether it is valid, and \<open>double\<close> is a type variable with its zero as an argument.
\<close>

text \<open>Copies with \<open>malloc(len + 1)\<close> and \<open>memcpy\<close>; the allocation may fail.\<close>

definition string_duplicate :: "addr option \<Rightarrow> cstr option \<Rightarrow> cstr heap \<Rightarrow> addr option \<times> cstr heap" where
  "string_duplicate ans str h = (case str of None \<Rightarrow> (None, h) | Some s \<Rightarrow> c_alloc ans s h)"

section \<open>Indexes\<close>

datatype index_type_t =
    INDEX_TYPE_BTREE | INDEX_TYPE_HASH | INDEX_TYPE_BITMAP | INDEX_TYPE_FULLTEXT
  | INDEX_TYPE_SPATIAL | INDEX_TYPE_COMPOSITE

datatype index_status_t =
    INDEX_STATUS_BUILDING | INDEX_STATUS_READY | INDEX_STATUS_INVALID | INDEX_STATUS_DISABLED

record index_info_t =
  ixi_name :: cstr
  ixi_type :: index_type_t
  ixi_status :: index_status_t
  ixi_table_name :: cstr
  ixi_column_names :: "cstr option list option"
  ixi_column_count :: u64
  ixi_entries :: u64
  ixi_size_bytes :: u64
  ixi_is_unique :: bool
  ixi_is_clustered :: bool

definition zero_index_info :: "index_info_t" where
  "zero_index_info =
     \<lparr>ixi_name = [], ixi_type = INDEX_TYPE_BTREE, ixi_status = INDEX_STATUS_BUILDING,
      ixi_table_name = [], ixi_column_names = None, ixi_column_count = 0, ixi_entries = 0,
      ixi_size_bytes = 0, ixi_is_unique = False, ixi_is_clustered = False\<rparr>"

record 'd index_usage_stats_t =
  ixu_index_name :: cstr
  ixu_scans :: u64
  ixu_lookups :: u64
  ixu_inserts :: u64
  ixu_updates :: u64
  ixu_deletes :: u64
  ixu_selectivity :: 'd
  ixu_hit_rate :: 'd

definition zero_index_usage_stats :: "'d \<Rightarrow> 'd index_usage_stats_t" where
  "zero_index_usage_stats z =
     \<lparr>ixu_index_name = [], ixu_scans = 0, ixu_lookups = 0, ixu_inserts = 0, ixu_updates = 0,
      ixu_deletes = 0, ixu_selectivity = z, ixu_hit_rate = z\<rparr>"

definition db_index_create ::
  "addr option \<Rightarrow> cstr option \<Rightarrow> index_type_t \<Rightarrow> cstr option \<Rightarrow> cstr option list option \<Rightarrow> u64 \<Rightarrow> bytes heap \<Rightarrow> addr option \<times> bytes heap" where
  "db_index_create ans name ty tbl columns column_count h = c_alloc ans opaque_block h"

definition db_index_destroy :: "addr option \<Rightarrow> bytes heap \<Rightarrow> bytes heap option" where
  "db_index_destroy ix h = h_free ix h"

definition db_index_build :: "addr option \<Rightarrow> error_code_t" where
  "db_index_build ix = SUCCESS"

definition db_index_rebuild :: "addr option \<Rightarrow> error_code_t" where
  "db_index_rebuild ix = SUCCESS"

definition db_index_drop :: "addr option \<Rightarrow> error_code_t" where
  "db_index_drop ix = SUCCESS"

definition db_index_get_info ::
  "addr option \<Rightarrow> index_info_t option \<Rightarrow> error_code_t \<times> index_info_t option" where
  "db_index_get_info ix info = (SUCCESS, map_option (\<lambda>_. zero_index_info) info)"

definition db_index_get_usage_stats ::
  "'d \<Rightarrow> addr option \<Rightarrow> 'd index_usage_stats_t option \<Rightarrow> error_code_t \<times> 'd index_usage_stats_t option" where
  "db_index_get_usage_stats z ix stats = (SUCCESS, map_option (\<lambda>_. zero_index_usage_stats z) stats)"

definition db_recommend_indexes ::
  "cstr option \<Rightarrow> bool \<Rightarrow> bool \<Rightarrow> (error_code_t \<times> index_info_t list option \<times> u64) option" where
  "db_recommend_indexes query recommendations count =
     (if recommendations \<and> count then Some (SUCCESS, None, 0) else None)"

section \<open>Query plans\<close>

datatype plan_node_type_t =
    PLAN_NODE_SCAN | PLAN_NODE_INDEX_SCAN | PLAN_NODE_INDEX_SEEK | PLAN_NODE_NESTED_LOOP
  | PLAN_NODE_HASH_JOIN | PLAN_NODE_MERGE_JOIN | PLAN_NODE_SORT | PLAN_NODE_AGGREGATE
  | PLAN_NODE_FILTER

record 'd plan_node_t =
  pln_type :: plan_node_type_t
  pln_operation :: cstr
  pln_estimated_cost :: 'd
  pln_estimated_rows :: u64
  pln_actual_cost :: 'd
  pln_actual_rows :: u64
  pln_used_indexes :: "cstr option list option"
  pln_index_count :: u64
  pln_left_child :: "addr option"
  pln_right_child :: "addr option"

record 'd query_plan_t =
  qpl_query :: cstr
  qpl_root :: "'d plan_node_t option"
  qpl_total_cost :: 'd
  qpl_total_rows :: u64
  qpl_execution_time_ms :: 'd
  qpl_uses_index :: bool
  qpl_warnings :: cstr

definition zero_query_plan :: "'d \<Rightarrow> 'd query_plan_t" where
  "zero_query_plan z =
     \<lparr>qpl_query = [], qpl_root = None, qpl_total_cost = z, qpl_total_rows = 0,
      qpl_execution_time_ms = z, qpl_uses_index = False, qpl_warnings = []\<rparr>"

definition db_explain_query ::
  "'d \<Rightarrow> addr option \<Rightarrow> addr option \<Rightarrow> cstr option \<Rightarrow> 'd query_plan_t heap \<Rightarrow> addr option \<times> 'd query_plan_t heap" where
  "db_explain_query z ans conn query h = c_alloc ans (zero_query_plan z) h"

definition db_query_plan_destroy ::
  "addr option \<Rightarrow> 'd query_plan_t heap \<Rightarrow> 'd query_plan_t heap option" where
  "db_query_plan_destroy plan h = h_free plan h"

definition db_query_plan_print :: "addr option \<Rightarrow> error_code_t" where
  "db_query_plan_print plan = SUCCESS"

definition db_query_plan_to_json ::
  "addr option \<Rightarrow> bytes option \<Rightarrow> u64 \<Rightarrow> (error_code_t \<times> bytes option) option" where
  "db_query_plan_to_json plan buffer sz = map_option (Pair SUCCESS) (put_nul buffer sz)"

definition db_optimizer_create ::
  "addr option \<Rightarrow> bytes heap \<Rightarrow> addr option \<times> bytes heap" where
  "db_optimizer_create ans h = c_alloc ans opaque_block h"

definition db_optimizer_destroy ::
  "addr option \<Rightarrow> bytes heap \<Rightarrow> bytes heap option" where
  "db_optimizer_destroy optimizer h = h_free optimizer h"

definition db_optimizer_set_option ::
  "addr option \<Rightarrow> cstr option \<Rightarrow> cstr option \<Rightarrow> error_code_t" where
  "db_optimizer_set_option opt key v = SUCCESS"

definition db_optimizer_rewrite_query ::
  "addr option \<Rightarrow> addr option \<Rightarrow> cstr option \<Rightarrow> cstr heap \<Rightarrow> addr option \<times> cstr heap" where
  "db_optimizer_rewrite_query ans opt query h =
     (if query \<noteq> None then string_duplicate ans query h else (None, h))"

section \<open>Repeated queries\<close>

record 'd n_plus_one_detection_t =
  npo_parent_query :: cstr
  npo_parent_executions :: u64
  npo_child_query :: cstr
  npo_child_executions :: u64
  npo_total_time_ms :: 'd
  npo_is_n_plus_one :: bool

datatype n_plus_one_fix_strategy_t =
    N_PLUS_ONE_FIX_EAGER_LOADING | N_PLUS_ONE_FIX_BATCHING | N_PLUS_ONE_FIX_CACHING
  | N_PLUS_ONE_FIX_SUBQUERY | N_PLUS_ONE_FIX_DATALOADER

definition db_query_tracker_create ::
  "addr option \<Rightarrow> bytes heap \<Rightarrow> addr option \<times> bytes heap" where
  "db_query_tracker_create ans h = c_alloc ans opaque_block h"

definition db_query_tracker_destroy ::
  "addr option \<Rightarrow> bytes heap \<Rightarrow> bytes heap option" where
  "db_query_tracker_destroy tracker h = h_free tracker h"

definition db_query_tracker_record ::
  "addr option \<Rightarrow> cstr option \<Rightarrow> 'd \<Rightarrow> error_code_t" where
  "db_query_tracker_record tracker query execution_time_ms = SUCCESS"

definition db_query_tracker_analyze ::
  "addr option \<Rightarrow> bool \<Rightarrow> bool \<Rightarrow> (error_code_t \<times> 'd n_plus_one_detection_t list option \<times> u64) option" where
  "db_query_tracker_analyze tracker results count =
     (if results \<and> count then Some (SUCCESS, None, 0) else None)"

definition db_suggest_n_plus_one_fix ::
  "addr option \<Rightarrow> 'd n_plus_one_detection_t option \<Rightarrow> n_plus_one_fix_strategy_t \<Rightarrow> cstr heap \<Rightarrow>
     addr option \<times> cstr heap" where
  "db_suggest_n_plus_one_fix ans detection strategy h = string_duplicate ans (Some ''Use eager loading'') h"

section \<open>Pagination\<close>

datatype pagination_strategy_t =
    PAGINATION_OFFSET | PAGINATION_CURSOR | PAGINATION_KEYSET

record pagination_config_t =
  pgc_strategy :: pagination_strategy_t
  pgc_page_size :: u64
  pgc_current_page :: u64
  pgc_total_items :: u64
  pgc_total_pages :: u64
  pgc_cursor :: cstr
  pgc_sort_columns :: "cstr option list"
  pgc_sort_column_count :: u64

definition zero_pagination_config :: "pagination_config_t" where
  "zero_pagination_config =
     \<lparr>pgc_strategy = PAGINATION_OFFSET, pgc_page_size = 0, pgc_current_page = 0,
      pgc_total_items = 0, pgc_total_pages = 0, pgc_cursor = [],
      pgc_sort_columns = replicate 8 None, pgc_sort_column_count = 0\<rparr>"

record 'd pagination_result_t =
  pgr_items :: "addr option"
  pgr_item_count :: u64
  pgr_next_cursor :: cstr
  pgr_prev_cursor :: cstr
  pgr_has_next :: bool
  pgr_has_prev :: bool
  pgr_query_time_ms :: 'd

definition zero_pagination_result :: "'d \<Rightarrow> 'd pagination_result_t" where
  "zero_pagination_result z =
     \<lparr>pgr_items = None, pgr_item_count = 0, pgr_next_cursor = [], pgr_prev_cursor = [],
      pgr_has_next = False, pgr_has_prev = False, pgr_query_time_ms = z\<rparr>"

record 'd pagination_benchmark_t =
  pgb_strategy :: pagination_strategy_t
  pgb_page_number :: u64
  pgb_query_time_ms :: 'd
  pgb_rows_scanned :: u64
  pgb_uses_index :: bool

definition db_pagination_config_create ::
  "addr option \<Rightarrow> pagination_strategy_t \<Rightarrow> u64 \<Rightarrow> pagination_config_t heap \<Rightarrow>
     addr option \<times> pagination_config_t heap" where
  "db_pagination_config_create ans strategy page_size h =
     c_alloc ans (zero_pagination_config\<lparr>pgc_strategy := strategy, pgc_page_size := page_size\<rparr>) h"

definition db_pagination_config_destroy ::
  "addr option \<Rightarrow> pagination_config_t heap \<Rightarrow> pagination_config_t heap option" where
  "db_pagination_config_destroy config h = h_free config h"

definition db_paginate_offset ::
  "'d \<Rightarrow> addr option \<Rightarrow> addr option \<Rightarrow> cstr option \<Rightarrow> addr option \<Rightarrow> 'd pagination_result_t heap \<Rightarrow> addr option \<times> 'd pagination_result_t heap" where
  "db_paginate_offset z ans conn query config h = c_alloc ans (zero_pagination_result z) h"

definition db_paginate_cursor ::
  "'d \<Rightarrow> addr option \<Rightarrow> addr option \<Rightarrow> cstr option \<Rightarrow> addr option \<Rightarrow> 'd pagination_result_t heap \<Rightarrow> addr option \<times> 'd pagination_result_t heap" where
  "db_paginate_cursor z ans conn query config h = c_alloc ans (zero_pagination_result z) h"

definition db_paginate_keyset ::
  "'d \<Rightarrow> addr option \<Rightarrow> addr option \<Rightarrow> cstr option \<Rightarrow> addr option \<Rightarrow> 'd pagination_result_t heap \<Rightarrow> addr option \<times> 'd pagination_result_t heap" where
  "db_paginate_keyset z ans conn query config h = c_alloc ans (zero_pagination_result z) h"

definition db_pagination_result_destroy ::
  "addr option \<Rightarrow> 'd pagination_result_t heap \<Rightarrow> 'd pagination_result_t heap option" where
  "db_pagination_result_destroy result h = h_free result h"

definition db_compare_pagination_strategies ::
  "addr option \<Rightarrow> cstr option \<Rightarrow> bool \<Rightarrow> bool \<Rightarrow> (error_code_t \<times> 'd pagination_benchmark_t list option \<times> u64) option" where
  "db_compare_pagination_strategies conn query results count =
     (if results \<and> count then Some (SUCCESS, None, 0) else None)"

section \<open>Connection pool\<close>

datatype connection_state_t =
    CONN_STATE_IDLE | CONN_STATE_IN_USE | CONN_STATE_INVALID | CONN_STATE_CLOSED

record connection_info_t =
  cni_id :: cstr
  cni_state :: connection_state_t
  cni_created_at :: u64
  cni_last_used_at :: u64
  cni_use_count :: u64
  cni_current_query :: cstr

record pool_config_t =
  plc_min_connections :: u64
  plc_max_connections :: u64
  plc_idle_timeout_ms :: u64
  plc_max_lifetime_ms :: u64
  plc_connection_timeout_ms :: u64
  plc_validate_on_borrow :: bool
  plc_validate_on_return :: bool

record 'd pool_stats_t =
  pls_total_connections :: u64
  pls_active_connections :: u64
  pls_idle_connections :: u64
  pls_wait_count :: u64
  pls_avg_wait_time_ms :: 'd
  pls_avg_use_time_ms :: 'd
  pls_total_created :: u64
  pls_total_destroyed :: u64
  pls_total_borrowed :: u64
  pls_total_returned :: u64

definition zero_pool_stats :: "'d \<Rightarrow> 'd pool_stats_t" where
  "zero_pool_stats z =
     \<lparr>pls_total_connections = 0, pls_active_connections = 0, pls_idle_connections = 0,
      pls_wait_count = 0, pls_avg_wait_time_ms = z, pls_avg_use_time_ms = z, pls_total_created = 0,
      pls_total_destroyed = 0, pls_total_borrowed = 0, pls_total_returned = 0\<rparr>"

definition db_pool_create ::
  "addr option \<Rightarrow> cstr option \<Rightarrow> pool_config_t option \<Rightarrow> bytes heap \<Rightarrow> addr option \<times> bytes heap" where
  "db_pool_create ans connection_string config h = c_alloc ans opaque_block h"

definition db_pool_destroy :: "addr option \<Rightarrow> bytes heap \<Rightarrow> bytes heap option" where
  "db_pool_destroy pool h = h_free pool h"

definition db_pool_acquire ::
  "addr option \<Rightarrow> addr option \<Rightarrow> bytes heap \<Rightarrow> addr option \<times> bytes heap" where
  "db_pool_acquire ans pool h = c_alloc ans opaque_block h"

definition db_pool_release ::
  "addr option \<Rightarrow> addr option \<Rightarrow> bytes heap \<Rightarrow> (error_code_t \<times> bytes heap) option" where
  "db_pool_release pool conn h = map_option (Pair SUCCESS) (h_free conn h)"

definition db_pool_validate_connection :: "addr option \<Rightarrow> error_code_t" where
  "db_pool_validate_connection conn = SUCCESS"

definition db_pool_get_stats ::
  "'d \<Rightarrow> addr option \<Rightarrow> 'd pool_stats_t option \<Rightarrow> error_code_t \<times> 'd pool_stats_t option" where
  "db_pool_get_stats z pool stats = (SUCCESS, map_option (\<lambda>_. zero_pool_stats z) stats)"

definition db_pool_get_connection_info ::
  "addr option \<Rightarrow> bool \<Rightarrow> bool \<Rightarrow> (error_code_t \<times> connection_info_t list option \<times> u64) option" where
  "db_pool_get_connection_info pool connections count =
     (if connections \<and> count then Some (SUCCESS, None, 0) else None)"

definition db_pool_shrink :: "addr option \<Rightarrow> error_code_t" where
  "db_pool_shrink pool = SUCCESS"

definition db_pool_grow :: "addr option \<Rightarrow> u64 \<Rightarrow> error_code_t" where
  "db_pool_grow pool count = SUCCESS"

definition db_pool_clear_idle :: "addr option \<Rightarrow> error_code_t" where
  "db_pool_clear_idle pool = SUCCESS"

definition db_pool_health_check :: "addr option \<Rightarrow> error_code_t" where
  "db_pool_health_check pool = SUCCESS"

section \<open>Query monitor\<close>

record 'd query_stats_t =
  qst_query :: cstr
  qst_query_hash :: cstr
  qst_execution_count :: u64
  qst_total_time_ms :: 'd
  qst_min_time_ms :: 'd
  qst_max_time_ms :: 'd
  qst_avg_time_ms :: 'd
  qst_p95_time_ms :: 'd
  qst_p99_time_ms :: 'd
  qst_rows_examined :: u64
  qst_rows_sent :: u64
  qst_tmp_tables :: u64
  qst_uses_filesort :: bool
  qst_uses_temporary :: bool

definition db_query_monitor_create ::
  "addr option \<Rightarrow> bytes heap \<Rightarrow> addr option \<times> bytes heap" where
  "db_query_monitor_create ans h = c_alloc ans opaque_block h"

definition db_query_monitor_destroy ::
  "addr option \<Rightarrow> bytes heap \<Rightarrow> bytes heap option" where
  "db_query_monitor_destroy monitor h = h_free monitor h"

definition db_query_monitor_record ::
  "addr option \<Rightarrow> cstr option \<Rightarrow> 'd \<Rightarrow> u64 \<Rightarrow> error_code_t" where
  "db_query_monitor_record monitor query execution_time_ms rows_examined = SUCCESS"

definition db_query_monitor_get_slow_queries ::
  "addr option \<Rightarrow> 'd \<Rightarrow> bool \<Rightarrow> bool \<Rightarrow> (error_code_t \<times> 'd query_stats_t list option \<times> u64) option" where
  "db_query_monitor_get_slow_queries monitor threshold_ms queries count =
     (if queries \<and> count then Some (SUCCESS, None, 0) else None)"

definition db_query_monitor_get_top_queries ::
  "addr option \<Rightarrow> u64 \<Rightarrow> bool \<Rightarrow> bool \<Rightarrow> (error_code_t \<times> 'd query_stats_t list option \<times> u64) option" where
  "db_query_monitor_get_top_queries monitor lim queries count =
     (if queries \<and> count then Some (SUCCESS, None, 0) else None)"

definition db_query_monitor_reset :: "addr option \<Rightarrow> error_code_t" where
  "db_query_monitor_reset monitor = SUCCESS"

section \<open>Bulk operations\<close>

record bulk_insert_config_t =
  bic_batch_size :: u64
  bic_use_transaction :: bool
  bic_ignore_errors :: bool
  bic_return_inserted_ids :: bool

record 'd bulk_operation_result_t =
  bor_rows_affected :: u64
  bor_rows_failed :: u64
  bor_execution_time_ms :: 'd
  bor_error_messages :: "cstr option list option"
  bor_error_count :: u64

definition zero_bulk_operation_result :: "'d \<Rightarrow> 'd bulk_operation_result_t" where
  "zero_bulk_operation_result z =
     \<lparr>bor_rows_affected = 0, bor_rows_failed = 0, bor_execution_time_ms = z,
      bor_error_messages = None, bor_error_count = 0\<rparr>"

definition db_bulk_insert ::
  "'d \<Rightarrow> addr option \<Rightarrow> addr option \<Rightarrow> cstr option \<Rightarrow> addr option list option \<Rightarrow> u64 \<Rightarrow> bulk_insert_config_t option \<Rightarrow> 'd bulk_operation_result_t heap \<Rightarrow> addr option \<times> 'd bulk_operation_result_t heap" where
  "db_bulk_insert z ans conn tbl rows row_count config h = c_alloc ans (zero_bulk_operation_result z) h"

definition db_bulk_update ::
  "'d \<Rightarrow> addr option \<Rightarrow> addr option \<Rightarrow> cstr option \<Rightarrow> addr option list option \<Rightarrow> u64 \<Rightarrow> 'd bulk_operation_result_t heap \<Rightarrow> addr option \<times> 'd bulk_operation_result_t heap" where
  "db_bulk_update z ans conn query params param_count h = c_alloc ans (zero_bulk_operation_result z) h"

definition db_bulk_delete ::
  "'d \<Rightarrow> addr option \<Rightarrow> addr option \<Rightarrow> cstr option \<Rightarrow> cstr option list option \<Rightarrow> u64 \<Rightarrow> 'd bulk_operation_result_t heap \<Rightarrow> addr option \<times> 'd bulk_operation_result_t heap" where
  "db_bulk_delete z ans conn tbl ids id_count h = c_alloc ans (zero_bulk_operation_result z) h"

definition db_bulk_operation_result_destroy ::
  "addr option \<Rightarrow> 'd bulk_operation_result_t heap \<Rightarrow> 'd bulk_operation_result_t heap option" where
  "db_bulk_operation_result_destroy result h = h_free result h"

section \<open>Handles\<close>

text \<open>Every creating function pairs with its destroying function as the contract of handles says.\<close>

interpretation index_handle: handle_pair
  "\<lambda>ans. db_index_create ans name ty tbl columns n" db_index_destroy opaque_block for name ty tbl columns n
  by unfold_locales (simp_all add: db_index_create_def db_index_destroy_def handle_simps)

interpretation plan_handle: handle_pair
  "\<lambda>ans. db_explain_query z ans conn query" db_query_plan_destroy "zero_query_plan z" for z conn query
  by unfold_locales (simp_all add: db_explain_query_def db_query_plan_destroy_def handle_simps)

interpretation optimizer_handle: handle_pair db_optimizer_create db_optimizer_destroy opaque_block
  by unfold_locales (simp_all add: db_optimizer_create_def db_optimizer_destroy_def handle_simps)

interpretation tracker_handle: handle_pair db_query_tracker_create db_query_tracker_destroy opaque_block
  by unfold_locales (simp_all add: db_query_tracker_create_def db_query_tracker_destroy_def handle_simps)

interpretation pagination_handle: handle_pair
  "\<lambda>ans. db_pagination_config_create ans strategy page_size" db_pagination_config_destroy
  "zero_pagination_config\<lparr>pgc_strategy := strategy, pgc_page_size := page_size\<rparr>" for strategy page_size
  by unfold_locales (simp_all add: db_pagination_config_create_def db_pagination_config_destroy_def handle_simps)

interpretation page_handle: handle_pair
  "\<lambda>ans. db_paginate_offset z ans conn query config" db_pagination_result_destroy "zero_pagination_result z"
  for z conn query config
  by unfold_locales (simp_all add: db_paginate_offset_def db_pagination_result_destroy_def handle_simps)

interpretation pool_handle: handle_pair
  "\<lambda>ans. db_pool_create ans connection_string config" db_pool_destroy opaque_block for connection_string config
  by unfold_locales (simp_all add: db_pool_create_def db_pool_destroy_def handle_simps)

interpretation connection_handle: handle_pair
  "\<lambda>ans. db_pool_acquire ans pool" "\<lambda>conn h. map_option snd (db_pool_release pool conn h)" opaque_block for pool
  by unfold_locales (simp_all add: db_pool_acquire_def db_pool_release_def handle_simps)

interpretation monitor_handle: handle_pair db_query_monitor_create db_query_monitor_destroy opaque_block
  by unfold_locales (simp_all add: db_query_monitor_create_def db_query_monitor_destroy_def handle_simps)

interpretation bulk_handle: handle_pair
  "\<lambda>ans. db_bulk_insert z ans conn tbl rows n config" db_bulk_operation_result_destroy "zero_bulk_operation_result z"
  for z conn tbl rows n config
  by unfold_locales (simp_all add: db_bulk_insert_def db_bulk_operation_result_destroy_def handle_simps)

section \<open>The connection pool\<close>

abbreviation pool_exec :: "addr option \<Rightarrow> bytes heap \<Rightarrow> handle_op \<Rightarrow> bytes heap option" where
  "pool_exec pool \<equiv> handle_exec (\<lambda>ans. db_pool_acquire ans pool) (\<lambda>conn h. map_option snd (db_pool_release pool conn h))"

text \<open>
  Connections are neither leaked nor released twice by a client that releases what it acquired:
  after any such sequence the allocated connections are those acquired and not yet released.
\<close>

lemma db_pool_connections_exact:
  "dom h = L \<Longrightarrow> checked live_after handle_ok L ops \<Longrightarrow>
     \<exists>h'. run (pool_exec pool) h ops = Some h' \<and> dom h' = foldl live_after L ops"
  by (rule connection_handle.live.checked_refines)

text \<open>
  The limits of \<open>pool_config_t\<close> are not enforced and the statistics do not see the connections: as
  many connections can be acquired as the allocator gives, and the pool reports none in use.
\<close>

lemma db_pool_unbounded:
  assumes "distinct as"
  shows "\<exists>h. run (pool_exec pool) Map.empty (map (H_Create \<circ> Some) as) = Some h \<and> dom h = set as
     \<and> pls_active_connections (the (snd (db_pool_get_stats z pool (Some st)))) = 0"
  using db_pool_connections_exact [of Map.empty "{}" "map (H_Create \<circ> Some) as" pool] creates_all [OF assms, of "{}"]
  by (auto simp: db_pool_get_stats_def zero_pool_stats_def)

section \<open>Strings\<close>

lemma string_duplicate_copy: "string_duplicate (Some a) (Some s) h = (Some a, h(a \<mapsto> s))"
  by (simp add: string_duplicate_def c_alloc_def)

text \<open>The optimizer returns the query it was given.\<close>

lemma db_optimizer_rewrite_identity:
  assumes "db_optimizer_rewrite_query ans opt (Some q) h = (Some a, h')"
  shows "h' a = Some q"
  using assms by (auto simp: db_optimizer_rewrite_query_def string_duplicate_def c_alloc_def split: option.splits)

end
