(* ===== verification/Latency_Observability.thy ===== *)
theory Latency_Observability
  imports C_Alloc
begin

text \<open>
  \<^verbatim>\<open>src/latency_observability/latency_observability.c\<close> with the structures of
  \<^verbatim>\<open>include/latency_observability.h\<close>: latency statistics, budgets, timeouts, retries, a second circuit
  breaker, tracing, profiling and health checks. The bodies are placeholders that allocate, release or clear a structure
  and report success or a constant; they are modelled as they are, with the conventions of
  \<open>Db_Performance\<close>. Several functions have the names of functions in \<^verbatim>\<open>distributed.c\<close>, which are
  modelled in other theories.
\<close>

section \<open>Latency statistics\<close>

record 'd latency_stats_t =
  lst_sample_count :: u64
  lst_min_ms :: 'd
  lst_max_ms :: 'd
  lst_mean_ms :: 'd
  lst_median_ms :: 'd
  lst_stddev_ms :: 'd
  lst_p50_ms :: 'd
  lst_p75_ms :: 'd
  lst_p90_ms :: 'd
  lst_p95_ms :: 'd
  lst_p99_ms :: 'd
  lst_p999_ms :: 'd

definition zero_latency_stats :: "'d \<Rightarrow> 'd latency_stats_t" where
  "zero_latency_stats z =
     \<lparr>lst_sample_count = 0, lst_min_ms = z, lst_max_ms = z, lst_mean_ms = z,
      lst_median_ms = z, lst_stddev_ms = z, lst_p50_ms = z, lst_p75_ms = z, lst_p90_ms = z,
      lst_p95_ms = z, lst_p99_ms = z, lst_p999_ms = z\<rparr>"

record 'd operation_latency_t =
  opl_operation :: cstr
  opl_stats :: "'d latency_stats_t"
  opl_error_count :: u64
  opl_error_rate :: 'd
  opl_timeout_count :: u64

record latency_config_t =
  ltc_window_size :: u64
  ltc_window_duration_ms :: u64
  ltc_bucket_count :: u64
  ltc_track_per_operation :: bool

datatype tail_latency_cause_t =
    TAIL_LATENCY_NETWORK | TAIL_LATENCY_GC | TAIL_LATENCY_DISK_IO | TAIL_LATENCY_LOCK_CONTENTION
  | TAIL_LATENCY_QUEUEING | TAIL_LATENCY_CACHE_MISS | TAIL_LATENCY_RESOURCE_EXHAUSTION
  | TAIL_LATENCY_EXTERNAL_DEPENDENCY

record 'd tail_latency_event_t =
  tle_operation :: cstr
  tle_timestamp :: u64
  tle_latency_ms :: 'd
  tle_likely_cause :: tail_latency_cause_t
  tle_details :: cstr
  tle_severity :: 'd

record 'd tail_latency_config_t =
  tlc_threshold_percentile :: 'd
  tlc_threshold_multiplier :: 'd
  tlc_enable_auto_detection :: bool
  tlc_enable_cause_analysis :: bool

datatype tail_latency_mitigation_t =
    TAIL_MITIGATION_HEDGING | TAIL_MITIGATION_SPECULATION | TAIL_MITIGATION_LOAD_SHEDDING
  | TAIL_MITIGATION_CACHING | TAIL_MITIGATION_CIRCUIT_BREAKER

definition latency_tracker_create ::
  "addr option \<Rightarrow> latency_config_t option \<Rightarrow> bytes heap \<Rightarrow> addr option \<times> bytes heap" where
  "latency_tracker_create ans config h = c_alloc ans opaque_block h"

definition latency_tracker_destroy ::
  "addr option \<Rightarrow> bytes heap \<Rightarrow> bytes heap option" where
  "latency_tracker_destroy tracker h = h_free tracker h"

definition latency_record ::
  "addr option \<Rightarrow> cstr option \<Rightarrow> 'd \<Rightarrow> bool \<Rightarrow> error_code_t" where
  "latency_record tracker op latency_ms success = SUCCESS"

definition latency_record_start ::
  "addr option \<Rightarrow> cstr option \<Rightarrow> u64 option \<Rightarrow> error_code_t \<times> u64 option" where
  "latency_record_start tracker op request_id = (SUCCESS, map_option (\<lambda>_. 0) request_id)"

definition latency_record_end ::
  "addr option \<Rightarrow> u64 \<Rightarrow> bool \<Rightarrow> error_code_t" where
  "latency_record_end tracker request_id success = SUCCESS"

definition latency_get_stats ::
  "'d \<Rightarrow> addr option \<Rightarrow> cstr option \<Rightarrow> 'd latency_stats_t option \<Rightarrow> error_code_t \<times> 'd latency_stats_t option" where
  "latency_get_stats z tracker op stats = (SUCCESS, map_option (\<lambda>_. zero_latency_stats z) stats)"

definition latency_get_all_operations ::
  "addr option \<Rightarrow> bool \<Rightarrow> bool \<Rightarrow> (error_code_t \<times> 'd operation_latency_t list option \<times> u64) option" where
  "latency_get_all_operations tracker operations count =
     (if operations \<and> count then Some (SUCCESS, None, 0) else None)"

definition latency_reset_stats :: "addr option \<Rightarrow> error_code_t" where
  "latency_reset_stats tracker = SUCCESS"

definition latency_detect_tail_events ::
  "addr option \<Rightarrow> 'd tail_latency_config_t option \<Rightarrow> bool \<Rightarrow> bool \<Rightarrow> (error_code_t \<times> 'd tail_latency_event_t list option \<times> u64) option" where
  "latency_detect_tail_events tracker config events count =
     (if events \<and> count then Some (SUCCESS, None, 0) else None)"

definition latency_suggest_mitigations ::
  "'d tail_latency_event_t option \<Rightarrow> bool \<Rightarrow> bool \<Rightarrow> (error_code_t \<times> tail_latency_mitigation_t list option \<times> u64) option" where
  "latency_suggest_mitigations ev strategies count =
     (if strategies \<and> count then Some (SUCCESS, None, 0) else None)"

section \<open>Latency budgets\<close>

record 'd latency_budget_t =
  lbg_operation :: cstr
  lbg_allocated_budget_ms :: 'd
  lbg_consumed_ms :: 'd
  lbg_remaining_ms :: 'd
  lbg_utilization :: 'd
  lbg_is_exceeded :: bool

definition zero_latency_budget :: "'d \<Rightarrow> 'd latency_budget_t" where
  "zero_latency_budget z =
     \<lparr>lbg_operation = [], lbg_allocated_budget_ms = z, lbg_consumed_ms = z,
      lbg_remaining_ms = z, lbg_utilization = z, lbg_is_exceeded = False\<rparr>"

record 'd service_latency_budget_t =
  slb_service_name :: cstr
  slb_budgets :: "'d latency_budget_t list option"
  slb_budget_count :: u64
  slb_total_budget_ms :: 'd
  slb_total_consumed_ms :: 'd

definition zero_service_latency_budget :: "'d \<Rightarrow> 'd service_latency_budget_t" where
  "zero_service_latency_budget z =
     \<lparr>slb_service_name = [], slb_budgets = None, slb_budget_count = 0,
      slb_total_budget_ms = z, slb_total_consumed_ms = z\<rparr>"

definition latency_budget_create ::
  "'d \<Rightarrow> addr option \<Rightarrow> cstr option \<Rightarrow> 'd service_latency_budget_t heap \<Rightarrow> addr option \<times> 'd service_latency_budget_t heap" where
  "latency_budget_create z ans service_name h = c_alloc ans (zero_service_latency_budget z) h"

definition latency_budget_destroy ::
  "addr option \<Rightarrow> 'd service_latency_budget_t heap \<Rightarrow> 'd service_latency_budget_t heap option" where
  "latency_budget_destroy budget h = h_free budget h"

definition latency_budget_set ::
  "addr option \<Rightarrow> cstr option \<Rightarrow> 'd \<Rightarrow> error_code_t" where
  "latency_budget_set budget op budget_ms = SUCCESS"

definition latency_budget_consume ::
  "addr option \<Rightarrow> cstr option \<Rightarrow> 'd \<Rightarrow> error_code_t" where
  "latency_budget_consume budget op consumed_ms = SUCCESS"

definition latency_budget_get ::
  "'d \<Rightarrow> addr option \<Rightarrow> cstr option \<Rightarrow> 'd latency_budget_t option \<Rightarrow> error_code_t \<times> 'd latency_budget_t option" where
  "latency_budget_get z budget op info = (SUCCESS, map_option (\<lambda>_. zero_latency_budget z) info)"

definition latency_budget_check_exceeded ::
  "addr option \<Rightarrow> bool \<Rightarrow> bool \<Rightarrow> (error_code_t \<times> cstr option list option \<times> u64) option" where
  "latency_budget_check_exceeded budget exceeded_operations count =
     (if exceeded_operations \<and> count then Some (SUCCESS, None, 0) else None)"

section \<open>Timeouts\<close>

datatype timeout_type_t =
    TIMEOUT_TYPE_CONNECT | TIMEOUT_TYPE_READ | TIMEOUT_TYPE_WRITE | TIMEOUT_TYPE_REQUEST
  | TIMEOUT_TYPE_IDLE

record timeout_event_t =
  tme_operation :: cstr
  tme_type :: timeout_type_t
  tme_timeout_ms :: u64
  tme_actual_duration_ms :: u64
  tme_timestamp :: u64
  tme_error_message :: cstr

definition timeout_manager_create ::
  "addr option \<Rightarrow> bytes heap \<Rightarrow> addr option \<times> bytes heap" where
  "timeout_manager_create ans h = c_alloc ans opaque_block h"

definition timeout_manager_destroy ::
  "addr option \<Rightarrow> bytes heap \<Rightarrow> bytes heap option" where
  "timeout_manager_destroy manager h = h_free manager h"

definition timeout_set ::
  "addr option \<Rightarrow> cstr option \<Rightarrow> timeout_type_t \<Rightarrow> u64 \<Rightarrow> error_code_t" where
  "timeout_set manager op ty timeout_ms = SUCCESS"

definition timeout_get ::
  "addr option \<Rightarrow> cstr option \<Rightarrow> timeout_type_t \<Rightarrow> u64 option \<Rightarrow> error_code_t \<times> u64 option" where
  "timeout_get manager op ty timeout_ms = (SUCCESS, map_option (\<lambda>_. 0) timeout_ms)"

definition timeout_calculate_adaptive ::
  "addr option \<Rightarrow> addr option \<Rightarrow> cstr option \<Rightarrow> timeout_type_t \<Rightarrow> u64 option \<Rightarrow> error_code_t \<times> u64 option" where
  "timeout_calculate_adaptive manager tracker op ty timeout_ms =
     (SUCCESS, map_option (\<lambda>_. 5000) timeout_ms)"

definition timeout_update_adaptive :: "addr option \<Rightarrow> addr option \<Rightarrow> error_code_t" where
  "timeout_update_adaptive manager tracker = SUCCESS"

definition timeout_record_event ::
  "addr option \<Rightarrow> timeout_event_t option \<Rightarrow> error_code_t" where
  "timeout_record_event manager ev = SUCCESS"

definition timeout_get_events ::
  "addr option \<Rightarrow> bool \<Rightarrow> bool \<Rightarrow> (error_code_t \<times> timeout_event_t list option \<times> u64) option" where
  "timeout_get_events manager events count = (if events \<and> count then Some (SUCCESS, None, 0) else None)"

section \<open>Retry policies\<close>

datatype retry_strategy_t =
    RETRY_STRATEGY_FIXED | RETRY_STRATEGY_LINEAR | RETRY_STRATEGY_EXPONENTIAL
  | RETRY_STRATEGY_DECORRELATED

record 'd retry_config_t =
  rtc_strategy :: retry_strategy_t
  rtc_max_attempts :: u64
  rtc_initial_delay_ms :: u64
  rtc_max_delay_ms :: u64
  rtc_backoff_multiplier :: 'd
  rtc_jitter_factor :: 'd
  rtc_retry_on_timeout :: bool
  rtc_retryable_status_codes :: "addr option"
  rtc_status_code_count :: u64

record retry_decision_t =
  rtd_attempt_number :: u64
  rtd_next_retry_delay_ms :: u64
  rtd_should_retry :: bool
  rtd_reason :: cstr

definition zero_retry_decision :: "retry_decision_t" where
  "zero_retry_decision =
     \<lparr>rtd_attempt_number = 0, rtd_next_retry_delay_ms = 0, rtd_should_retry = False,
      rtd_reason = []\<rparr>"

record 'd retry_stats_t =
  rts_operation :: cstr
  rts_total_attempts :: u64
  rts_successful_attempts :: u64
  rts_failed_attempts :: u64
  rts_total_delay_ms :: u64
  rts_success_rate :: 'd

definition zero_retry_stats :: "'d \<Rightarrow> 'd retry_stats_t" where
  "zero_retry_stats z =
     \<lparr>rts_operation = [], rts_total_attempts = 0, rts_successful_attempts = 0,
      rts_failed_attempts = 0, rts_total_delay_ms = 0, rts_success_rate = z\<rparr>"

definition retry_policy_create ::
  "addr option \<Rightarrow> 'd retry_config_t option \<Rightarrow> bytes heap \<Rightarrow> addr option \<times> bytes heap" where
  "retry_policy_create ans config h = c_alloc ans opaque_block h"

definition retry_policy_destroy ::
  "addr option \<Rightarrow> bytes heap \<Rightarrow> bytes heap option" where
  "retry_policy_destroy policy h = h_free policy h"

definition retry_should_retry ::
  "addr option \<Rightarrow> addr option \<Rightarrow> u64 \<Rightarrow> int \<Rightarrow> u64 \<Rightarrow> retry_decision_t heap \<Rightarrow> addr option \<times> retry_decision_t heap" where
  "retry_should_retry ans policy attempt error_code latency_ms h = c_alloc ans zero_retry_decision h"

definition retry_calculate_delay :: "addr option \<Rightarrow> u64 \<Rightarrow> u64" where
  "retry_calculate_delay policy attempt = 1000"

definition retry_execute ::
  "addr option \<Rightarrow> addr option \<Rightarrow> addr option \<Rightarrow> bool \<Rightarrow> (error_code_t \<times> addr option) option" where
  "retry_execute policy fn ctx result = (if result then Some (SUCCESS, None) else None)"

definition retry_execute_async ::
  "addr option \<Rightarrow> addr option \<Rightarrow> addr option \<Rightarrow> addr option \<Rightarrow> error_code_t" where
  "retry_execute_async policy fn ctx callback = SUCCESS"

definition retry_get_stats ::
  "'d \<Rightarrow> addr option \<Rightarrow> cstr option \<Rightarrow> 'd retry_stats_t option \<Rightarrow> error_code_t \<times> 'd retry_stats_t option" where
  "retry_get_stats z policy op stats = (SUCCESS, map_option (\<lambda>_. zero_retry_stats z) stats)"

section \<open>Circuit breaker\<close>

datatype circuit_state_t =
    CIRCUIT_STATE_CLOSED | CIRCUIT_STATE_OPEN | CIRCUIT_STATE_HALF_OPEN

record 'd circuit_breaker_config_t =
  cbc_failure_threshold :: u64
  cbc_timeout_ms :: u64
  cbc_success_threshold :: u64
  cbc_monitoring_window_ms :: u64
  cbc_error_rate_threshold :: 'd

record 'd circuit_breaker_stats_t =
  cbs_state :: circuit_state_t
  cbs_state_changed_at :: u64
  cbs_total_requests :: u64
  cbs_successful_requests :: u64
  cbs_failed_requests :: u64
  cbs_rejected_requests :: u64
  cbs_error_rate :: 'd
  cbs_time_in_open_ms :: u64

definition zero_circuit_breaker_stats :: "'d \<Rightarrow> 'd circuit_breaker_stats_t" where
  "zero_circuit_breaker_stats z =
     \<lparr>cbs_state = CIRCUIT_STATE_CLOSED, cbs_state_changed_at = 0, cbs_total_requests = 0,
      cbs_successful_requests = 0, cbs_failed_requests = 0, cbs_rejected_requests = 0,
      cbs_error_rate = z, cbs_time_in_open_ms = 0\<rparr>"

definition circuit_breaker_create ::
  "addr option \<Rightarrow> cstr option \<Rightarrow> 'd circuit_breaker_config_t option \<Rightarrow> bytes heap \<Rightarrow> addr option \<times> bytes heap" where
  "circuit_breaker_create ans name config h = c_alloc ans opaque_block h"

definition circuit_breaker_destroy ::
  "addr option \<Rightarrow> bytes heap \<Rightarrow> bytes heap option" where
  "circuit_breaker_destroy breaker h = h_free breaker h"

definition circuit_breaker_allow_request :: "addr option \<Rightarrow> bool" where
  "circuit_breaker_allow_request breaker = True"

definition circuit_breaker_record_success :: "addr option \<Rightarrow> error_code_t" where
  "circuit_breaker_record_success breaker = SUCCESS"

definition circuit_breaker_record_failure :: "addr option \<Rightarrow> error_code_t" where
  "circuit_breaker_record_failure breaker = SUCCESS"

definition circuit_breaker_get_state :: "addr option \<Rightarrow> circuit_state_t" where
  "circuit_breaker_get_state breaker = CIRCUIT_STATE_CLOSED"

definition circuit_breaker_execute ::
  "addr option \<Rightarrow> addr option \<Rightarrow> addr option \<Rightarrow> addr option \<Rightarrow> bool \<Rightarrow> (error_code_t \<times> addr option) option" where
  "circuit_breaker_execute breaker fn fallback ctx result = (if result then Some (SUCCESS, None) else None)"

definition circuit_breaker_get_stats ::
  "'d \<Rightarrow> addr option \<Rightarrow> 'd circuit_breaker_stats_t option \<Rightarrow> error_code_t \<times> 'd circuit_breaker_stats_t option" where
  "circuit_breaker_get_stats z breaker stats =
     (SUCCESS, map_option (\<lambda>_. zero_circuit_breaker_stats z) stats)"

definition circuit_breaker_reset :: "addr option \<Rightarrow> error_code_t" where
  "circuit_breaker_reset breaker = SUCCESS"

definition circuit_breaker_force_open :: "addr option \<Rightarrow> error_code_t" where
  "circuit_breaker_force_open breaker = SUCCESS"

definition circuit_breaker_force_close :: "addr option \<Rightarrow> error_code_t" where
  "circuit_breaker_force_close breaker = SUCCESS"

section \<open>Tracing\<close>

record trace_span_t =
  spn_trace_id :: cstr
  spn_span_id :: cstr
  spn_parent_span_id :: cstr
  spn_operation_name :: cstr
  spn_service_name :: cstr
  spn_start_time_us :: u64
  spn_duration_us :: u64
  spn_tags :: "cstr option list option"
  spn_tag_count :: u64
  spn_logs :: "cstr option list option"
  spn_log_count :: u64

definition zero_trace_span :: "trace_span_t" where
  "zero_trace_span =
     \<lparr>spn_trace_id = [], spn_span_id = [], spn_parent_span_id = [], spn_operation_name = [],
      spn_service_name = [], spn_start_time_us = 0, spn_duration_us = 0, spn_tags = None,
      spn_tag_count = 0, spn_logs = None, spn_log_count = 0\<rparr>"

record trace_t =
  trc_trace_id :: cstr
  trc_spans :: "trace_span_t option list option"
  trc_span_count :: u64
  trc_total_duration_us :: u64
  trc_root_operation :: cstr

definition zero_trace :: "trace_t" where
  "zero_trace =
     \<lparr>trc_trace_id = [], trc_spans = None, trc_span_count = 0, trc_total_duration_us = 0,
      trc_root_operation = []\<rparr>"

definition trace_span_start ::
  "addr option \<Rightarrow> cstr option \<Rightarrow> cstr option \<Rightarrow> cstr option \<Rightarrow> trace_span_t heap \<Rightarrow> addr option \<times> trace_span_t heap" where
  "trace_span_start ans operation_name service_name parent_span_id h = c_alloc ans zero_trace_span h"

definition trace_span_finish :: "addr option \<Rightarrow> unit" where
  "trace_span_finish span = ()"

definition trace_span_add_tag ::
  "addr option \<Rightarrow> cstr option \<Rightarrow> cstr option \<Rightarrow> error_code_t" where
  "trace_span_add_tag span key v = SUCCESS"

definition trace_span_add_log :: "addr option \<Rightarrow> cstr option \<Rightarrow> error_code_t" where
  "trace_span_add_log span message = SUCCESS"

definition trace_span_destroy ::
  "addr option \<Rightarrow> trace_span_t heap \<Rightarrow> trace_span_t heap option" where
  "trace_span_destroy span h = h_free span h"

definition trace_inject_context ::
  "addr option \<Rightarrow> bool \<Rightarrow> bool \<Rightarrow> (error_code_t \<times> cstr option \<times> u64) option" where
  "trace_inject_context span headers count = (if headers \<and> count then Some (SUCCESS, None, 0) else None)"

definition trace_extract_context ::
  "addr option \<Rightarrow> cstr option list option \<Rightarrow> u64 \<Rightarrow> cstr option \<Rightarrow> cstr option \<Rightarrow> trace_span_t heap \<Rightarrow> addr option \<times> trace_span_t heap" where
  "trace_extract_context ans headers count operation_name service_name h = c_alloc ans zero_trace_span h"

definition trace_get ::
  "addr option \<Rightarrow> cstr option \<Rightarrow> trace_t heap \<Rightarrow> addr option \<times> trace_t heap" where
  "trace_get ans trace_id h = c_alloc ans zero_trace h"

definition trace_destroy :: "addr option \<Rightarrow> trace_t heap \<Rightarrow> trace_t heap option" where
  "trace_destroy tr h = h_free tr h"

section \<open>Bottlenecks and profiles\<close>

datatype bottleneck_type_t =
    BOTTLENECK_CPU | BOTTLENECK_MEMORY | BOTTLENECK_DISK_IO | BOTTLENECK_NETWORK_IO
  | BOTTLENECK_DATABASE | BOTTLENECK_EXTERNAL_API | BOTTLENECK_LOCK_CONTENTION
  | BOTTLENECK_CACHE_MISS

record 'd bottleneck_t =
  btl_operation :: cstr
  btl_type :: bottleneck_type_t
  btl_time_spent_ms :: 'd
  btl_percentage_of_total :: 'd
  btl_description :: cstr
  btl_recommendations :: "cstr option list option"
  btl_recommendation_count :: u64

record 'd bottleneck_report_t =
  btr_service_name :: cstr
  btr_analysis_duration_ms :: u64
  btr_bottlenecks :: "'d bottleneck_t list option"
  btr_bottleneck_count :: u64
  btr_total_time_analyzed_ms :: 'd

definition zero_bottleneck_report :: "'d \<Rightarrow> 'd bottleneck_report_t" where
  "zero_bottleneck_report z =
     \<lparr>btr_service_name = [], btr_analysis_duration_ms = 0, btr_bottlenecks = None,
      btr_bottleneck_count = 0, btr_total_time_analyzed_ms = z\<rparr>"

record 'd critical_path_t =
  crp_operations :: "cstr option list option"
  crp_operation_count :: u64
  crp_total_duration_ms :: 'd
  crp_is_serial :: bool

definition zero_critical_path :: "'d \<Rightarrow> 'd critical_path_t" where
  "zero_critical_path z =
     \<lparr>crp_operations = None, crp_operation_count = 0, crp_total_duration_ms = z,
      crp_is_serial = False\<rparr>"

definition bottleneck_analyzer_create ::
  "addr option \<Rightarrow> cstr option \<Rightarrow> bytes heap \<Rightarrow> addr option \<times> bytes heap" where
  "bottleneck_analyzer_create ans service_name h = c_alloc ans opaque_block h"

definition bottleneck_analyzer_destroy ::
  "addr option \<Rightarrow> bytes heap \<Rightarrow> bytes heap option" where
  "bottleneck_analyzer_destroy analyzer h = h_free analyzer h"

definition bottleneck_record_operation ::
  "addr option \<Rightarrow> cstr option \<Rightarrow> bottleneck_type_t \<Rightarrow> 'd \<Rightarrow> error_code_t" where
  "bottleneck_record_operation analyzer op ty duration_ms = SUCCESS"

definition bottleneck_analyze ::
  "'d \<Rightarrow> addr option \<Rightarrow> addr option \<Rightarrow> u64 \<Rightarrow> 'd bottleneck_report_t heap \<Rightarrow> addr option \<times> 'd bottleneck_report_t heap" where
  "bottleneck_analyze z ans analyzer time_window_ms h = c_alloc ans (zero_bottleneck_report z) h"

definition bottleneck_report_destroy ::
  "addr option \<Rightarrow> 'd bottleneck_report_t heap \<Rightarrow> 'd bottleneck_report_t heap option" where
  "bottleneck_report_destroy report h = h_free report h"

definition bottleneck_find_critical_path ::
  "'d \<Rightarrow> addr option \<Rightarrow> addr option \<Rightarrow> 'd critical_path_t heap \<Rightarrow> addr option \<times> 'd critical_path_t heap" where
  "bottleneck_find_critical_path z ans tr h = c_alloc ans (zero_critical_path z) h"

definition critical_path_destroy ::
  "addr option \<Rightarrow> 'd critical_path_t heap \<Rightarrow> 'd critical_path_t heap option" where
  "critical_path_destroy p h = h_free p h"

record 'd profile_entry_t =
  pfe_function_name :: cstr
  pfe_call_count :: u64
  pfe_total_time_ms :: 'd
  pfe_self_time_ms :: 'd
  pfe_avg_time_ms :: 'd
  pfe_min_time_ms :: 'd
  pfe_max_time_ms :: 'd

record 'd profile_report_t =
  pfr_service_name :: cstr
  pfr_profiling_duration_ms :: u64
  pfr_entries :: "'d profile_entry_t list option"
  pfr_entry_count :: u64
  pfr_total_cpu_time_ms :: 'd

definition zero_profile_report :: "'d \<Rightarrow> 'd profile_report_t" where
  "zero_profile_report z =
     \<lparr>pfr_service_name = [], pfr_profiling_duration_ms = 0, pfr_entries = None,
      pfr_entry_count = 0, pfr_total_cpu_time_ms = z\<rparr>"

definition profile_start :: "cstr option \<Rightarrow> error_code_t" where
  "profile_start service_name = SUCCESS"

definition profile_stop :: "cstr option \<Rightarrow> error_code_t" where
  "profile_stop service_name = SUCCESS"

definition profile_get_report ::
  "'d \<Rightarrow> addr option \<Rightarrow> cstr option \<Rightarrow> 'd profile_report_t heap \<Rightarrow> addr option \<times> 'd profile_report_t heap" where
  "profile_get_report z ans service_name h = c_alloc ans (zero_profile_report z) h"

definition profile_report_destroy ::
  "addr option \<Rightarrow> 'd profile_report_t heap \<Rightarrow> 'd profile_report_t heap option" where
  "profile_report_destroy report h = h_free report h"

definition profiler_create ::
  "addr option \<Rightarrow> bytes heap \<Rightarrow> addr option \<times> bytes heap" where
  "profiler_create ans h = c_alloc ans opaque_block h"

definition profiler_destroy :: "addr option \<Rightarrow> bytes heap \<Rightarrow> bytes heap option" where
  "profiler_destroy profiler h = h_free profiler h"

definition profiler_enter :: "addr option \<Rightarrow> cstr option \<Rightarrow> error_code_t" where
  "profiler_enter profiler function_name = SUCCESS"

definition profiler_exit :: "addr option \<Rightarrow> cstr option \<Rightarrow> error_code_t" where
  "profiler_exit profiler function_name = SUCCESS"

definition profiler_get_report ::
  "'d \<Rightarrow> addr option \<Rightarrow> addr option \<Rightarrow> 'd profile_report_t heap \<Rightarrow> addr option \<times> 'd profile_report_t heap" where
  "profiler_get_report z ans profiler h = c_alloc ans (zero_profile_report z) h"

section \<open>Metrics and health\<close>

record 'd observability_metrics_t =
  obm_latency :: "'d latency_stats_t"
  obm_circuit_breaker :: "'d circuit_breaker_stats_t"
  obm_retry :: "'d retry_stats_t"
  obm_total_requests :: u64
  obm_successful_requests :: u64
  obm_failed_requests :: u64
  obm_error_rate :: 'd
  obm_requests_per_second :: 'd

definition zero_observability_metrics :: "'d \<Rightarrow> 'd observability_metrics_t" where
  "zero_observability_metrics z =
     \<lparr>obm_latency = zero_latency_stats z, obm_circuit_breaker = zero_circuit_breaker_stats z,
      obm_retry = zero_retry_stats z, obm_total_requests = 0, obm_successful_requests = 0,
      obm_failed_requests = 0, obm_error_rate = z, obm_requests_per_second = z\<rparr>"

datatype health_status_t =
    HEALTH_STATUS_HEALTHY | HEALTH_STATUS_DEGRADED | HEALTH_STATUS_UNHEALTHY

record 'd health_check_t =
  hlc_status :: health_status_t
  hlc_message :: cstr
  hlc_uptime_seconds :: 'd
  hlc_cpu_usage :: 'd
  hlc_memory_usage_mb :: 'd

definition zero_health_check :: "'d \<Rightarrow> 'd health_check_t" where
  "zero_health_check z =
     \<lparr>hlc_status = HEALTH_STATUS_HEALTHY, hlc_message = [], hlc_uptime_seconds = z,
      hlc_cpu_usage = z, hlc_memory_usage_mb = z\<rparr>"

definition observability_collect_metrics ::
  "'d \<Rightarrow> addr option \<Rightarrow> cstr option \<Rightarrow> 'd observability_metrics_t heap \<Rightarrow> addr option \<times> 'd observability_metrics_t heap" where
  "observability_collect_metrics z ans service_name h = c_alloc ans (zero_observability_metrics z) h"

definition observability_metrics_destroy ::
  "addr option \<Rightarrow> 'd observability_metrics_t heap \<Rightarrow> 'd observability_metrics_t heap option" where
  "observability_metrics_destroy metrics h = h_free metrics h"

definition observability_export_prometheus ::
  "addr option \<Rightarrow> bytes option \<Rightarrow> u64 \<Rightarrow> (error_code_t \<times> bytes option) option" where
  "observability_export_prometheus metrics buffer sz = map_option (Pair SUCCESS) (put_nul buffer sz)"

definition observability_export_json ::
  "addr option \<Rightarrow> bytes option \<Rightarrow> u64 \<Rightarrow> (error_code_t \<times> bytes option) option" where
  "observability_export_json metrics buffer sz = map_option (Pair SUCCESS) (put_nul buffer sz)"

definition observability_health_check ::
  "'d \<Rightarrow> addr option \<Rightarrow> cstr option \<Rightarrow> 'd health_check_t heap \<Rightarrow> addr option \<times> 'd health_check_t heap" where
  "observability_health_check z ans service_name h =
     c_alloc ans ((zero_health_check z)\<lparr>hlc_status := HEALTH_STATUS_HEALTHY\<rparr>) h"

section \<open>Handles\<close>

interpretation latency_handle: handle_pair
  "\<lambda>ans. latency_tracker_create ans config" latency_tracker_destroy opaque_block for config
  by unfold_locales (simp_all add: latency_tracker_create_def latency_tracker_destroy_def handle_simps)

interpretation budget_handle: handle_pair
  "\<lambda>ans. latency_budget_create z ans service_name" latency_budget_destroy "zero_service_latency_budget z"
  for z service_name
  by unfold_locales (simp_all add: latency_budget_create_def latency_budget_destroy_def handle_simps)

interpretation timeout_handle: handle_pair timeout_manager_create timeout_manager_destroy opaque_block
  by unfold_locales (simp_all add: timeout_manager_create_def timeout_manager_destroy_def handle_simps)

interpretation retry_handle: handle_pair "\<lambda>ans. retry_policy_create ans config" retry_policy_destroy opaque_block for config
  by unfold_locales (simp_all add: retry_policy_create_def retry_policy_destroy_def handle_simps)

interpretation breaker_handle: handle_pair
  "\<lambda>ans. circuit_breaker_create ans name config" circuit_breaker_destroy opaque_block for name config
  by unfold_locales (simp_all add: circuit_breaker_create_def circuit_breaker_destroy_def handle_simps)

interpretation span_handle: handle_pair
  "\<lambda>ans. trace_span_start ans operation_name service_name parent" trace_span_destroy zero_trace_span
  for operation_name service_name parent
  by unfold_locales (simp_all add: trace_span_start_def trace_span_destroy_def handle_simps)

interpretation trace_handle: handle_pair "\<lambda>ans. trace_get ans trace_id" trace_destroy zero_trace for trace_id
  by unfold_locales (simp_all add: trace_get_def trace_destroy_def handle_simps)

interpretation analyzer_handle: handle_pair
  "\<lambda>ans. bottleneck_analyzer_create ans service_name" bottleneck_analyzer_destroy opaque_block for service_name
  by unfold_locales (simp_all add: bottleneck_analyzer_create_def bottleneck_analyzer_destroy_def handle_simps)

interpretation bottleneck_handle: handle_pair
  "\<lambda>ans. bottleneck_analyze z ans analyzer time_window_ms" bottleneck_report_destroy "zero_bottleneck_report z"
  for z analyzer time_window_ms
  by unfold_locales (simp_all add: bottleneck_analyze_def bottleneck_report_destroy_def handle_simps)

interpretation profile_handle: handle_pair
  "\<lambda>ans. profile_get_report z ans service_name" profile_report_destroy "zero_profile_report z" for z service_name
  by unfold_locales (simp_all add: profile_get_report_def profile_report_destroy_def handle_simps)

interpretation profiler_handle: handle_pair profiler_create profiler_destroy opaque_block
  by unfold_locales (simp_all add: profiler_create_def profiler_destroy_def handle_simps)

interpretation metrics_handle: handle_pair
  "\<lambda>ans. observability_collect_metrics z ans service_name" observability_metrics_destroy "zero_observability_metrics z"
  for z service_name
  by unfold_locales (simp_all add: observability_collect_metrics_def observability_metrics_destroy_def handle_simps)

section \<open>What the placeholders do not provide\<close>

lemma breaker_never_rejects:
  "circuit_breaker_force_open b = SUCCESS \<and> circuit_breaker_record_failure b = SUCCESS
   \<and> circuit_breaker_get_state b = CIRCUIT_STATE_CLOSED \<and> circuit_breaker_allow_request b"
  by (simp add: circuit_breaker_force_open_def circuit_breaker_record_failure_def circuit_breaker_get_state_def
      circuit_breaker_allow_request_def)

lemma timeout_not_stored:
  "timeout_set manager op ty n = SUCCESS \<and> timeout_get manager op ty (Some t) = (SUCCESS, Some 0)"
  by (simp add: timeout_set_def timeout_get_def)

text \<open>The retried function is not called: the result is NULL and success is reported.\<close>

lemma retry_execute_skips: "retry_execute policy fn ctx True = Some (SUCCESS, None)"
  by (simp add: retry_execute_def)

lemma health_always_good:
  "observability_health_check z (Some a) service_name h = (Some a, h') \<Longrightarrow>
     \<exists>c. h' a = Some c \<and> hlc_status c = HEALTH_STATUS_HEALTHY"
  by (auto simp: observability_health_check_def c_alloc_def)

end
