(* ===== verification/Placeholder.thy ===== *)
theory Placeholder
  imports C_Alloc
begin

text \<open>
  Modules whose functions look at none of their arguments: they return constants, hand out cleared or
  copied memory, release it, and store NULL or zero through the caller's pointers. Such a module is
  given as a function from a call (a constructor per C function), the answer of the allocator and the
  heap to the reply, the values stored through pointer arguments in their order, and the heap. An
  argument that is stored through is given as whether it is not NULL; storing through NULL and
  releasing what is not allocated are undefined (\<open>None\<close>). Enumerations passed as arguments are integers.
  The contract \<open>placeholder\<close> says that nothing a module does depends on what it did before.
\<close>

section \<open>Replies and memory\<close>

datatype block = Zeros64 | Zero_struct cstr | Chars cstr

datatype reply = No_reply | Code int | Bool bool | Pointer "addr option" | Text cstr

datatype stored = Null_stored | Int_stored int | Nul_stored | Cleared | Pointer_stored "addr option"

type_synonym outcome = "((reply \<times> stored list) \<times> block heap) option"

named_theorems placeholder_simps \<open>unfolding of the statements of placeholder functions\<close>

definition returns :: "reply \<Rightarrow> block heap \<Rightarrow> outcome" where
  [placeholder_simps]: "returns r h = Some ((r, []), h)"

text \<open>\<open>return SUCCESS\<close>, a fresh block, \<open>strdup\<close>, \<open>free\<close>\<close>

definition success :: "block heap \<Rightarrow> outcome" where
  [placeholder_simps]: "success = returns (Code (error_code_val SUCCESS))"

definition allocates :: "block \<Rightarrow> addr option \<Rightarrow> block heap \<Rightarrow> outcome" where
  [placeholder_simps]: "allocates b ans h = (let (p, h) = c_alloc ans b h in returns (Pointer p) h)"

definition copies :: "cstr option \<Rightarrow> addr option \<Rightarrow> block heap \<Rightarrow> outcome" where
  [placeholder_simps]: "copies s ans h = (case s of None \<Rightarrow> None | Some t \<Rightarrow> allocates (Chars t) ans h)"

definition frees :: "addr option \<Rightarrow> reply \<Rightarrow> block heap \<Rightarrow> outcome" where
  [placeholder_simps]: "frees p r h = (case h_free p h of None \<Rightarrow> None | Some h \<Rightarrow> returns r h)"

text \<open>\<open>*p = v\<close> and \<open>if (p) *p = v\<close>, before the rest \<open>k\<close> of the function\<close>

definition stores :: "bool \<Rightarrow> stored \<Rightarrow> outcome \<Rightarrow> outcome" where
  [placeholder_simps]: "stores p v k = (if p then map_option (\<lambda>((r, out), h). ((r, v # out), h)) k else None)"

definition stores_if :: "bool \<Rightarrow> stored \<Rightarrow> outcome \<Rightarrow> outcome" where
  [placeholder_simps]: "stores_if p v k = (if p then stores p v k else k)"

declare c_alloc_def [placeholder_simps] h_free_def [placeholder_simps]

lemmas placeholder_splits = option.splits if_splits

section \<open>Sequences of calls\<close>

fun transcript ::
  "('f \<Rightarrow> addr option \<Rightarrow> block heap \<Rightarrow> outcome) \<Rightarrow> ('f \<times> addr option) list \<Rightarrow> block heap \<Rightarrow>
     ((reply \<times> stored list) list \<times> block heap) option" where
  "transcript call [] h = Some ([], h)"
| "transcript call ((f, ans) # fs) h =
     (case call f ans h of
        None \<Rightarrow> None
      | Some (r, h) \<Rightarrow> map_option (\<lambda>(rs, h). (r # rs, h)) (transcript call fs h))"

locale placeholder =
  fixes call :: "'f \<Rightarrow> addr option \<Rightarrow> block heap \<Rightarrow> outcome"
  assumes reply_fixed: "call f ans h = Some (r, h1) \<Longrightarrow> call f ans h' = Some (r', h2) \<Longrightarrow> r' = r"
    and blocks_kept: "call f ans h = Some (r, h') \<Longrightarrow> ans \<noteq> Some a \<Longrightarrow> h' a = None \<or> h' a = h a"
begin

text \<open>Every reply of a sequence of calls is the one the call gives by itself.\<close>

lemma replies_fixed:
  assumes "transcript call fs h = Some (rs, h')" and "i < length fs" and "call (fst (fs ! i)) (snd (fs ! i)) h0 = Some (r, h1)"
  shows "rs ! i = r"
  using assms
proof (induction fs arbitrary: h rs i)
  case (Cons x fs)
  obtain f ans where x: "x = (f, ans)" by fastforce
  with Cons.prems(1) obtain r' h'' rs' where step: "call f ans h = Some (r', h'')" "transcript call fs h'' = Some (rs', h')" "rs = r' # rs'"
    by (auto split: option.splits)
  show ?case
  proof (cases i)
    case 0
    with Cons.prems(3) x step(3) reply_fixed [OF _ step(1)] show ?thesis by auto
  next
    case (Suc j)
    with Cons.prems(2,3) Cons.IH [OF step(2), of j] step(3) show ?thesis by simp
  qed
qed simp

text \<open>A block is never written: it keeps its content until it is released.\<close>

lemma content_kept:
  assumes "transcript call fs h = Some (rs, h')" and "\<forall>(f, ans) \<in> set fs. ans \<noteq> Some a"
  shows "h' a = None \<or> h' a = h a"
  using assms
proof (induction fs arbitrary: h rs)
  case (Cons x fs)
  obtain f ans where x: "x = (f, ans)" by fastforce
  with Cons.prems(1) obtain r h'' rs' where step: "call f ans h = Some (r, h'')" "transcript call fs h'' = Some (rs', h')"
    by (auto split: option.splits)
  have "h'' a = None \<or> h'' a = h a" using blocks_kept [OF step(1)] Cons.prems(2) x by simp
  moreover have "h' a = None \<or> h' a = h'' a" using Cons.IH [OF step(2)] Cons.prems(2) by simp
  ultimately show ?case by auto
qed simp

end

end
