(* ===== verification/Cache_Strategies.thy ===== *)
theory Cache_Strategies
  imports Placeholder
begin

text \<open>
  \<^verbatim>\<open>src/cache_strategies/cache_strategies.c\<close>: placeholders for cache backends, in three groups in the order of the file.
\<close>

section \<open>Instances, values, batches and times to live\<close>

datatype (plugins only: code size) cache_instance_fn =
    Cache_instance_create "addr option"
  | Cache_instance_destroy "addr option"
  | Cache_instance_connect "addr option"
  | Cache_instance_disconnect "addr option"
  | Cache_set "addr option" "cstr option" "addr option" u64
  | Cache_set_with_ttl "addr option" "cstr option" "addr option" u64 u64
  | Cache_get "addr option" "cstr option" bool bool
  | Cache_delete "addr option" "cstr option"
  | Cache_exists "addr option" "cstr option"
  | Cache_increment "addr option" "cstr option" int bool
  | Cache_decrement "addr option" "cstr option" int bool
  | Cache_append "addr option" "cstr option" "addr option" u64
  | Cache_mget "addr option" "addr option" u64 bool bool
  | Cache_mset "addr option" "addr option" "addr option" "addr option" u64
  | Cache_mdelete "addr option" "addr option" u64
  | Cache_set_ttl "addr option" "cstr option" u64
  | Cache_get_ttl "addr option" "cstr option" bool
  | Cache_persist "addr option" "cstr option"
  | Cache_touch "addr option" "cstr option"
  | Cache_expire_keys "addr option"
  | Cache_get_expiring_keys "addr option" u64 bool bool

primrec cache_instance_call :: "cache_instance_fn \<Rightarrow> addr option \<Rightarrow> block heap \<Rightarrow> outcome" where
  "cache_instance_call (Cache_instance_create config) ans h = allocates Zeros64 ans h"
| "cache_instance_call (Cache_instance_destroy cache) ans h = frees cache No_reply h"
| "cache_instance_call (Cache_instance_connect cache) ans h = success h"
| "cache_instance_call (Cache_instance_disconnect cache) ans h = success h"
| "cache_instance_call (Cache_set cache k v value_size) ans h = success h"
| "cache_instance_call (Cache_set_with_ttl cache k v value_size ttl_ms) ans h = success h"
| "cache_instance_call (Cache_get cache k v value_size) ans h =
     stores v Null_stored (stores_if value_size (Int_stored 0) (success h))"
| "cache_instance_call (Cache_delete cache k) ans h = success h"
| "cache_instance_call (Cache_exists cache k) ans h = returns (Bool False) h"
| "cache_instance_call (Cache_increment cache k delta new_value) ans h =
     stores_if new_value (Int_stored 0) (success h)"
| "cache_instance_call (Cache_decrement cache k delta new_value) ans h =
     stores_if new_value (Int_stored 0) (success h)"
| "cache_instance_call (Cache_append cache k v value_size) ans h = success h"
| "cache_instance_call (Cache_mget cache keys key_count values value_sizes) ans h =
     stores values Null_stored (stores value_sizes Null_stored (success h))"
| "cache_instance_call (Cache_mset cache keys values value_sizes cnt) ans h = success h"
| "cache_instance_call (Cache_mdelete cache keys key_count) ans h = success h"
| "cache_instance_call (Cache_set_ttl cache k ttl_ms) ans h = success h"
| "cache_instance_call (Cache_get_ttl cache k ttl_ms) ans h = stores_if ttl_ms (Int_stored 0) (success h)"
| "cache_instance_call (Cache_persist cache k) ans h = success h"
| "cache_instance_call (Cache_touch cache k) ans h = success h"
| "cache_instance_call (Cache_expire_keys cache) ans h = success h"
| "cache_instance_call (Cache_get_expiring_keys cache within_ms keys cnt) ans h =
     stores keys Null_stored (stores cnt (Int_stored 0) (success h))"

interpretation cs_instance: placeholder cache_instance_call
proof (unfold_locales, goal_cases)
  case (1 f ans h r h1 h' r' h2)
  then show ?case by (cases f) (auto simp: placeholder_simps split: placeholder_splits)
next
  case (2 f ans h r h' a)
  then show ?case by (cases f) (auto simp: placeholder_simps split: placeholder_splits)
qed

section \<open>Invalidation, stampede prevention, read-through, write-through and write-behind caches\<close>

datatype (plugins only: code size) cache_coherence_fn =
    Cache_invalidate_key "addr option" "cstr option"
  | Cache_invalidate_pattern "addr option" "cstr option"
  | Cache_invalidate_tag "addr option" "cstr option"
  | Cache_invalidate_all "addr option"
  | Cache_set_with_tags "addr option" "cstr option" "addr option" u64 "addr option" u64
  | Cache_get_keys_by_tag "addr option" "cstr option" bool bool
  | Cache_set_with_version "addr option" "cstr option" "addr option" u64 u64
  | Cache_get_with_version "addr option" "cstr option" bool bool bool
  | Cache_invalidate_version "addr option" u64
  | Cache_with_stampede_prevention "addr option" "addr option"
  | Cache_get_with_lock "addr option" "cstr option" bool bool "addr option" "addr option"
  | Cache_lock_acquire "addr option" "cstr option" u64
  | Cache_lock_release "addr option"
  | Cache_lock_try_acquire "addr option" "cstr option" bool
  | Read_through_cache_create "addr option" "addr option" "addr option"
  | Read_through_cache_destroy "addr option"
  | Read_through_get "addr option" "cstr option" bool bool
  | Write_through_cache_create "addr option" "addr option" "addr option"
  | Write_through_cache_destroy "addr option"
  | Write_through_set "addr option" "cstr option" "addr option" u64
  | Write_through_delete "addr option" "cstr option"
  | Write_behind_cache_create "addr option" "addr option" "addr option" u64
  | Write_behind_cache_destroy "addr option"
  | Write_behind_set "addr option" "cstr option" "addr option" u64
  | Write_behind_flush "addr option"

primrec cache_coherence_call :: "cache_coherence_fn \<Rightarrow> addr option \<Rightarrow> block heap \<Rightarrow> outcome" where
  "cache_coherence_call (Cache_invalidate_key cache k) ans h = success h"
| "cache_coherence_call (Cache_invalidate_pattern cache pattern) ans h = success h"
| "cache_coherence_call (Cache_invalidate_tag cache tag) ans h = success h"
| "cache_coherence_call (Cache_invalidate_all cache) ans h = success h"
| "cache_coherence_call (Cache_set_with_tags cache k v value_size tags tag_count) ans h = success h"
| "cache_coherence_call (Cache_get_keys_by_tag cache tag keys cnt) ans h =
     stores keys Null_stored (stores cnt (Int_stored 0) (success h))"
| "cache_coherence_call (Cache_set_with_version cache k v value_size version) ans h = success h"
| "cache_coherence_call (Cache_get_with_version cache k v value_size version) ans h =
     stores v Null_stored (stores_if value_size (Int_stored 0) (stores_if version (Int_stored 0) (success h)))"
| "cache_coherence_call (Cache_invalidate_version cache version) ans h = success h"
| "cache_coherence_call (Cache_with_stampede_prevention cache config) ans h = returns (Pointer cache) h"
| "cache_coherence_call (Cache_get_with_lock cache k v value_size loader_fn ctx) ans h =
     stores v Null_stored (stores_if value_size (Int_stored 0) (success h))"
| "cache_coherence_call (Cache_lock_acquire cache k timeout_ms) ans h = allocates Zeros64 ans h"
| "cache_coherence_call (Cache_lock_release lk) ans h = frees lk (Code (error_code_val SUCCESS)) h"
| "cache_coherence_call (Cache_lock_try_acquire cache k lk) ans h =
     (let (p, h) = c_alloc ans Zeros64 h in stores lk (Pointer_stored p) (returns (Bool True) h))"
| "cache_coherence_call (Read_through_cache_create cache loader loader_ctx) ans h = allocates Zeros64 ans h"
| "cache_coherence_call (Read_through_cache_destroy rt_cache) ans h = frees rt_cache No_reply h"
| "cache_coherence_call (Read_through_get rt_cache k v value_size) ans h =
     stores v Null_stored (stores_if value_size (Int_stored 0) (success h))"
| "cache_coherence_call (Write_through_cache_create cache writer writer_ctx) ans h = allocates Zeros64 ans h"
| "cache_coherence_call (Write_through_cache_destroy wt_cache) ans h = frees wt_cache No_reply h"
| "cache_coherence_call (Write_through_set wt_cache k v value_size) ans h = success h"
| "cache_coherence_call (Write_through_delete wt_cache k) ans h = success h"
| "cache_coherence_call (Write_behind_cache_create cache writer writer_ctx queue_size) ans h =
     allocates Zeros64 ans h"
| "cache_coherence_call (Write_behind_cache_destroy wb_cache) ans h = frees wb_cache No_reply h"
| "cache_coherence_call (Write_behind_set wb_cache k v value_size) ans h = success h"
| "cache_coherence_call (Write_behind_flush wb_cache) ans h = success h"

interpretation cs_coherence: placeholder cache_coherence_call
proof (unfold_locales, goal_cases)
  case (1 f ans h r h1 h' r' h2)
  then show ?case by (cases f) (auto simp: placeholder_simps split: placeholder_splits)
next
  case (2 f ans h r h' a)
  then show ?case by (cases f) (auto simp: placeholder_simps split: placeholder_splits)
qed

section \<open>Warm-up, statistics, clusters and consistency checks\<close>

datatype (plugins only: code size) cache_admin_fn =
    Cache_warmup "addr option" "addr option" "addr option" "addr option"
  | Cache_preload_keys "addr option" "addr option" u64 "addr option" "addr option"
  | Warmup_result_destroy "addr option"
  | Cache_get_stats "addr option" bool
  | Cache_reset_stats "addr option"
  | Cache_get_key_info "addr option" "cstr option" bool
  | Cache_get_all_keys "addr option" bool bool
  | Cache_get_size "addr option" bool
  | Cache_get_operation_stats "addr option" bool bool
  | Cache_cluster_create "addr option"
  | Cache_cluster_destroy "addr option"
  | Cache_cluster_add_node "addr option" "cstr option" int
  | Cache_cluster_remove_node "addr option" "cstr option"
  | Cache_cluster_get_nodes "addr option" bool bool
  | Cache_cluster_set "addr option" "cstr option" "addr option" u64
  | Cache_cluster_get "addr option" "cstr option" bool bool
  | Cache_cluster_delete "addr option" "cstr option"
  | Cache_validate_consistency "addr option" "cstr option" "addr option" u64
  | Cache_get_consistency_violations "addr option" bool bool
  | Cache_test_correctness "addr option" u64

primrec cache_admin_call :: "cache_admin_fn \<Rightarrow> addr option \<Rightarrow> block heap \<Rightarrow> outcome" where
  "cache_admin_call (Cache_warmup cache loader loader_ctx config) ans h =
     allocates (Zero_struct ''warmup_result_t'') ans h"
| "cache_admin_call (Cache_preload_keys cache keys key_count loader loader_ctx) ans h = success h"
| "cache_admin_call (Warmup_result_destroy result) ans h = frees result No_reply h"
| "cache_admin_call (Cache_get_stats cache stats) ans h = stores_if stats Cleared (success h)"
| "cache_admin_call (Cache_reset_stats cache) ans h = success h"
| "cache_admin_call (Cache_get_key_info cache k info) ans h = stores_if info Cleared (success h)"
| "cache_admin_call (Cache_get_all_keys cache keys cnt) ans h =
     stores keys Null_stored (stores cnt (Int_stored 0) (success h))"
| "cache_admin_call (Cache_get_size cache sz) ans h = stores_if sz (Int_stored 0) (success h)"
| "cache_admin_call (Cache_get_operation_stats cache stats cnt) ans h =
     stores stats Null_stored (stores cnt (Int_stored 0) (success h))"
| "cache_admin_call (Cache_cluster_create config) ans h = allocates Zeros64 ans h"
| "cache_admin_call (Cache_cluster_destroy cluster) ans h = frees cluster No_reply h"
| "cache_admin_call (Cache_cluster_add_node cluster host port) ans h = success h"
| "cache_admin_call (Cache_cluster_remove_node cluster node_id) ans h = success h"
| "cache_admin_call (Cache_cluster_get_nodes cluster nodes cnt) ans h =
     stores nodes Null_stored (stores cnt (Int_stored 0) (success h))"
| "cache_admin_call (Cache_cluster_set cluster k v value_size) ans h = success h"
| "cache_admin_call (Cache_cluster_get cluster k v value_size) ans h =
     stores v Null_stored (stores_if value_size (Int_stored 0) (success h))"
| "cache_admin_call (Cache_cluster_delete cluster k) ans h = success h"
| "cache_admin_call (Cache_validate_consistency cache k expected_value expected_size) ans h = success h"
| "cache_admin_call (Cache_get_consistency_violations cache keys cnt) ans h =
     stores keys Null_stored (stores cnt (Int_stored 0) (success h))"
| "cache_admin_call (Cache_test_correctness cache test_duration_ms) ans h =
     allocates (Zero_struct ''cache_correctness_report_t'') ans h"

interpretation cs_admin: placeholder cache_admin_call
proof (unfold_locales, goal_cases)
  case (1 f ans h r h1 h' r' h2)
  then show ?case by (cases f) (auto simp: placeholder_simps split: placeholder_splits)
next
  case (2 f ans h r h' a)
  then show ?case by (cases f) (auto simp: placeholder_simps split: placeholder_splits)
qed

section \<open>Nothing is cached\<close>

text \<open>Whatever was set before, a get succeeds and stores NULL and the size 0.\<close>

lemma cache_backend_empty:
  assumes "transcript cache_instance_call fs h = Some (rs, h')" and "i < length fs"
    and "fst (fs ! i) = Cache_get cache k True want_size"
  shows "rs ! i = (Code 0, Null_stored # (if want_size then [Int_stored 0] else []))"
  using cs_instance.replies_fixed [OF assms(1,2), of h] assms(3) by (auto simp: placeholder_simps)

text \<open>\<open>cache_lock_try_acquire\<close> gives every caller a lock of its own, also for the same key.\<close>

lemma cache_lock_not_exclusive:
  assumes "a \<noteq> b" and "h a = None" and "h b = None"
  shows "transcript cache_coherence_call
      [(Cache_lock_try_acquire cache k True, Some a), (Cache_lock_try_acquire cache k True, Some b)] h
    = Some ([(Bool True, [Pointer_stored (Some a)]), (Bool True, [Pointer_stored (Some b)])], h(a \<mapsto> Zeros64, b \<mapsto> Zeros64))"
  by (simp add: placeholder_simps)

end
