(* ===== verification/Network_Serialization.thy ===== *)
theory Network_Serialization
  imports Placeholder
begin

text \<open>
  \<^verbatim>\<open>src/network_serialization/network_serialization.c\<close>: placeholders for serialisation, compression and connection handling, in three groups in the order of the file.
\<close>

section \<open>Serializers, payloads and compressors\<close>

datatype (plugins only: code size) codec_fn =
    Serializer_create "addr option"
  | Serializer_destroy "addr option"
  | Serialize_to_buffer "addr option" "addr option" bool bool
  | Deserialize_from_buffer "addr option" "addr option" u64 bool
  | Serialize_to_file "addr option" "addr option" "cstr option"
  | Deserialize_from_file "addr option" "cstr option" bool
  | Convert_format "addr option" u64 int int bool bool
  | Serializer_get_stats "addr option" bool
  | Analyze_payload_size "addr option" u64 int
  | Payload_analysis_destroy "addr option"
  | Optimize_payload "addr option" u64 "addr option" u64 bool bool
  | Filter_payload_fields "addr option" u64 "addr option" bool bool
  | Compressor_create "addr option"
  | Compressor_destroy "addr option"
  | Compress_data "addr option" "addr option" u64 bool bool
  | Decompress_data "addr option" "addr option" u64 bool bool
  | Compression_stream_create "addr option"
  | Compression_stream_destroy "addr option"
  | Compression_stream_write "addr option" "addr option" u64
  | Compression_stream_read "addr option" "addr option" u64 bool
  | Compression_stream_finish "addr option"
  | Compressor_get_stats "addr option" bool
  | Benchmark_compression_algorithms "addr option" u64 bool bool

primrec codec_call :: "codec_fn \<Rightarrow> addr option \<Rightarrow> block heap \<Rightarrow> outcome" where
  "codec_call (Serializer_create config) ans h = allocates Zeros64 ans h"
| "codec_call (Serializer_destroy serializer) ans h = frees serializer No_reply h"
| "codec_call (Serialize_to_buffer serializer object buffer sz) ans h =
     stores buffer Null_stored (stores sz (Int_stored 0) (success h))"
| "codec_call (Deserialize_from_buffer serializer buffer sz object) ans h =
     stores object Null_stored (success h)"
| "codec_call (Serialize_to_file serializer object filename) ans h = success h"
| "codec_call (Deserialize_from_file serializer filename object) ans h =
     stores object Null_stored (success h)"
| "codec_call (Convert_format inp input_size from_format to_format output output_size) ans h =
     stores output Null_stored (stores output_size (Int_stored 0) (success h))"
| "codec_call (Serializer_get_stats serializer stats) ans h = stores_if stats Cleared (success h)"
| "codec_call (Analyze_payload_size payload sz format) ans h =
     allocates (Zero_struct ''payload_analysis_t'') ans h"
| "codec_call (Payload_analysis_destroy analysis) ans h = frees analysis No_reply h"
| "codec_call (Optimize_payload payload sz strategies strategy_count optimized optimized_size) ans h =
     stores optimized Null_stored (stores optimized_size (Int_stored 0) (success h))"
| "codec_call (Filter_payload_fields payload sz selector filtered filtered_size) ans h =
     stores filtered Null_stored (stores filtered_size (Int_stored 0) (success h))"
| "codec_call (Compressor_create config) ans h = allocates Zeros64 ans h"
| "codec_call (Compressor_destroy compressor) ans h = frees compressor No_reply h"
| "codec_call (Compress_data compressor inp input_size output output_size) ans h =
     stores output Null_stored (stores output_size (Int_stored 0) (success h))"
| "codec_call (Decompress_data compressor inp input_size output output_size) ans h =
     stores output Null_stored (stores output_size (Int_stored 0) (success h))"
| "codec_call (Compression_stream_create compressor) ans h = allocates Zeros64 ans h"
| "codec_call (Compression_stream_destroy str) ans h = frees str No_reply h"
| "codec_call (Compression_stream_write str dat sz) ans h = success h"
| "codec_call (Compression_stream_read str buffer sz bytes_read) ans h =
     stores_if bytes_read (Int_stored 0) (success h)"
| "codec_call (Compression_stream_finish str) ans h = success h"
| "codec_call (Compressor_get_stats compressor stats) ans h = stores_if stats Cleared (success h)"
| "codec_call (Benchmark_compression_algorithms dat sz results cnt) ans h =
     stores results Null_stored (stores cnt (Int_stored 0) (success h))"

interpretation ns_codec: placeholder codec_call
proof (unfold_locales, goal_cases)
  case (1 f ans h r h1 h' r' h2)
  then show ?case by (cases f) (auto simp: placeholder_simps split: placeholder_splits)
next
  case (2 f ans h r h' a)
  then show ?case by (cases f) (auto simp: placeholder_simps split: placeholder_splits)
qed

section \<open>Protocol handlers, connections and HTTP/2 streams\<close>

datatype (plugins only: code size) connection_fn =
    Protocol_handler_create "addr option"
  | Protocol_handler_destroy "addr option"
  | Protocol_send_request "addr option" "addr option"
  | Protocol_response_destroy "addr option"
  | Compare_protocols "addr option" "addr option" u64 bool bool
  | Connection_manager_create "addr option"
  | Connection_manager_destroy "addr option"
  | Connection_acquire "addr option" "cstr option" int bool
  | Connection_release "addr option" int
  | Connection_close "addr option" int
  | Connection_send_keepalive "addr option" int
  | Connection_check_alive "addr option" int
  | Connection_close_idle "addr option"
  | Connection_get_info "addr option" int bool
  | Connection_get_all_info "addr option" bool bool
  | Connection_get_stats "addr option" bool
  | Http2_create_stream "addr option" int "cstr option" bool
  | Http2_close_stream "addr option" int u32
  | Http2_get_streams "addr option" int bool bool

primrec connection_call :: "connection_fn \<Rightarrow> addr option \<Rightarrow> block heap \<Rightarrow> outcome" where
  "connection_call (Protocol_handler_create config) ans h = allocates Zeros64 ans h"
| "connection_call (Protocol_handler_destroy handler) ans h = frees handler No_reply h"
| "connection_call (Protocol_send_request handler request) ans h =
     allocates (Zero_struct ''protocol_response_t'') ans h"
| "connection_call (Protocol_response_destroy response) ans h = frees response No_reply h"
| "connection_call (Compare_protocols request configs config_count results result_count) ans h =
     stores results Null_stored (stores result_count (Int_stored 0) (success h))"
| "connection_call (Connection_manager_create config) ans h = allocates Zeros64 ans h"
| "connection_call (Connection_manager_destroy manager) ans h = frees manager No_reply h"
| "connection_call (Connection_acquire manager host port conn_fd) ans h =
     stores_if conn_fd (Int_stored (- 1)) (success h)"
| "connection_call (Connection_release manager conn_fd) ans h = success h"
| "connection_call (Connection_close manager conn_fd) ans h = success h"
| "connection_call (Connection_send_keepalive manager conn_fd) ans h = success h"
| "connection_call (Connection_check_alive manager conn_fd) ans h = success h"
| "connection_call (Connection_close_idle manager) ans h = success h"
| "connection_call (Connection_get_info manager conn_fd info) ans h = stores_if info Cleared (success h)"
| "connection_call (Connection_get_all_info manager connections cnt) ans h =
     stores connections Null_stored (stores cnt (Int_stored 0) (success h))"
| "connection_call (Connection_get_stats manager stats) ans h = stores_if stats Cleared (success h)"
| "connection_call (Http2_create_stream manager conn_fd path stream_id) ans h =
     stores_if stream_id (Int_stored 0) (success h)"
| "connection_call (Http2_close_stream manager conn_fd stream_id) ans h = success h"
| "connection_call (Http2_get_streams manager conn_fd streams cnt) ans h =
     stores streams Null_stored (stores cnt (Int_stored 0) (success h))"

interpretation ns_connection: placeholder connection_call
proof (unfold_locales, goal_cases)
  case (1 f ans h r h1 h' r' h2)
  then show ?case by (cases f) (auto simp: placeholder_simps split: placeholder_splits)
next
  case (2 f ans h r h' a)
  then show ?case by (cases f) (auto simp: placeholder_simps split: placeholder_splits)
qed

section \<open>Socket tuning, batches, streams and benchmarks\<close>

datatype (plugins only: code size) transfer_fn =
    Tcp_optimize_socket int "addr option"
  | Tcp_get_socket_info int bool u64
  | Test_network_performance "cstr option" int u64 u64
  | Protocol_send_batch "addr option" "addr option"
  | Batch_response_destroy "addr option"
  | Stream_create "addr option" "cstr option"
  | Stream_destroy "addr option"
  | Stream_send "addr option" "addr option" u64
  | Stream_receive "addr option" "addr option" "addr option"
  | Stream_close "addr option"
  | Benchmark_serialization_formats "addr option" bool bool
  | Benchmark_end_to_end "cstr option" int "addr option" u64 "addr option"

primrec transfer_call :: "transfer_fn \<Rightarrow> addr option \<Rightarrow> block heap \<Rightarrow> outcome" where
  "transfer_call (Tcp_optimize_socket socket_fd config) ans h = success h"
| "transfer_call (Tcp_get_socket_info socket_fd buffer sz) ans h =
     stores_if (buffer \<and> 0 < sz) Nul_stored (success h)"
| "transfer_call (Test_network_performance host port data_size iterations) ans h =
     allocates (Zero_struct ''network_perf_result_t'') ans h"
| "transfer_call (Protocol_send_batch handler batch) ans h =
     allocates (Zero_struct ''batch_response_t'') ans h"
| "transfer_call (Batch_response_destroy response) ans h = frees response No_reply h"
| "transfer_call (Stream_create handler endpoint) ans h = allocates Zeros64 ans h"
| "transfer_call (Stream_destroy str) ans h = frees str No_reply h"
| "transfer_call (Stream_send str dat sz) ans h = success h"
| "transfer_call (Stream_receive str callback ctx) ans h = success h"
| "transfer_call (Stream_close str) ans h = success h"
| "transfer_call (Benchmark_serialization_formats object results cnt) ans h =
     stores results Null_stored (stores cnt (Int_stored 0) (success h))"
| "transfer_call (Benchmark_end_to_end host port payload sz config) ans h =
     allocates (Zero_struct ''end_to_end_benchmark_t'') ans h"

interpretation ns_transfer: placeholder transfer_call
proof (unfold_locales, goal_cases)
  case (1 f ans h r h1 h' r' h2)
  then show ?case by (cases f) (auto simp: placeholder_simps split: placeholder_splits)
next
  case (2 f ans h r h' a)
  then show ?case by (cases f) (auto simp: placeholder_simps split: placeholder_splits)
qed

section \<open>Nothing is transferred\<close>

text \<open>Deserialising and decompressing never give back what was serialised or compressed.\<close>

lemma codec_no_output:
  assumes "transcript codec_call fs h = Some (rs, h')" and "i < length fs"
    and "fst (fs ! i) = Deserialize_from_buffer serializer buffer sz True \<or> fst (fs ! i) = Deserialize_from_file serializer filename True"
  shows "rs ! i = (Code 0, [Null_stored])"
  using ns_codec.replies_fixed [OF assms(1,2), of h] assms(3) by (auto simp: placeholder_simps)

lemma connection_acquire_none:
  assumes "transcript connection_call fs h = Some (rs, h')" and "i < length fs"
    and "fst (fs ! i) = Connection_acquire manager host port True"
  shows "rs ! i = (Code 0, [Int_stored (-1)])"
  using ns_connection.replies_fixed [OF assms(1,2), of h] assms(3) by (auto simp: placeholder_simps)

end
