(* ===== verification/Auth.thy ===== *)
theory Auth
  imports Placeholder
begin

text \<open>
  \<^verbatim>\<open>src/auth/auth.c\<close>: placeholders for JSON web tokens, sessions, OAuth and OpenID Connect.
\<close>

section \<open>JSON web tokens\<close>

datatype (plugins only: code size) jwt_fn =
    Jwt_create int "cstr option"
  | Jwt_destroy "addr option"
  | Jwt_add_claim "addr option" "cstr option" "cstr option"
  | Jwt_add_claim_int "addr option" "cstr option" int
  | Jwt_set_expiration "addr option" u64
  | Jwt_set_issued_at "addr option" u64
  | Jwt_set_not_before "addr option" u64
  | Jwt_encode "addr option"
  | Jwt_decode "cstr option" "cstr option"
  | Jwt_verify "addr option" "cstr option"
  | Jwt_get_claim "addr option" "cstr option"
  | Jwt_get_claim_int "addr option" "cstr option"

primrec jwt_call :: "jwt_fn \<Rightarrow> addr option \<Rightarrow> block heap \<Rightarrow> outcome" where
  "jwt_call (Jwt_create algorithm secret) ans h = returns (Pointer None) h"
| "jwt_call (Jwt_destroy token) ans h = returns No_reply h"
| "jwt_call (Jwt_add_claim token k v) ans h = success h"
| "jwt_call (Jwt_add_claim_int token k v) ans h = success h"
| "jwt_call (Jwt_set_expiration token exp_timestamp) ans h = success h"
| "jwt_call (Jwt_set_issued_at token iat_timestamp) ans h = success h"
| "jwt_call (Jwt_set_not_before token nbf_timestamp) ans h = success h"
| "jwt_call (Jwt_encode token) ans h = copies (Some ''eyJhbGciOiJIUzI1NiIsInR5cCI6IkpXVCJ9'') ans h"
| "jwt_call (Jwt_decode token_str secret) ans h = returns (Pointer None) h"
| "jwt_call (Jwt_verify token secret) ans h = success h"
| "jwt_call (Jwt_get_claim token k) ans h = returns (Text ''value'') h"
| "jwt_call (Jwt_get_claim_int token k) ans h = returns (Code 0) h"

interpretation auth_jwt: placeholder jwt_call
proof (unfold_locales, goal_cases)
  case (1 f ans h r h1 h' r' h2)
  then show ?case by (cases f) (auto simp: placeholder_simps split: placeholder_splits)
next
  case (2 f ans h r h' a)
  then show ?case by (cases f) (auto simp: placeholder_simps split: placeholder_splits)
qed

section \<open>Sessions\<close>

datatype (plugins only: code size) session_fn =
    Session_manager_create int u64
  | Session_manager_destroy "addr option"
  | Session_create "addr option" "cstr option"
  | Session_destroy "addr option"
  | Session_set_data "addr option" "cstr option" "addr option" u64
  | Session_get_data "addr option" "cstr option" "addr option" "addr option"
  | Session_remove_data "addr option" "cstr option"
  | Session_validate "addr option" "cstr option"
  | Session_invalidate "addr option" "cstr option"
  | Session_refresh "addr option" "cstr option"
  | Session_get_id "addr option"
  | Session_get_user_id "addr option"

primrec session_call :: "session_fn \<Rightarrow> addr option \<Rightarrow> block heap \<Rightarrow> outcome" where
  "session_call (Session_manager_create storage default_ttl_seconds) ans h = returns (Pointer None) h"
| "session_call (Session_manager_destroy manager) ans h = returns No_reply h"
| "session_call (Session_create manager user_id) ans h = returns (Pointer None) h"
| "session_call (Session_destroy session) ans h = returns No_reply h"
| "session_call (Session_set_data session k v value_len) ans h = success h"
| "session_call (Session_get_data session k v value_len) ans h = success h"
| "session_call (Session_remove_data session k) ans h = success h"
| "session_call (Session_validate manager session_id) ans h = success h"
| "session_call (Session_invalidate manager session_id) ans h = success h"
| "session_call (Session_refresh manager session_id) ans h = success h"
| "session_call (Session_get_id session) ans h = returns (Text ''session123'') h"
| "session_call (Session_get_user_id session) ans h = returns (Text ''user123'') h"

interpretation auth_session: placeholder session_call
proof (unfold_locales, goal_cases)
  case (1 f ans h r h1 h' r' h2)
  then show ?case by (cases f) (auto simp: placeholder_simps split: placeholder_splits)
next
  case (2 f ans h r h' a)
  then show ?case by (cases f) (auto simp: placeholder_simps split: placeholder_splits)
qed

section \<open>OAuth\<close>

datatype (plugins only: code size) oauth_fn =
    Oauth_server_create "cstr option"
  | Oauth_server_destroy "addr option"
  | Oauth_server_register_client "addr option" "cstr option" "cstr option" "cstr option"
  | Oauth_server_generate_authorization_code "addr option" "cstr option" "cstr option" "cstr option"
  | Oauth_server_exchange_code "addr option" "cstr option" "cstr option"
  | Oauth_server_refresh_token "addr option" "cstr option"
  | Oauth_server_validate_token "addr option" "cstr option"
  | Oauth_client_create "cstr option" "cstr option" "cstr option" "cstr option"
  | Oauth_client_destroy "addr option"
  | Oauth_client_get_authorization_url "addr option" "cstr option" "cstr option"
  | Oauth_client_exchange_code "addr option" "cstr option" "cstr option"
  | Oauth_client_refresh_token "addr option" "cstr option"
  | Oauth_token_destroy "addr option"
  | Oauth_token_get_access_token "addr option"
  | Oauth_token_get_refresh_token "addr option"
  | Oauth_token_get_token_type "addr option"
  | Oauth_token_get_expires_in "addr option"
  | Oauth_token_get_scope "addr option"

primrec oauth_call :: "oauth_fn \<Rightarrow> addr option \<Rightarrow> block heap \<Rightarrow> outcome" where
  "oauth_call (Oauth_server_create issuer_url) ans h = returns (Pointer None) h"
| "oauth_call (Oauth_server_destroy server) ans h = returns No_reply h"
| "oauth_call (Oauth_server_register_client server client_id client_secret redirect_uri) ans h = success h"
| "oauth_call (Oauth_server_generate_authorization_code server client_id user_id scope) ans h =
     copies (Some ''auth_code'') ans h"
| "oauth_call (Oauth_server_exchange_code server code client_id) ans h = returns (Pointer None) h"
| "oauth_call (Oauth_server_refresh_token server refresh_token) ans h = returns (Pointer None) h"
| "oauth_call (Oauth_server_validate_token server access_token) ans h = success h"
| "oauth_call (Oauth_client_create client_id client_secret authorization_endpoint token_endpoint) ans h =
     returns (Pointer None) h"
| "oauth_call (Oauth_client_destroy client) ans h = returns No_reply h"
| "oauth_call (Oauth_client_get_authorization_url client redirect_uri scope) ans h =
     copies (Some ''https://auth.example.com'') ans h"
| "oauth_call (Oauth_client_exchange_code client code redirect_uri) ans h = returns (Pointer None) h"
| "oauth_call (Oauth_client_refresh_token client refresh_token) ans h = returns (Pointer None) h"
| "oauth_call (Oauth_token_destroy token) ans h = returns No_reply h"
| "oauth_call (Oauth_token_get_access_token token) ans h = returns (Text ''access_token'') h"
| "oauth_call (Oauth_token_get_refresh_token token) ans h = returns (Text ''refresh_token'') h"
| "oauth_call (Oauth_token_get_token_type token) ans h = returns (Text ''Bearer'') h"
| "oauth_call (Oauth_token_get_expires_in token) ans h = returns (Code 3600) h"
| "oauth_call (Oauth_token_get_scope token) ans h = returns (Text ''read write'') h"

interpretation auth_oauth: placeholder oauth_call
proof (unfold_locales, goal_cases)
  case (1 f ans h r h1 h' r' h2)
  then show ?case by (cases f) (auto simp: placeholder_simps split: placeholder_splits)
next
  case (2 f ans h r h' a)
  then show ?case by (cases f) (auto simp: placeholder_simps split: placeholder_splits)
qed

section \<open>OpenID Connect\<close>

datatype (plugins only: code size) oidc_fn =
    Oidc_provider_create "cstr option" "cstr option"
  | Oidc_provider_destroy "addr option"
  | Oidc_provider_discover "addr option"
  | Oidc_provider_get_authorization_url "addr option" "cstr option" "cstr option" "cstr option"
  | Oidc_provider_exchange_code "addr option" "cstr option" "cstr option" "cstr option" "cstr option"
  | Oidc_provider_validate_id_token "addr option" "cstr option"
  | Oidc_id_token_destroy "addr option"
  | Oidc_id_token_get_subject "addr option"
  | Oidc_id_token_get_email "addr option"
  | Oidc_id_token_get_name "addr option"
  | Oidc_id_token_get_claim "addr option" "cstr option"
  | Oidc_id_token_get_expiration "addr option"
  | Oidc_id_token_get_issued_at "addr option"

primrec oidc_call :: "oidc_fn \<Rightarrow> addr option \<Rightarrow> block heap \<Rightarrow> outcome" where
  "oidc_call (Oidc_provider_create issuer discovery_url) ans h = returns (Pointer None) h"
| "oidc_call (Oidc_provider_destroy provider) ans h = returns No_reply h"
| "oidc_call (Oidc_provider_discover provider) ans h = success h"
| "oidc_call (Oidc_provider_get_authorization_url provider client_id redirect_uri scope) ans h =
     copies (Some ''https://oidc.example.com'') ans h"
| "oidc_call (Oidc_provider_exchange_code provider code client_id client_secret redirect_uri) ans h =
     returns (Pointer None) h"
| "oidc_call (Oidc_provider_validate_id_token provider id_token) ans h = success h"
| "oidc_call (Oidc_id_token_destroy token) ans h = returns No_reply h"
| "oidc_call (Oidc_id_token_get_subject token) ans h = returns (Text ''sub123'') h"
| "oidc_call (Oidc_id_token_get_email token) ans h = returns (Text ''user@example.com'') h"
| "oidc_call (Oidc_id_token_get_name token) ans h = returns (Text ''John Doe'') h"
| "oidc_call (Oidc_id_token_get_claim token k) ans h = returns (Text ''value'') h"
| "oidc_call (Oidc_id_token_get_expiration token) ans h = returns (Code 0) h"
| "oidc_call (Oidc_id_token_get_issued_at token) ans h = returns (Code 0) h"

interpretation auth_oidc: placeholder oidc_call
proof (unfold_locales, goal_cases)
  case (1 f ans h r h1 h' r' h2)
  then show ?case by (cases f) (auto simp: placeholder_simps split: placeholder_splits)
next
  case (2 f ans h r h' a)
  then show ?case by (cases f) (auto simp: placeholder_simps split: placeholder_splits)
qed

section \<open>Every check succeeds\<close>

lemma jwt_verify_accepts:
  assumes "transcript jwt_call fs h = Some (rs, h')" and "i < length fs" and "fst (fs ! i) = Jwt_verify token secret"
  shows "rs ! i = (Code 0, [])"
  using auth_jwt.replies_fixed [OF assms(1,2), of h] assms(3) by (auto simp: placeholder_simps)

text \<open>A session that has been invalidated is still valid.\<close>

lemma session_validate_accepts:
  assumes "transcript session_call fs h = Some (rs, h')" and "i < length fs" and "fst (fs ! i) = Session_validate manager session_id"
  shows "rs ! i = (Code 0, [])"
  using auth_session.replies_fixed [OF assms(1,2), of h] assms(3) by (auto simp: placeholder_simps)

end
