(* ===== verification/Security.thy ===== *)
theory Security
  imports Placeholder
begin

text \<open>
  \<^verbatim>\<open>src/security/security.c\<close>: placeholders for request checks, input validation, browser policies and API keys.
\<close>

section \<open>Rate limiting and DDoS protection\<close>

datatype (plugins only: code size) guard_fn =
    Rate_limiter_advanced_create int int u64
  | Rate_limiter_advanced_destroy "addr option"
  | Rate_limiter_advanced_allow "addr option" "cstr option"
  | Rate_limiter_advanced_try_acquire "addr option" "cstr option" int
  | Rate_limiter_advanced_get_remaining "addr option" "cstr option"
  | Rate_limiter_advanced_get_reset_time "addr option" "cstr option"
  | Rate_limiter_advanced_reset "addr option" "cstr option"
  | Ddos_protector_create "addr option"
  | Ddos_protector_destroy "addr option"
  | Ddos_protector_check_request "addr option" "cstr option" "cstr option"
  | Ddos_protector_record_connection "addr option" "cstr option"
  | Ddos_protector_record_request "addr option" "cstr option"
  | Ddos_protector_blacklist_ip "addr option" "cstr option" u64
  | Ddos_protector_whitelist_ip "addr option" "cstr option"
  | Ddos_protector_is_blacklisted "addr option" "cstr option"

primrec guard_call :: "guard_fn \<Rightarrow> addr option \<Rightarrow> block heap \<Rightarrow> outcome" where
  "guard_call (Rate_limiter_advanced_create algorithm max_requests window_ms) ans h =
     returns (Pointer None) h"
| "guard_call (Rate_limiter_advanced_destroy limiter) ans h = returns No_reply h"
| "guard_call (Rate_limiter_advanced_allow limiter client_id) ans h = returns (Code 1) h"
| "guard_call (Rate_limiter_advanced_try_acquire limiter client_id tokens) ans h = success h"
| "guard_call (Rate_limiter_advanced_get_remaining limiter client_id) ans h = returns (Code 100) h"
| "guard_call (Rate_limiter_advanced_get_reset_time limiter client_id) ans h = returns (Code 0) h"
| "guard_call (Rate_limiter_advanced_reset limiter client_id) ans h = success h"
| "guard_call (Ddos_protector_create config) ans h = returns (Pointer None) h"
| "guard_call (Ddos_protector_destroy protector) ans h = returns No_reply h"
| "guard_call (Ddos_protector_check_request protector client_ip user_agent) ans h = returns (Code 0) h"
| "guard_call (Ddos_protector_record_connection protector client_ip) ans h = success h"
| "guard_call (Ddos_protector_record_request protector client_ip) ans h = success h"
| "guard_call (Ddos_protector_blacklist_ip protector ip duration_ms) ans h = success h"
| "guard_call (Ddos_protector_whitelist_ip protector ip) ans h = success h"
| "guard_call (Ddos_protector_is_blacklisted protector ip) ans h = returns (Code 0) h"

interpretation sec_guard: placeholder guard_call
proof (unfold_locales, goal_cases)
  case (1 f ans h r h1 h' r' h2)
  then show ?case by (cases f) (auto simp: placeholder_simps split: placeholder_splits)
next
  case (2 f ans h r h' a)
  then show ?case by (cases f) (auto simp: placeholder_simps split: placeholder_splits)
qed

section \<open>Input validation\<close>

datatype (plugins only: code size) validation_fn =
    Security_validate_sql_safe "cstr option"
  | Security_escape_sql "cstr option"
  | Security_escape_html "cstr option"
  | Security_escape_javascript "cstr option"
  | Security_validate_html_safe "cstr option"
  | Security_validate_path "cstr option"
  | Security_normalize_path "cstr option"
  | Security_validate_email "cstr option"
  | Security_validate_url "cstr option"
  | Security_validate_ipv4 "cstr option"
  | Security_validate_ipv6 "cstr option"
  | Security_validate_domain "cstr option"

primrec validation_call :: "validation_fn \<Rightarrow> addr option \<Rightarrow> block heap \<Rightarrow> outcome" where
  "validation_call (Security_validate_sql_safe inp) ans h = returns (Code 1) h"
| "validation_call (Security_escape_sql inp) ans h = copies inp ans h"
| "validation_call (Security_escape_html inp) ans h = copies inp ans h"
| "validation_call (Security_escape_javascript inp) ans h = copies inp ans h"
| "validation_call (Security_validate_html_safe inp) ans h = returns (Code 1) h"
| "validation_call (Security_validate_path path) ans h = returns (Code 1) h"
| "validation_call (Security_normalize_path path) ans h = copies path ans h"
| "validation_call (Security_validate_email email) ans h = returns (Code 1) h"
| "validation_call (Security_validate_url url) ans h = returns (Code 1) h"
| "validation_call (Security_validate_ipv4 ip) ans h = returns (Code 1) h"
| "validation_call (Security_validate_ipv6 ip) ans h = returns (Code 1) h"
| "validation_call (Security_validate_domain domain) ans h = returns (Code 1) h"

interpretation sec_validation: placeholder validation_call
proof (unfold_locales, goal_cases)
  case (1 f ans h r h1 h' r' h2)
  then show ?case by (cases f) (auto simp: placeholder_simps split: placeholder_splits)
next
  case (2 f ans h r h' a)
  then show ?case by (cases f) (auto simp: placeholder_simps split: placeholder_splits)
qed

section \<open>CORS, CSRF, content security policy and headers\<close>

datatype (plugins only: code size) web_policy_fn =
    Cors_config_create
  | Cors_config_destroy "addr option"
  | Cors_config_add_origin "addr option" "cstr option"
  | Cors_config_add_method "addr option" "cstr option"
  | Cors_config_add_header "addr option" "cstr option"
  | Cors_is_allowed "addr option" "cstr option" "cstr option"
  | Cors_get_headers "addr option" "cstr option"
  | Csrf_protector_create "cstr option"
  | Csrf_protector_destroy "addr option"
  | Csrf_generate_token "addr option" "cstr option"
  | Csrf_validate_token "addr option" "cstr option" "cstr option"
  | Csp_policy_create
  | Csp_policy_destroy "addr option"
  | Csp_policy_add_directive "addr option" "cstr option" "cstr option"
  | Csp_policy_serialize "addr option"
  | Security_headers_create_default
  | Security_headers_destroy "addr option"
  | Security_headers_serialize "addr option"

primrec web_policy_call :: "web_policy_fn \<Rightarrow> addr option \<Rightarrow> block heap \<Rightarrow> outcome" where
  "web_policy_call Cors_config_create ans h = returns (Pointer None) h"
| "web_policy_call (Cors_config_destroy config) ans h = returns No_reply h"
| "web_policy_call (Cors_config_add_origin config origin) ans h = success h"
| "web_policy_call (Cors_config_add_method config method) ans h = success h"
| "web_policy_call (Cors_config_add_header config header) ans h = success h"
| "web_policy_call (Cors_is_allowed config origin method) ans h = returns (Code 1) h"
| "web_policy_call (Cors_get_headers config origin) ans h = copies (Some ''*'') ans h"
| "web_policy_call (Csrf_protector_create secret_key) ans h = returns (Pointer None) h"
| "web_policy_call (Csrf_protector_destroy protector) ans h = returns No_reply h"
| "web_policy_call (Csrf_generate_token protector session_id) ans h = copies (Some ''csrf_token'') ans h"
| "web_policy_call (Csrf_validate_token protector token session_id) ans h = returns (Code 1) h"
| "web_policy_call Csp_policy_create ans h = returns (Pointer None) h"
| "web_policy_call (Csp_policy_destroy policy) ans h = returns No_reply h"
| "web_policy_call (Csp_policy_add_directive policy directive v) ans h = success h"
| "web_policy_call (Csp_policy_serialize policy) ans h =
     copies (Some (''default-src '' @ [CHR 0x27] @ ''self'' @ [CHR 0x27])) ans h"
| "web_policy_call Security_headers_create_default ans h = returns (Pointer None) h"
| "web_policy_call (Security_headers_destroy headers) ans h = returns No_reply h"
| "web_policy_call (Security_headers_serialize headers) ans h = copies (Some ''X-Frame-Options: DENY'') ans h"

interpretation sec_web: placeholder web_policy_call
proof (unfold_locales, goal_cases)
  case (1 f ans h r h1 h' r' h2)
  then show ?case by (cases f) (auto simp: placeholder_simps split: placeholder_splits)
next
  case (2 f ans h r h' a)
  then show ?case by (cases f) (auto simp: placeholder_simps split: placeholder_splits)
qed

section \<open>API keys\<close>

datatype (plugins only: code size) api_key_fn =
    Api_key_manager_create
  | Api_key_manager_destroy "addr option"
  | Api_key_generate "addr option" "cstr option" "addr option" u64
  | Api_key_validate "addr option" "cstr option"
  | Api_key_revoke "addr option" "cstr option"
  | Api_key_has_scope "addr option" "cstr option"
  | Api_key_destroy "addr option"

primrec api_key_call :: "api_key_fn \<Rightarrow> addr option \<Rightarrow> block heap \<Rightarrow> outcome" where
  "api_key_call Api_key_manager_create ans h = returns (Pointer None) h"
| "api_key_call (Api_key_manager_destroy manager) ans h = returns No_reply h"
| "api_key_call (Api_key_generate manager name scopes scope_count) ans h = returns (Pointer None) h"
| "api_key_call (Api_key_validate manager k) ans h = returns (Code 1) h"
| "api_key_call (Api_key_revoke manager k) ans h = success h"
| "api_key_call (Api_key_has_scope k scope) ans h = returns (Code 1) h"
| "api_key_call (Api_key_destroy k) ans h = returns No_reply h"

interpretation sec_api_key: placeholder api_key_call
proof (unfold_locales, goal_cases)
  case (1 f ans h r h1 h' r' h2)
  then show ?case by (cases f) (auto simp: placeholder_simps split: placeholder_splits)
next
  case (2 f ans h r h' a)
  then show ?case by (cases f) (auto simp: placeholder_simps split: placeholder_splits)
qed

section \<open>Checks\<close>

text \<open>Escaping copies its input unchanged; NULL is undefined.\<close>

lemma security_escape_identity:
  "f \<in> {Security_escape_sql, Security_escape_html, Security_escape_javascript, Security_normalize_path} \<Longrightarrow>
     validation_call (f (Some s)) (Some a) h = Some ((Pointer (Some a), []), h(a \<mapsto> Chars s)) \<and> validation_call (f None) ans h = None"
  by (auto simp: placeholder_simps)

lemma ddos_blacklist_ignored:
  assumes "transcript guard_call fs h = Some (rs, h')" and "i < length fs"
    and "fst (fs ! i) = Ddos_protector_is_blacklisted protector ip"
  shows "rs ! i = (Code 0, [])"
  using sec_guard.replies_fixed [OF assms(1,2), of h] assms(3) by (auto simp: placeholder_simps)

text \<open>
  Revoking an API key has no effect: in every sequence of API key calls, whatever was generated or
  revoked before, each validation of a key answers 1 (valid), and so does each check of a scope.
\<close>

lemma api_key_revocation_ignored:
  assumes "transcript api_key_call fs h = Some (rs, h')" and "i < length fs"
    and "fst (fs ! i) = Api_key_validate manager k \<or> fst (fs ! i) = Api_key_has_scope api_key scope"
  shows "rs ! i = (Code 1, [])"
  using sec_api_key.replies_fixed [OF assms(1,2), of h] assms(3) by (auto simp: placeholder_simps)

end
