(* ===== verification/Spec2Isabelle.thy ===== *)
theory Spec2Isabelle
  imports Cache_Inclusion Database_Session Mqueue_Drain Service_Registry Auth_Token Rate_Interval
    Circuit_Breaker Retry Metrics Http_Status Webserver Tcp_Udp Concurrency Db_Performance
    Latency_Observability Cache_Strategies Network_Serialization Auth Security Crypto
begin

text \<open>
  \<^bold>\<open>Verification of backend-in-c\<close>, a library of backend building blocks in C: a cache, a key-value
  database with a write-ahead log, a message queue with consumer threads, the parts of a
  distributed service (registry, tokens, rate limiter, circuit breaker, retries, metrics), an HTTP
  parser and a web server on top of it, and placeholder modules for sockets, concurrency, database
  performance, observability, cache backends, serialisation, authentication, security and cryptography. The parts share \<^verbatim>\<open>src/common/common.c\<close> (error codes, allocation, strings, clock); the web server calls the
  HTTP parser; the other parts do not call each other.

  \<^bold>\<open>How C is modelled.\<close>
  \<^item> A struct is a \<^theory_text>\<open>record\<close>, an enum a \<^theory_text>\<open>datatype\<close>; \<open>uint64_t\<close> and \<open>size_t\<close> are \<open>u64\<close> (64-bit
    words, so sums wrap), \<open>uint32_t\<close> is \<open>u32\<close>, bytes are \<open>u8\<close>. An \<open>int\<close> is an \<open>int\<close>; where it can overflow the
    overflow is undefined behaviour. A C string is the list of its characters without the NUL.
  \<^item> A pointer that may be NULL is an \<open>option\<close>. Undefined behaviour (a NULL or dangling dereference, an
    access outside a buffer, signed overflow, \<open>isspace\<close> of a negative \<open>char\<close>) and a loop that does not end are \<open>None\<close> of the result, so
    every theorem with \<open>= Some ...\<close> also says that these do not occur.
  \<^item> Linked structures that are aliased (the cache entries on two lists, the nodes of the message
    queue, address lists) live in a heap \<open>addr \<rightharpoonup> record\<close>; their loops are \<^theory_text>\<open>partial_function (option)\<close>
    with the pointer as first argument. Lists reachable from one place only are HOL lists.
  \<^item> What the environment supplies is an argument: clock readings, fresh addresses, the answers of the
    kernel (\<open>open\<close>, \<open>read\<close>, \<open>socket\<close>, \<open>recv\<close>, ...), the content of uninitialised memory, handlers and protected
    functions. \<open>double\<close> values are a type variable with the operations used on them.
  \<^item> \<open>safe_malloc\<close> and its kin end the process when memory is exhausted, so an allocation that returns
    has succeeded; \<open>calloc\<close> called directly (sockets, concurrency) may fail. Operations that hold a lock are
    single steps; code between critical sections is interleaved by an inductive step relation.

  \<^bold>\<open>Theories.\<close>
  \<^item> \<open>Backend_Prelude\<close>: machine types, heaps, chains of nodes, arrays, counted loops; the locales
    \<open>list_release\<close> (loops that free a list), \<open>refinement\<close> (an implementation simulates a specification, for
    all sequences of operations), \<open>checked_refinement\<close> (the same when the caller's obligations are stated on
    the specification), \<open>invariant_system\<close> and \<open>operation_system\<close> (invariants of step relations and
    of operation sequences). \<open>Common\<close> is \<^verbatim>\<open>common.c\<close> and the parts of the C library several modules use;
    \<open>C_Format\<close> is \<open>snprintf\<close> and \<open>sscanf\<close> as far as they are used, with printing and scanning of decimal
    numbers shown inverse to each other. \<open>C_Alloc\<close> is allocation on typed heaps with the locale \<open>handle_pair\<close>, the
    contract of a creating and a destroying function, which extends to a \<open>checked_refinement\<close> of the set of
    live addresses.
  \<^item> \<open>Cache\<close> translates \<^verbatim>\<open>cache.c\<close> at pointer level: hash chains, recency list, eviction, time to live.
    \<open>Cache_Heap\<close> relates the two pointer structures to lists, \<open>Cache_Refine\<close> shows every operation to refine
    a list specification, \<open>Cache_Correct\<close> (interpretation \<open>cache_ref\<close>) derives what clients rely on:
    sequences refine the specification and stay within capacity, a put is found by a get until it
    expires, the entry evicted is the least recently or least frequently used one, a delete removes
    one key, destroying releases everything; and two defects (capacity 0, expired entries kept).
    \<open>Cache_Inclusion\<close> compares two caches under the same calls: with LRU and without times to live the larger
    one answers whatever the smaller one answers; with LFU it need not.
  \<^item> \<open>Hash_Table\<close> is the chained table of \<^verbatim>\<open>database.c\<close>, shown to be a finite map through the locale
    \<open>kv_table\<close> (interpretation \<open>ht\<close>). \<open>Database\<close> is the store with its log as a byte file, transactions and
    recovery; \<open>Database_Correct\<close> shows that get after put returns the bytes, that a commit installs the
    write set, that recovery after a crash, also one in the middle of a record header, rebuilds the
    map (interpretation \<open>db_log\<close>), and states what goes wrong on close, on torn values, behind a torn
    record and on deletes in a transaction. \<open>Database_Session\<close> takes any sequence of calls with crashes
    and interleaved transactions (\<open>sess_exec\<close>) and shows that it refines a specification of maps and logged
    operations (\<open>spec_exec\<close>, interpretation \<open>db_session\<close>); it follows that tables, transactions and log stay
    well formed and no valid call is undefined, that a transaction is equivalent to direct writes for
    everything the process does later (\<open>same_memory\<close>), and that it is neither durable nor isolated.
  \<^item> \<open>Mqueue\<close> is \<^verbatim>\<open>mqueue.c\<close>; \<open>Mqueue_Correct\<close> shows first-in first-out and stable priority order
    (interpretation \<open>mq_ref\<close>); \<open>Mqueue_System\<close> runs publishers, consumer threads and clear in any
    interleaving (\<open>mq_step\<close>) and shows that no message is lost, duplicated or misdirected and no freed
    node is touched (interpretation \<open>mq_sys\<close>). \<open>Mqueue_Liveness\<close> runs one consumer thread by itself
    (\<open>thread_run\<close>): without priorities it delivers every message of its topic within three steps per
    queued message; with priorities it starves behind a message of another topic; and putting a
    message back lets a later one overtake it. \<open>Mqueue_Wait\<close> adds the condition variable
    (\<open>wait_step\<close>, each step of which is one of \<open>mq_step\<close>): with one topic a consumer sleeps only while the
    queue is empty (interpretation \<open>one_topic_sys\<close>); with two a wake-up can be lost, because putting a
    message back does not broadcast. \<open>Mqueue_Drain\<close> shows that with one topic and no new messages the consumer
    threads, one of them active, run exactly \<open>work_left\<close> critical sections in any order and have then delivered
    everything (interpretation \<open>drain_sys\<close>).
  \<^item> \<^verbatim>\<open>distributed.c\<close>: \<open>Service_Registry\<close> (unique ids in sequential use, and the race of the unlocked
    counter), \<open>Auth_Token\<close> (validity window, round trip of the text form, forged user ids),
    \<open>Rate_Limiter\<close> (one fixed-window counter per client, interpretation \<open>rl_ref\<close>; exact allowance; the
    burst at a window boundary; \<open>Rate_Interval\<close>: the bound that no interval of a window's length exceeds), \<open>Circuit_Breaker\<close> (closed exactly below the threshold under any interleaving; opening,
    rejecting and recovering; interpretation \<open>cb_sys\<close>), \<open>Retry\<close> (the exact number of calls and the delays,
    for any multiplication of delays, and exactly when a delay cannot be represented),
    \<open>Metrics\<close> (a map from names to values, interpretation \<open>metrics_ref\<close>; exactly when the export is
    complete, cut or overflows).
  \<^item> \<open>Http_Status\<close> is \<^verbatim>\<open>http_status.c\<close>. \<open>Http_Parser\<close> is \<^verbatim>\<open>http_parser.c\<close> with buffers as character lists and
    pointers as positions, and shows that serialising a response is exact; \<open>Http_Request\<close> shows,
    for any bytes, what parsing answers, which headers it stores and exactly when it is undefined
    (\<open>is_request\<close>, \<open>header_section\<close>, \<open>value_defined\<close>; \<open>isspace\<close> is partial, because it is called on a plain \<open>char\<close>),
    that parsing inverts printing, and what a header line without a colon and a request without
    headers do. \<open>Webserver\<close> is \<^verbatim>\<open>webserver.c\<close>: it relies on the parser and the
    serialiser through the locale \<open>http_codec\<close> (interpretation \<open>codec\<close>); shown are exactly which bytes
    are answered with the default page and which with nothing, the descriptors of the listening socket and of the client threads under any interleaving
    (\<open>ws_step\<close>, interpretation \<open>ws\<close>), and that a server can be destroyed while in use.
  \<^item> \<open>Tcp_Udp\<close> and \<open>Concurrency\<close> translate \<^verbatim>\<open>tcp_udp.c\<close> and \<^verbatim>\<open>concurrency.c\<close>, most of whose bodies are
    placeholders, as they are: argument checks, flags, allocation and constant results. Shown are the
    freeing of address lists, the results of transfers, that no descriptor is ever opened, that counters
    are exact in sequence and lose updates in parallel, and that the locks do not exclude.
  \<^item> \<open>Db_Performance\<close> and \<open>Latency_Observability\<close> translate \<^verbatim>\<open>db_performance.c\<close> and
    \<^verbatim>\<open>latency_observability.c\<close>, placeholders throughout. Every create and destroy pair interprets
    \<open>handle_pair\<close>; shown are the exact set of allocated connections of the pool, that its limits are not
    enforced, and which settings and reports have no effect. Names they share with \<^verbatim>\<open>distributed.c\<close> and
    \<^verbatim>\<open>database.h\<close> are told apart by their theory.
  \<^item> \<open>Cache_Strategies\<close>, \<open>Network_Serialization\<close>, \<open>Auth\<close>, \<open>Security\<close> and \<open>Crypto\<close> translate the modules of the same
    names, whose functions look at none of their arguments. \<open>Placeholder\<close> has the statements they are made of
    and the contract \<open>placeholder\<close>: replies do not depend on earlier calls and blocks are not written. Each group
    of functions is one definition with an equation per function and interprets the contract; it
    follows that nothing set is found, nothing revoked is refused and every check accepts.

  \<^bold>\<open>Bounds.\<close> No fuel is used: recursion is structural or comes with a termination measure, and pointer
  loops are shown to return on well-formed heaps. Hypotheses that bound sizes are the widths of the
  machine: fewer than \<open>2 ^ 64\<close> bytes or registrations, life times whose milliseconds fit in 64 bits, failure
  thresholds up to \<open>INT_MAX\<close>. Status lines up to 256 characters are what \<open>http_response_serialize\<close> reserves;
  request targets up to 2047 and user ids up to 127 characters are the arrays of the parsers. Strings
  are assumed shorter than \<open>INT_MAX\<close>, the range of \<open>snprintf\<close>'s result.

  \<^bold>\<open>Not modelled.\<close> Real time and scheduling beyond interleaving of critical sections, weak memory, partial
  \<open>send\<close>s, signal interruption, messages written by \<open>perror\<close> and \<open>printf\<close>. The structs that the
  placeholders of network_serialization and cache_strategies at most clear are not detailed. The modules
  architecture, cicd, cloud, container, logging, monitoring, nosql, scaling,
  sql, testing, tracing and websocket have no functions at all, only declarations. With several topics delivery is
  shown for a consumer that is scheduled alone; spurious wake-ups are not modelled.
\<close>

end
